(* ===== verification/L2tvpp_Prelude.thy ===== *)
theory L2tvpp_Prelude
  imports Main "HOL-Library.Word" "HOL-Library.Monad_Syntax"
begin

text \<open>
  Shared vocabulary of the development: machine integers at their C width, byte buffers with
  checked reads, big-endian (network order) fields, and the generic list, option and word lemmas
  the components use.

  A read outside the bytes a caller owns is the value \<open>None\<close>: a function of type
  \<open>bytes \<Rightarrow> \<dots> \<Rightarrow> 'a option\<close> returns \<open>None\<close> exactly when the C code would have
  touched memory beyond the buffer.  Memory safety is therefore a theorem (``never
  \<open>None\<close>''), not an assumption.
\<close>

unbundle bit_operations_syntax

section \<open>Machine integers and bytes\<close>

type_synonym u8 = "8 word"
type_synonym u16 = "16 word"
type_synonym u32 = "32 word"
type_synonym u64 = "64 word"
type_synonym bytes = "u8 list"

text \<open>The all-ones index \<open>~0\<close> the code uses for ``none''.\<close>

abbreviation (input) INVALID_INDEX :: u32 where
  "INVALID_INDEX \<equiv> - 1"

named_theorems rd_simps \<open>checked reads at an offset inside the buffer\<close>
named_theorems wire \<open>the layout of the headers read by field\<close>
named_theorems buf_simps \<open>effects on a vlib buffer\<close>

definition rd8 :: "bytes \<Rightarrow> nat \<Rightarrow> u8 option" where
  "rd8 bs i = (if i < length bs then Some (bs ! i) else None)"

definition be16 :: "u8 \<Rightarrow> u8 \<Rightarrow> u16" where
  "be16 hi lo = push_bit 8 (ucast hi) OR ucast lo"

text \<open>\<open>clib_net_to_host_u16 (*(u16 *) (p + i))\<close>, and the same field kept in memory order as
  the little-endian host loads it (addresses and ports are only compared, copied or hashed).\<close>

definition rd16 :: "bytes \<Rightarrow> nat \<Rightarrow> u16 option" where
  "rd16 bs i = do { a \<leftarrow> rd8 bs i; b \<leftarrow> rd8 bs (i + 1); Some (be16 a b) }"

definition le16 :: "u8 \<Rightarrow> u8 \<Rightarrow> u16" where
  "le16 b0 b1 = be16 b1 b0"

definition le32 :: "u8 \<Rightarrow> u8 \<Rightarrow> u8 \<Rightarrow> u8 \<Rightarrow> u32" where
  "le32 b0 b1 b2 b3 =
     ucast b0 OR push_bit 8 (ucast b1) OR push_bit 16 (ucast b2) OR push_bit 24 (ucast b3)"

definition ld32 :: "bytes \<Rightarrow> nat \<Rightarrow> u32 option" where
  "ld32 bs i = do { a \<leftarrow> rd8 bs i; b \<leftarrow> rd8 bs (i + 1); c \<leftarrow> rd8 bs (i + 2); d \<leftarrow> rd8 bs (i + 3);
     Some (le32 a b c d) }"

text \<open>A block of \<open>n\<close> bytes.\<close>

definition rdn :: "bytes \<Rightarrow> nat \<Rightarrow> nat \<Rightarrow> bytes option" where
  "rdn bs i n = (if i + n \<le> length bs then Some (take n (drop i bs)) else None)"

text \<open>\<open>*(u16 *) p = clib_host_to_net_u16 x\<close> and a 32-bit store in memory order.\<close>

definition put16 :: "u16 \<Rightarrow> bytes" where
  "put16 x = [ucast (drop_bit 8 x), ucast x]"

definition st32 :: "u32 \<Rightarrow> bytes" where
  "st32 x = [ucast x, ucast (drop_bit 8 x), ucast (drop_bit 16 x), ucast (drop_bit 24 x)]"

definition st16 :: "u16 \<Rightarrow> bytes" where
  "st16 x = [ucast x, ucast (drop_bit 8 x)]"

text \<open>The decimal digits \<open>format\<close> prints for \<open>%u\<close>, and for \<open>%d\<close> of a 32-bit value.\<close>

fun dec :: "nat \<Rightarrow> string" where
  "dec n = (if n < 10 then [char_of (48 + n)] else dec (n div 10) @ [char_of (48 + n mod 10)])"

declare dec.simps [simp del]

definition dec_u :: "'a::len word \<Rightarrow> string" where
  "dec_u x = dec (unat x)"

definition dec_d :: "u32 \<Rightarrow> string" where
  "dec_d x = (if sint x < 0 then CHR ''-'' # dec (nat (- sint x)) else dec (nat (sint x)))"

text \<open>Reading decimal digits.\<close>

definition is_digit :: "char \<Rightarrow> bool" where
  "is_digit c \<longleftrightarrow> 48 \<le> (of_char c :: nat) \<and> (of_char c :: nat) \<le> 57"

definition digit_value :: "char \<Rightarrow> nat" where
  "digit_value c = of_char c - 48"

definition digits_value :: "string \<Rightarrow> nat" where
  "digits_value ds = foldl (\<lambda>n c. 10 * n + digit_value c) 0 ds"

section \<open>Checked reads\<close>

lemma rd8_inside [rd_simps]: "i < length bs \<Longrightarrow> rd8 bs i = Some (bs ! i)"
  by (simp add: rd8_def)

lemma rd16_inside [rd_simps]: "i + 1 < length bs \<Longrightarrow> rd16 bs i = Some (be16 (bs ! i) (bs ! (i + 1)))"
  by (simp add: rd16_def rd8_def)

lemma ld32_inside [rd_simps]:
  "i + 3 < length bs \<Longrightarrow>
     ld32 bs i = Some (le32 (bs ! i) (bs ! (i + 1)) (bs ! (i + 2)) (bs ! (i + 3)))"
  by (simp add: ld32_def rd8_def)

lemma rdn_inside [rd_simps]: "i + n \<le> length bs \<Longrightarrow> rdn bs i n = Some (take n (drop i bs))"
  by (simp add: rdn_def)

lemma rd8_eq_None_iff: "rd8 bs i = None \<longleftrightarrow> length bs \<le> i"
  by (auto simp: rd8_def)

lemma rd16_eq_None_iff: "rd16 bs i = None \<longleftrightarrow> length bs \<le> i + 1"
  by (auto simp: rd16_def rd8_def bind_eq_None_conv)

lemma rd8_append_left: "i < length bs \<Longrightarrow> rd8 (bs @ xs) i = rd8 bs i"
  by (simp add: rd8_def nth_append)

lemma rd16_append_left: "i + 1 < length bs \<Longrightarrow> rd16 (bs @ xs) i = rd16 bs i"
  by (simp add: rd16_def rd8_append_left)

lemma rd8_append_right: "rd8 (bs @ xs) (length bs + i) = rd8 xs i"
  by (simp add: rd8_def)

lemma rd16_append_right: "rd16 (bs @ xs) (length bs + i) = rd16 xs i"
  using rd8_append_right [of bs xs i] rd8_append_right [of bs xs "i + 1"]
  by (simp add: rd16_def add.assoc)

lemma rd8_drop: "rd8 (drop k bs) i = rd8 bs (k + i)"
  by (auto simp: rd8_def)

lemma rd16_drop: "rd16 (drop k bs) i = rd16 bs (k + i)"
  by (simp add: rd16_def rd8_drop add.assoc)

lemma rdn_drop: "k \<le> length bs \<Longrightarrow> rdn (drop k bs) i n = rdn bs (k + i) n"
  by (auto simp: rdn_def add.commute)

lemma rd8_take: "i < n \<Longrightarrow> rd8 (take n bs) i = rd8 bs i"
  by (simp add: rd8_def)

lemma rd16_take: "i + 1 < n \<Longrightarrow> rd16 (take n bs) i = rd16 bs i"
  by (simp add: rd16_def rd8_take)

section \<open>Round trips of the stores and loads\<close>

lemma be16_put16 [simp]: "be16 (ucast (drop_bit 8 x)) (ucast x) = (x :: u16)"
  by (rule bit_word_eqI) (auto simp: be16_def bit_simps)

lemma rd16_put16 [simp]: "rd16 (put16 x @ xs) 0 = Some x"
  by (simp add: put16_def rd16_def rd8_def)

lemma length_put16 [simp]: "length (put16 x) = 2"
  by (simp add: put16_def)

lemma le16_st16 [simp]: "le16 (ucast x) (ucast (drop_bit 8 x)) = (x :: u16)"
  by (simp add: le16_def)

lemma length_st16 [simp]: "length (st16 x) = 2"
  by (simp add: st16_def)

lemma le32_st32 [simp]:
  "le32 (ucast x) (ucast (drop_bit 8 x)) (ucast (drop_bit 16 x)) (ucast (drop_bit 24 x)) = (x :: u32)"
proof (rule bit_word_eqI)
  fix n
  assume "n < LENGTH(32)"
  then consider "n < 8" | "8 \<le> n" "n < 16" | "16 \<le> n" "n < 24" | "24 \<le> n" "n < 32"
    by fastforce
  then show "bit (le32 (ucast x) (ucast (drop_bit 8 x)) (ucast (drop_bit 16 x))
      (ucast (drop_bit 24 x))) n = bit x n"
    by cases (auto simp: le32_def bit_simps)
qed

lemma length_st32 [simp]: "length (st32 x) = 4"
  by (simp add: st32_def)

section \<open>Unsigned values\<close>

lemma unat_u8_less: "unat (x :: u8) < 256"
  using unsigned_less [of x] by simp

lemma unat_u16_less: "unat (x :: u16) < 65536"
  using unsigned_less [of x] by simp

lemma unat_u32_less: "unat (x :: u32) < 4294967296"
  using unsigned_less [of x] by simp

lemma unat_ucast_widen:
  assumes "LENGTH('a) \<le> LENGTH('b)"
  shows "unat (ucast (x :: 'a::len word) :: 'b::len word) = unat x"
proof -
  have "unat x < 2 ^ LENGTH('a)" by (rule unsigned_less)
  also have "(2 :: nat) ^ LENGTH('a) \<le> 2 ^ LENGTH('b)" using assms by (rule power_increasing) simp
  finally show ?thesis by (simp add: unsigned_ucast_eq take_bit_nat_eq_self)
qed

lemma unat_be16: "unat (be16 hi lo) = 256 * unat hi + unat lo"
proof -
  have "be16 hi lo = push_bit 8 (ucast hi) + ucast lo"
    unfolding be16_def
    by (rule disjunctive_add [symmetric]) (auto simp: bit_simps dest: bit_imp_le_length)
  moreover have "unat (push_bit 8 (ucast hi :: u16)) = 256 * unat hi"
    using unat_u8_less [of hi]
    by (simp add: push_bit_eq_mult unat_word_ariths unat_ucast_widen)
  ultimately show ?thesis
    using unat_u8_less [of hi] unat_u8_less [of lo]
    by (simp add: unat_word_ariths unat_ucast_widen)
qed

section \<open>Decimal digits\<close>

lemma is_digit_char: "d < 10 \<Longrightarrow> is_digit (char_of (48 + d)) \<and> digit_value (char_of (48 + d)) = d"
  by (simp add: is_digit_def digit_value_def)

lemma digits_value_snoc: "digits_value (ds @ [c]) = 10 * digits_value ds + digit_value c"
  by (simp add: digits_value_def)

lemma dec_digits: "(\<forall>c \<in> set (dec n). is_digit c) \<and> dec n \<noteq> [] \<and> digits_value (dec n) = n"
proof (induction n rule: dec.induct)
  case (1 n)
  show ?case
  proof (cases "n < 10")
    case True
    then show ?thesis by (subst (1 2 3) dec.simps) (simp add: is_digit_char digits_value_def)
  next
    case False
    have d: "dec n = dec (n div 10) @ [char_of (48 + n mod 10)]" using False by (subst dec.simps) simp
    have "n mod 10 < 10" by simp
    note c = is_digit_char [OF this]
    show ?thesis
      using 1 [OF False] c unfolding d digits_value_snoc by auto
  qed
qed

lemmas dec_simps = dec_digits [THEN conjunct1, rule_format] dec_digits [THEN conjunct2, THEN conjunct1]
  dec_digits [THEN conjunct2, THEN conjunct2]

end
