(* ===== verification/L2tp_Header.thy ===== *)
theory L2tp_Header
  imports L2tvpp_Prelude
begin

text \<open>
  \<^verbatim>\<open>src/plugin/l2tvpp/l2tvpp.h\<close>: the constants of the L2TPv2 and PPP headers, the one header
  parser every input-side node of the plugin calls (\<open>l2tvpp_parse_hdr\<close>), the packed decap key
  (\<open>l2tvpp_session_key\<close>) and the session-to-worker hash (\<open>l2tvpp_handoff_worker\<close>).

  The parser is given the readable bytes \<open>cur\<close> and the length \<open>len\<close> it was told; a read beyond
  \<open>cur\<close> is \<open>None\<close>.  The reference is an encoder of RFC 2661 data headers with every optional
  field (\<open>rfc_encode\<close>), which is specification only and models no line of the repository.
\<close>

section \<open>Constants\<close>

definition L2TVPP_UDP_PORT :: u16 where "L2TVPP_UDP_PORT = 1701"

definition L2TVPP_HDR_T :: u16 where "L2TVPP_HDR_T = 0x8000"
definition L2TVPP_HDR_L :: u16 where "L2TVPP_HDR_L = 0x4000"
definition L2TVPP_HDR_S :: u16 where "L2TVPP_HDR_S = 0x0800"
definition L2TVPP_HDR_O :: u16 where "L2TVPP_HDR_O = 0x0200"
definition L2TVPP_HDR_P :: u16 where "L2TVPP_HDR_P = 0x0100"
definition L2TVPP_HDR_VER :: u16 where "L2TVPP_HDR_VER = 0x000F"

definition PPP_PROTO_IP4 :: u16 where "PPP_PROTO_IP4 = 0x0021"
definition PPP_PROTO_IP6 :: u16 where "PPP_PROTO_IP6 = 0x0057"

lemmas hdr_consts = L2TVPP_HDR_T_def L2TVPP_HDR_L_def L2TVPP_HDR_S_def L2TVPP_HDR_O_def
  L2TVPP_HDR_P_def L2TVPP_HDR_VER_def

section \<open>The header parser\<close>

text \<open>The out-parameters \<open>flags\<close>, \<open>tid\<close>, \<open>sid\<close> and \<open>off\<close> are the arguments of
  \<open>L2TVPP_HDR_DATA\<close>, the only result on which callers read them.\<close>

datatype l2tvpp_hdr_rc =
    L2TVPP_HDR_DATA u16 u16 u16 nat
  | L2TVPP_HDR_TOO_SHORT
  | L2TVPP_HDR_NOT_V2
  | L2TVPP_HDR_CONTROL

definition l2tvpp_parse_hdr :: "bytes \<Rightarrow> nat \<Rightarrow> l2tvpp_hdr_rc option" where
  "l2tvpp_parse_hdr cur len =
     (if len < 6 then Some L2TVPP_HDR_TOO_SHORT
      else do {
        f \<leftarrow> rd16 cur 0;
        if f AND L2TVPP_HDR_VER \<noteq> 2 then Some L2TVPP_HDR_NOT_V2
        else if f AND L2TVPP_HDR_T \<noteq> 0 then Some L2TVPP_HDR_CONTROL
        else if f AND L2TVPP_HDR_L \<noteq> 0 \<and> len < 8 then Some L2TVPP_HDR_TOO_SHORT
        else do {
          let o1 = (if f AND L2TVPP_HDR_L \<noteq> 0 then 4 else 2);
          tid \<leftarrow> rd16 cur o1;
          sid \<leftarrow> rd16 cur (o1 + 2);
          Some (L2TVPP_HDR_DATA f tid sid (o1 + 4)) } })"

section \<open>Decap key and worker hash\<close>

definition l2tvpp_session_key :: "u16 \<Rightarrow> u16 \<Rightarrow> u64" where
  "l2tvpp_session_key local_tid local_sid = push_bit 16 (ucast local_tid) OR ucast local_sid"

definition session_hash :: "u16 \<Rightarrow> u16 \<Rightarrow> u32" where
  "session_hash tid sid =
     (let h = (push_bit 16 (ucast tid) OR ucast sid) * 0x9E3779B1 in h XOR drop_bit 16 h)"

text \<open>\<open>None\<close> is the division trap of \<open>h % n_workers\<close> at zero workers, which the callers
  exclude.\<close>

definition l2tvpp_handoff_worker :: "u16 \<Rightarrow> u16 \<Rightarrow> u32 \<Rightarrow> u16 option" where
  "l2tvpp_handoff_worker tid sid n_workers =
     (if n_workers = 0 then None
      else Some (ucast (1 + session_hash tid sid mod n_workers)))"

section \<open>Specification: RFC 2661 data headers\<close>

record rfc_hdr =
  rh_length :: "u16 option"
  rh_priority :: bool
  rh_tid :: u16
  rh_sid :: u16
  rh_seq :: "(u16 \<times> u16) option"
  rh_offset :: "bytes option"

definition rfc_flags :: "rfc_hdr \<Rightarrow> u16" where
  "rfc_flags h = 2 OR (if rh_length h = None then 0 else L2TVPP_HDR_L)
     OR (if rh_seq h = None then 0 else L2TVPP_HDR_S)
     OR (if rh_offset h = None then 0 else L2TVPP_HDR_O)
     OR (if rh_priority h then L2TVPP_HDR_P else 0)"

definition rfc_fixed :: "rfc_hdr \<Rightarrow> bytes" where
  "rfc_fixed h = put16 (rfc_flags h)
     @ (case rh_length h of None \<Rightarrow> [] | Some l \<Rightarrow> put16 l)
     @ put16 (rh_tid h) @ put16 (rh_sid h)"

definition rfc_optional :: "rfc_hdr \<Rightarrow> bytes" where
  "rfc_optional h =
     (case rh_seq h of None \<Rightarrow> [] | Some (ns, nr) \<Rightarrow> put16 ns @ put16 nr)
     @ (case rh_offset h of None \<Rightarrow> [] | Some pad \<Rightarrow> put16 (of_nat (length pad)) @ pad)"

definition rfc_encode :: "rfc_hdr \<Rightarrow> bytes" where
  "rfc_encode h = rfc_fixed h @ rfc_optional h"

section \<open>Lemmas on the parser\<close>

lemma parse_hdr_no_fault:
  assumes "len \<le> length cur"
  shows "l2tvpp_parse_hdr cur len \<noteq> None"
  using assms by (auto simp: l2tvpp_parse_hdr_def rd_simps Let_def)

lemma parse_hdr_data_iff:
  assumes "len \<le> length cur"
  shows "l2tvpp_parse_hdr cur len = Some (L2TVPP_HDR_DATA f tid sid off) \<longleftrightarrow>
    off \<le> len \<and> 6 \<le> len \<and> rd16 cur 0 = Some f \<and> f AND L2TVPP_HDR_VER = 2 \<and> f AND L2TVPP_HDR_T = 0
    \<and> off = (if f AND L2TVPP_HDR_L \<noteq> 0 then 8 else 6)
    \<and> rd16 cur (off - 4) = Some tid \<and> rd16 cur (off - 2) = Some sid"
  using assms by (auto simp: l2tvpp_parse_hdr_def rd_simps Let_def split: if_splits)

lemma parse_hdr_data_off:
  assumes "l2tvpp_parse_hdr cur len = Some (L2TVPP_HDR_DATA f tid sid off)"
  shows "6 \<le> off" and "off \<le> 8" and "off \<le> len"
  using assms by (auto simp: l2tvpp_parse_hdr_def Let_def bind_eq_Some_conv split: if_splits)

text \<open>The result depends on the first \<open>off\<close> bytes only, so bytes behind the header never
  change it.\<close>

lemma parse_hdr_append:
  assumes "l2tvpp_parse_hdr cur (length cur) = Some (L2TVPP_HDR_DATA f tid sid off)"
  shows "l2tvpp_parse_hdr (cur @ xs) (length (cur @ xs)) = Some (L2TVPP_HDR_DATA f tid sid off)"
  using parse_hdr_data_iff [THEN iffD1, OF order_refl assms]
  by (subst parse_hdr_data_iff) (auto simp: rd16_append_left split: if_splits)

section \<open>Lemmas on the reference encoder\<close>

lemma rfc_flags_bits [simp]:
  "rfc_flags h AND L2TVPP_HDR_VER = 2"
  "rfc_flags h AND L2TVPP_HDR_T = 0"
  "rfc_flags h AND L2TVPP_HDR_L \<noteq> 0 \<longleftrightarrow> rh_length h \<noteq> None"
  "rfc_flags h AND L2TVPP_HDR_S \<noteq> 0 \<longleftrightarrow> rh_seq h \<noteq> None"
  "rfc_flags h AND L2TVPP_HDR_O \<noteq> 0 \<longleftrightarrow> rh_offset h \<noteq> None"
  by (simp_all add: rfc_flags_def hdr_consts)

lemma length_rfc_fixed: "length (rfc_fixed h) = (if rh_length h = None then 6 else 8)"
  by (simp add: rfc_fixed_def split: option.split)

lemma parse_rfc_fixed:
  "l2tvpp_parse_hdr (rfc_fixed h @ xs) (length (rfc_fixed h @ xs)) =
     Some (L2TVPP_HDR_DATA (rfc_flags h) (rh_tid h) (rh_sid h) (length (rfc_fixed h)))"
  by (subst parse_hdr_data_iff)
    (auto simp: rfc_fixed_def put16_def rd16_def rd8_def split: option.splits)

section \<open>Lemmas on the worker hash\<close>

lemma xor_shift_involutive: "(h XOR drop_bit 16 h) XOR drop_bit 16 (h XOR drop_bit 16 h) = (h :: u32)"
  by (rule bit_word_eqI) (auto simp: bit_simps)

lemma xor_shift_inj:
  assumes "x XOR drop_bit 16 x = y XOR drop_bit 16 (y :: u32)"
  shows "x = y"
  using xor_shift_involutive [of x] unfolding assms xor_shift_involutive by (rule sym)

lemma hash_multiplier_inverse: "(0x9E3779B1 * 0x0E8B2F51 :: u32) = 1"
  by simp

lemma mult_odd_inverse: "(x * 0x9E3779B1) * 0x0E8B2F51 = (x :: u32)"
  by (simp only: mult.assoc hash_multiplier_inverse mult_1_right)

lemma mult_odd_inj:
  assumes "x * 0x9E3779B1 = y * (0x9E3779B1 :: u32)"
  shows "x = y"
proof -
  have "x = (x * 0x9E3779B1) * 0x0E8B2F51" by (simp only: mult_odd_inverse)
  also have "\<dots> = (y * 0x9E3779B1) * 0x0E8B2F51" by (simp only: assms)
  finally show ?thesis by (simp only: mult_odd_inverse)
qed

lemma concat_ids_inj:
  fixes t s t' s' :: u16
  assumes eq: "push_bit 16 (ucast t) OR ucast s = (push_bit 16 (ucast t') OR ucast s' :: 'a::len word)"
    and len: "32 \<le> LENGTH('a)"
  shows "t = t' \<and> s = s'"
proof -
  have bits: "bit (push_bit 16 (ucast t) OR ucast s :: 'a word) n =
      bit (push_bit 16 (ucast t') OR ucast s' :: 'a word) n" for n
    by (simp add: eq)
  have "bit t n = bit t' n" if "n < 16" for n
    using bits [of "n + 16"] that len by (auto simp: bit_simps dest: bit_imp_le_length)
  moreover have "bit s n = bit s' n" if "n < 16" for n
    using bits [of n] that len by (auto simp: bit_simps)
  ultimately show ?thesis
    by (auto intro!: bit_word_eqI)
qed

lemma session_hash_inj:
  assumes "session_hash t s = session_hash t' s'"
  shows "t = t' \<and> s = s'"
proof -
  let ?m = "\<lambda>t s :: u16. (push_bit 16 (ucast t) OR ucast s) * 0x9E3779B1 :: u32"
  have "?m t s XOR drop_bit 16 (?m t s) = ?m t' s' XOR drop_bit 16 (?m t' s')"
    using assms by (simp add: session_hash_def Let_def)
  then have "?m t s = ?m t' s'"
    by (rule xor_shift_inj)
  then have "push_bit 16 (ucast t) OR ucast s = (push_bit 16 (ucast t') OR ucast s' :: u32)"
    by (rule mult_odd_inj)
  then show ?thesis
    by (rule concat_ids_inj) simp
qed

lemma handoff_worker_Some_iff: "l2tvpp_handoff_worker tid sid n = None \<longleftrightarrow> n = 0"
  by (simp add: l2tvpp_handoff_worker_def)

lemma handoff_worker_value:
  assumes "0 < n" and "n < 65536" and "l2tvpp_handoff_worker tid sid n = Some w"
  shows "unat w = 1 + unat (session_hash tid sid) mod unat n"
proof -
  have n: "0 < unat n" "unat n < 65536"
    using assms(1,2) by (simp_all add: word_less_nat_alt)
  then have "unat (session_hash tid sid) mod unat n < 65535"
    using mod_less_divisor [OF n(1), of "unat (session_hash tid sid)"] by linarith
  with assms(3) n show ?thesis
    by (auto simp: l2tvpp_handoff_worker_def unat_mod unat_word_ariths unsigned_ucast_eq
        take_bit_nat_eq_self split: if_splits)
qed

section \<open>Properties\<close>

text \<open>The header parser is memory safe on every input: told a length it owns, it
  returns, its answer depends on no byte behind that length, and a data answer leaves the cursor
  behind the session id, inside the packet.\<close>

theorem parse_hdr_memory_safe:
  assumes "len \<le> length cur"
  shows "\<exists>rc. l2tvpp_parse_hdr cur len = Some rc \<and> l2tvpp_parse_hdr (take len cur) len = Some rc
    \<and> (case rc of L2TVPP_HDR_DATA f tid sid off \<Rightarrow> off \<in> {6, 8} \<and> off \<le> len | _ \<Rightarrow> True)"
proof -
  obtain rc where rc: "l2tvpp_parse_hdr cur len = Some rc"
    using parse_hdr_no_fault [OF assms] by auto
  moreover have "l2tvpp_parse_hdr (take len cur) len = l2tvpp_parse_hdr cur len"
    using assms by (auto simp: l2tvpp_parse_hdr_def Let_def rd_simps)
  moreover have "case rc of L2TVPP_HDR_DATA f tid sid off \<Rightarrow> off \<in> {6, 8} \<and> off \<le> len | _ \<Rightarrow> True"
    using rc parse_hdr_data_iff [OF assms] by (auto split: l2tvpp_hdr_rc.split if_splits)
  ultimately show ?thesis by simp
qed

theorem parse_hdr_memory_safe_witness:
  "\<exists>rc. l2tvpp_parse_hdr [0x00, 0x02, 0, 100, 3, 0xe8, 0xff] 6 = Some rc
    \<and> l2tvpp_parse_hdr (take 6 [0x00, 0x02, 0, 100, 3, 0xe8, 0xff]) 6 = Some rc"
  using parse_hdr_memory_safe [of 6 "[0x00, 0x02, 0, 100, 3, 0xe8, 0xff]"] by auto

text \<open>The parser reads back what RFC 2661 says a sender writes: for every data
  header, with or without length, priority, Ns/Nr and offset fields, and whatever follows it, the
  flags, tunnel id and session id are those encoded and the cursor stands behind the session id.\<close>

theorem parse_hdr_rfc_roundtrip:
  "l2tvpp_parse_hdr (rfc_encode h @ payload) (length (rfc_encode h @ payload)) =
     Some (L2TVPP_HDR_DATA (rfc_flags h) (rh_tid h) (rh_sid h) (if rh_length h = None then 6 else 8))"
  using parse_rfc_fixed [of h "rfc_optional h @ payload"]
  by (simp add: rfc_encode_def length_rfc_fixed)

text \<open>The worker a session is handed to exists: with n workers, 0 < n < 65536, the
  16-bit thread index is between 1 and n (thread 0 is the main thread) and is the session's hash
  reduced modulo n; the hash itself never merges two sessions.\<close>

theorem handoff_worker_in_range:
  assumes "0 < n" and "n < 65536"
  shows "\<exists>w. l2tvpp_handoff_worker tid sid n = Some w \<and> 1 \<le> unat w \<and> unat w \<le> unat n
    \<and> unat w = 1 + unat (session_hash tid sid) mod unat n
    \<and> (\<forall>tid' sid'. session_hash tid' sid' = session_hash tid sid \<longleftrightarrow> tid' = tid \<and> sid' = sid)"
proof -
  obtain w where w: "l2tvpp_handoff_worker tid sid n = Some w"
    using assms handoff_worker_Some_iff [of tid sid n] by auto
  have "unat w = 1 + unat (session_hash tid sid) mod unat n"
    by (rule handoff_worker_value [OF assms w])
  moreover have "unat (session_hash tid sid) mod unat n < unat n"
    using assms(1) by (simp add: word_less_nat_alt)
  ultimately show ?thesis
    using w session_hash_inj by (auto simp: less_eq_Suc_le)
qed

theorem handoff_worker_in_range_witness:
  "\<exists>w. l2tvpp_handoff_worker 100 1000 4 = Some w \<and> 1 \<le> unat w \<and> unat w \<le> 4"
  using handoff_worker_in_range [of 4 100 1000] by auto

end
