(* ===== verification/Vpp_Model.thy ===== *)
theory Vpp_Model
  imports L2tvpp_Prelude
begin

text \<open>
  What the plugin uses of the VPP framework it is compiled against.  VPP is not part of the
  repository, so the parts whose behaviour matters are parameters with named laws, and the parts
  that are only containers are the obvious HOL data:
  \<^item> a \<^emph>\<open>pool\<close> is a vector of slots, a free slot being \<open>None\<close>; which free slot
    \<open>pool_get\<close> hands out is an argument of the operations that allocate;
  \<^item> \<open>clib_bihash_8_8\<close> is an abstract table \<open>'h\<close> with its operations in a record and the
    laws \<open>bihash_ok\<close>;
  \<^item> a \<open>vlib_buffer_t\<close> is a record of the fields the nodes read or write, with the storage of
    its first segment;
  \<^item> calls whose only effect is on VPP's own state are listed, in order, as \<open>vpp_call\<close> values.
  The interface of a pool is the locale \<open>slot_pool\<close>, interpreted on the slot vectors.
\<close>

section \<open>Pools\<close>

type_synonym 'a pool = "'a option list"

definition pool_elt :: "'a pool \<Rightarrow> u32 \<Rightarrow> 'a option" where
  "pool_elt p i = (if unat i < length p then p ! unat i else None)"

definition pool_is_free_index :: "'a pool \<Rightarrow> u32 \<Rightarrow> bool" where
  "pool_is_free_index p i \<longleftrightarrow> pool_elt p i = None"

definition pool_set :: "'a pool \<Rightarrow> u32 \<Rightarrow> 'a \<Rightarrow> 'a pool" where
  "pool_set p i x =
     (if unat i < length p then p[unat i := Some x]
      else p @ replicate (unat i - length p) None @ [Some x])"

definition pool_put :: "'a pool \<Rightarrow> u32 \<Rightarrow> 'a pool" where
  "pool_put p i = p[unat i := None]"

text \<open>\<open>pool_foreach\<close> visits the live slots in ascending order of their index.\<close>

definition pool_indices :: "'a pool \<Rightarrow> u32 list" where
  "pool_indices p = filter (\<lambda>i. pool_elt p i \<noteq> None) (map of_nat [0..<length p])"

definition pool_elts :: "'a pool \<Rightarrow> nat" where
  "pool_elts p = length (pool_indices p)"

locale slot_pool =
  fixes elt :: "'p \<Rightarrow> u32 \<Rightarrow> 'a option"
    and upd :: "'p \<Rightarrow> u32 \<Rightarrow> 'a \<Rightarrow> 'p"
    and del :: "'p \<Rightarrow> u32 \<Rightarrow> 'p"
  assumes elt_upd: "elt (upd p i x) j = (if j = i then Some x else elt p j)"
    and elt_del: "elt (del p i) j = (if j = i then None else elt p j)"
begin

text \<open>How many live elements satisfy a predicate, and how the count moves.\<close>

definition tally :: "'p \<Rightarrow> ('a \<Rightarrow> bool) \<Rightarrow> nat" where
  "tally p P = card {i. \<exists>x. elt p i = Some x \<and> P x}"

lemma tally_upd_fresh:
  assumes "elt p i = None"
  shows "tally (upd p i x) P = tally p P + (if P x then 1 else 0)"
proof (cases "P x")
  case True
  have "{j. \<exists>y. elt (upd p i x) j = Some y \<and> P y} = insert i {j. \<exists>y. elt p j = Some y \<and> P y}"
    using True by (auto simp: elt_upd)
  moreover have "i \<notin> {j. \<exists>y. elt p j = Some y \<and> P y}"
    using assms by simp
  ultimately show ?thesis
    using True by (simp add: tally_def)
next
  case False
  have "{j. \<exists>y. elt (upd p i x) j = Some y \<and> P y} = {j. \<exists>y. elt p j = Some y \<and> P y}"
    using False assms by (auto simp: elt_upd)
  then show ?thesis
    using False by (simp add: tally_def)
qed

lemma tally_del:
  assumes "elt p i = Some x"
  shows "tally (del p i) P + (if P x then 1 else 0) = tally p P"
proof -
  have eq: "{j. \<exists>y. elt (del p i) j = Some y \<and> P y} = {j. \<exists>y. elt p j = Some y \<and> P y} - {i}"
    by (auto simp: elt_del)
  show ?thesis
  proof (cases "P x")
    case True
    then have "i \<in> {j. \<exists>y. elt p j = Some y \<and> P y}" using assms by simp
    then show ?thesis
      using True card_Suc_Diff1 [of "{j. \<exists>y. elt p j = Some y \<and> P y}" i]
      by (simp add: tally_def eq)
  next
    case False
    then have "i \<notin> {j. \<exists>y. elt p j = Some y \<and> P y}" using assms by simp
    then show ?thesis
      using False by (simp add: tally_def eq)
  qed
qed

lemma tally_upd_same:
  assumes "elt p i = Some x" and "P x = P y"
  shows "tally (upd p i y) P = tally p P"
proof -
  have "{j. \<exists>z. elt (upd p i y) j = Some z \<and> P z} = {j. \<exists>z. elt p j = Some z \<and> P z}"
    using assms by (auto simp: elt_upd)
  then show ?thesis by (simp add: tally_def)
qed

lemma tally_zero_iff: "tally p P = 0 \<longleftrightarrow> (\<forall>i x. elt p i = Some x \<longrightarrow> \<not> P x)"
  by (auto simp: tally_def)

end

lemma pool_elt_set: "pool_elt (pool_set p i x) j = (if j = i then Some x else pool_elt p j)"
proof (cases "unat i < length p")
  case True
  then show ?thesis
    by (auto simp: pool_elt_def pool_set_def nth_list_update dest: word_unat_eq_iff [THEN iffD2])
next
  case False
  then show ?thesis
    by (auto simp: pool_elt_def pool_set_def nth_append nth_Cons' word_unat_eq_iff)
qed

lemma pool_elt_put: "pool_elt (pool_put p i) j = (if j = i then None else pool_elt p j)"
  by (auto simp: pool_elt_def pool_put_def nth_list_update dest: word_unat_eq_iff [THEN iffD2])

interpretation vpool: slot_pool pool_elt pool_set pool_put
  by unfold_locales (simp_all add: pool_elt_set pool_elt_put)

lemma set_pool_indices: "i \<in> set (pool_indices p) \<longleftrightarrow> pool_elt p i \<noteq> None"
proof
  assume live: "pool_elt p i \<noteq> None"
  then have "unat i < length p" by (auto simp: pool_elt_def split: if_splits)
  then have "i \<in> set (map of_nat [0..<length p])"
    by (auto intro!: image_eqI [of _ _ "unat i"])
  with live show "i \<in> set (pool_indices p)" by (simp add: pool_indices_def)
qed (simp add: pool_indices_def)

section \<open>Bounded-index hash tables\<close>

text \<open>
  \<open>clib_bihash_search\<close> returns 0 and the value when the key is present;
  \<open>clib_bihash_add_del\<close> with \<open>is_add = 1\<close> stores the pair, replacing the value of a key
  already present, and returns 0; with \<open>is_add = 0\<close> it returns 0 and removes the key when it
  is present and a negative code otherwise.  \<open>bihash_ok\<close> is exactly that contract.
\<close>

record 'h bihash_8_8 =
  bh_init :: 'h
  bh_search :: "'h \<Rightarrow> u64 \<Rightarrow> u64 option"
  bh_add :: "'h \<Rightarrow> u64 \<Rightarrow> u64 \<Rightarrow> 'h \<times> int"
  bh_del :: "'h \<Rightarrow> u64 \<Rightarrow> 'h \<times> int"

definition bihash_ok :: "'h bihash_8_8 \<Rightarrow> bool" where
  "bihash_ok bh \<longleftrightarrow>
     (\<forall>k. bh_search bh (bh_init bh) k = None)
     \<and> (\<forall>h k v k'. bh_search bh (fst (bh_add bh h k v)) k' =
          (if k' = k then Some v else bh_search bh h k'))
     \<and> (\<forall>h k v. snd (bh_add bh h k v) = 0)
     \<and> (\<forall>h k k'. bh_search bh (fst (bh_del bh h k)) k' =
          (if k' = k then None else bh_search bh h k'))
     \<and> (\<forall>h k. snd (bh_del bh h k) = 0 \<longleftrightarrow> bh_search bh h k \<noteq> None)"

lemma bihash_okD:
  assumes "bihash_ok bh"
  shows "bh_search bh (bh_init bh) k = None"
    and "bh_search bh (fst (bh_add bh h k v)) k' = (if k' = k then Some v else bh_search bh h k')"
    and "snd (bh_add bh h k v) = 0"
    and "bh_search bh (fst (bh_del bh h k)) k' = (if k' = k then None else bh_search bh h k')"
    and "snd (bh_del bh h k) = 0 \<longleftrightarrow> bh_search bh h k \<noteq> None"
  using assms unfolding bihash_ok_def by blast+

text \<open>A table that meets the contract, for the witnesses.\<close>

definition alist_bihash :: "(u64 \<times> u64) list bihash_8_8" where
  "alist_bihash =
     \<lparr>bh_init = [],
      bh_search = map_of,
      bh_add = (\<lambda>h k v. ((k, v) # h, 0)),
      bh_del = (\<lambda>h k. (filter (\<lambda>kv. fst kv \<noteq> k) h, if map_of h k = None then - 1 else 0))\<rparr>"

lemma map_of_filter_key: "map_of (filter (\<lambda>kv. fst kv \<noteq> k) h) k' = (if k' = k then None else map_of h k')"
  by (induction h) auto

lemma alist_bihash_ok: "bihash_ok alist_bihash"
  by (simp add: bihash_ok_def alist_bihash_def map_of_filter_key)

section \<open>Packet buffers\<close>

datatype buffer_flag =
    VLIB_BUFFER_IS_TRACED
  | VNET_BUFFER_F_L2_HDR_OFFSET_VALID
  | VNET_BUFFER_F_L3_HDR_OFFSET_VALID
  | VNET_BUFFER_F_L4_HDR_OFFSET_VALID
  | VNET_BUFFER_F_LOCALLY_ORIGINATED

text \<open>
  Offsets count from the start of the first segment's storage (headroom included), so
  \<open>current_data\<close> and the recorded header offsets are plain positions in \<open>b_mem\<close>;
  \<open>b_rest_length\<close> is the number of bytes in the further segments of a chained buffer.
\<close>

record vlib_buffer =
  b_mem :: bytes
  b_current_data :: nat
  b_current_length :: nat
  b_rest_length :: nat
  b_l2_hdr_offset :: nat
  b_l3_hdr_offset :: nat
  b_l4_hdr_offset :: nat
  b_flags :: "buffer_flag set"
  b_rx :: u32
  b_tx :: u32
  b_adj_tx :: u32
  b_error :: "nat option"

definition wf_buffer :: "vlib_buffer \<Rightarrow> bool" where
  "wf_buffer b \<longleftrightarrow> b_current_data b + b_current_length b \<le> length (b_mem b)"

text \<open>The bytes a node may read: from the current position, \<open>current_length\<close> of them.\<close>

definition cur_bytes :: "vlib_buffer \<Rightarrow> bytes" where
  "cur_bytes b = take (b_current_length b) (drop (b_current_data b) (b_mem b))"

definition vlib_buffer_advance :: "vlib_buffer \<Rightarrow> int \<Rightarrow> vlib_buffer" where
  "vlib_buffer_advance b l =
     b\<lparr>b_current_data := nat (int (b_current_data b) + l),
       b_current_length := nat (int (b_current_length b) - l)\<rparr>"

definition vlib_buffer_length_in_chain :: "vlib_buffer \<Rightarrow> nat" where
  "vlib_buffer_length_in_chain b = b_current_length b + b_rest_length b"

lemma length_cur_bytes [simp]: "wf_buffer b \<Longrightarrow> length (cur_bytes b) = b_current_length b"
  by (simp add: wf_buffer_def cur_bytes_def)

lemma cur_bytes_advance [buf_simps]:
  assumes "wf_buffer b" and "n \<le> b_current_length b"
  shows "cur_bytes (vlib_buffer_advance b (int n)) = drop n (cur_bytes b)"
    and "wf_buffer (vlib_buffer_advance b (int n))"
  using assms
  by (simp_all add: cur_bytes_def vlib_buffer_advance_def wf_buffer_def nat_int_add nat_diff_distrib
      drop_take add.commute)

lemma cur_bytes_updates [simp]:
  "cur_bytes (b_rx_update f b) = cur_bytes b" "cur_bytes (b_tx_update f b) = cur_bytes b"
  "cur_bytes (b_adj_tx_update f b) = cur_bytes b" "cur_bytes (b_flags_update g b) = cur_bytes b"
  "cur_bytes (b_error_update e b) = cur_bytes b"
  by (simp_all add: cur_bytes_def)

text \<open>A store through \<open>vlib_buffer_get_current (b) + off\<close>; \<open>None\<close> outside the segment.\<close>

definition buf_write :: "vlib_buffer \<Rightarrow> nat \<Rightarrow> bytes \<Rightarrow> vlib_buffer option" where
  "buf_write b off bs =
     (if off + length bs \<le> b_current_length b
      then Some (b\<lparr>b_mem := take (b_current_data b + off) (b_mem b) @ bs
                   @ drop (b_current_data b + off + length bs) (b_mem b)\<rparr>)
      else None)"

lemma buf_write_Some [buf_simps]:
  assumes "wf_buffer b" and "off + length bs \<le> length (cur_bytes b)"
  obtains b' where "buf_write b off bs = Some b'" and "wf_buffer b'"
    and "cur_bytes b' = take off (cur_bytes b) @ bs @ drop (off + length bs) (cur_bytes b)"
    and "b_flags b' = b_flags b" and "b_rest_length b' = b_rest_length b"
    and "b_current_length b' = b_current_length b" and "b_current_data b' = b_current_data b"
    and "b_rx b' = b_rx b" and "b_tx b' = b_tx b" and "b_adj_tx b' = b_adj_tx b"
proof -
  define b' where "b' = b\<lparr>b_mem := take (b_current_data b + off) (b_mem b) @ bs
    @ drop (b_current_data b + off + length bs) (b_mem b)\<rparr>"
  have room: "b_current_data b + b_current_length b \<le> length (b_mem b)" "off + length bs \<le> b_current_length b"
    using assms by (simp_all add: wf_buffer_def)
  have "buf_write b off bs = Some b'" using room by (simp add: buf_write_def b'_def)
  moreover have "wf_buffer b'" using room by (simp add: wf_buffer_def b'_def)
  moreover have "cur_bytes b' = take off (cur_bytes b) @ bs @ drop (off + length bs) (cur_bytes b)"
  proof -
    define P C R where "P = take (b_current_data b) (b_mem b)" and "C = cur_bytes b"
      and "R = drop (b_current_data b + b_current_length b) (b_mem b)"
    have mem: "b_mem b = P @ C @ R"
      by (simp add: P_def C_def R_def cur_bytes_def) (metis add.commute append_take_drop_id drop_drop)
    have len: "length P = b_current_data b" "length C = b_current_length b"
      using room assms(1) by (simp_all add: P_def C_def)
    have "b_mem b' = P @ (take off C @ bs @ drop (off + length bs) C) @ R"
    proof -
      have "take (length P + off) (P @ C @ R) = P @ take off C" using room len by simp
      moreover have "drop (length P + off + length bs) (P @ C @ R) = drop (off + length bs) C @ R"
        using room len by simp
      ultimately show ?thesis unfolding b'_def by (simp add: mem len(1) [symmetric])
    qed
    moreover have "length (take off C @ bs @ drop (off + length bs) C) = b_current_length b"
      using room len by simp
    moreover have "b_current_data b' = length P" "b_current_length b' = b_current_length b"
      by (simp_all add: b'_def len)
    ultimately show ?thesis unfolding cur_bytes_def C_def [symmetric, unfolded cur_bytes_def]
      by (metis append_eq_conv_conj)
  qed
  moreover have "b_flags b' = b_flags b" "b_rest_length b' = b_rest_length b"
    "b_current_length b' = b_current_length b" "b_current_data b' = b_current_data b"
    "b_rx b' = b_rx b" "b_tx b' = b_tx b" "b_adj_tx b' = b_adj_tx b"
    by (simp_all add: b'_def)
  ultimately show thesis by (rule that)
qed

section \<open>Calls into VPP\<close>

datatype fib_protocol = FIB_PROTOCOL_IP4 | FIB_PROTOCOL_IP6

record fib_prefix =
  fp_proto :: fib_protocol
  fp_addr :: u32 \<comment> \<open>\<open>fp_addr.ip4.as_u32\<close>\<close>
  fp_addr6 :: "96 word" \<comment> \<open>the rest of an IPv6 address\<close>
  fp_len :: nat

datatype vpp_call =
    Vnet_register_interface u32
  | Vnet_hw_interface_link_up u32
  | Vnet_hw_interface_link_down u32
  | Vnet_set_interface_l3_output_node u32
  | Vnet_reset_interface_l3_output_node u32
  | Vnet_sw_interface_set_admin u32 bool
  | Ip4_sw_interface_enable_disable u32 bool
  | Ip6_sw_interface_enable_disable u32 bool
  | Adj_nbr_walk_remove_delegates u32 fib_protocol
  | Vnet_delete_hw_interface u32
  | Adj_nbr_add_or_lock u32 u32 u32 \<comment> \<open>next hop, interface, the adjacency locked\<close>
  | Adj_unlock u32
  | Fib_table_entry_path_add2 u32 fib_prefix u32 \<comment> \<open>FIB, prefix, interface of the path\<close>
  | Fib_table_entry_path_remove2 u32 fib_prefix u32
  | Vlib_worker_thread_barrier_sync
  | Vlib_worker_thread_barrier_release
  | Udp_register_dst_port_handoff
  | Udp_register_dst_port_input
  | Vlib_frame_queue_main_init string u32 u32 \<comment> \<open>node the queue leads to, depth, index returned\<close>
  | Vnet_feature_enable_disable string u32 bool
  | Adj_nbr_midchain_update_rewrite u32 u32 bytes \<comment> \<open>adjacency, fixup data (session slot), rewrite\<close>
  | Adj_midchain_delegate_stack u32 u32 u32 \<comment> \<open>adjacency, FIB, address of the /32\<close>
  | Adj_midchain_delegate_remove u32

end
