(* ===== verification/L2tvpp_Objects.thy ===== *)
theory L2tvpp_Objects
  imports L2tp_Header Vpp_Model
begin

text \<open>
  \<^verbatim>\<open>src/plugin/l2tvpp/l2tvpp.h\<close> (the object model) and the control-plane half of
  \<^verbatim>\<open>src/plugin/l2tvpp/l2tvpp.c\<close>: tunnels, sessions, subscriber routes with the encap
  adjacency cache, the session handoff switch, start-up configuration and initialisation.

  Each operation takes the plugin state \<open>l2tvpp_main\<close> and returns it updated, with the API return
  code and the calls made into VPP in order.  What VPP hands back (the pool slot, interface and
  adjacency indices) is an argument.  \<open>None\<close> is an access through an index that is not live.
\<close>

section \<open>Data\<close>

text \<open>\<open>ip46_address_t\<close>: an IPv4 address is stored behind 96 zero bits.\<close>

record ip46_address =
  ip46_pad :: "96 word"
  ip46_ip4 :: u32

definition ip46_address_is_ip4 :: "ip46_address \<Rightarrow> bool" where
  "ip46_address_is_ip4 a \<longleftrightarrow> ip46_pad a = 0"

record l2tvpp_tunnel =
  t_local_ip :: ip46_address
  t_peer_ip :: ip46_address
  t_local_port :: u16
  t_peer_port :: u16
  t_local_tid :: u16
  t_peer_tid :: u16
  t_n_sessions :: u32
  t_encap_fib_index :: u32

record l2tvpp_session =
  s_tunnel_index :: u32
  s_local_tid :: u16
  s_local_sid :: u16
  s_peer_sid :: u16
  s_acfc :: u8
  s_pfc :: u8
  s_sw_if_index :: u32
  s_hw_if_index :: u32
  s_encap_ip_csum0 :: u16

record 'h l2tvpp_main =
  tunnels :: "l2tvpp_tunnel pool"
  sessions :: "l2tvpp_session pool"
  session_by_key :: 'h
  session_index_by_sw_if_index :: "u32 list"
  handoff_enabled :: bool
  handoff_frame_queue_index :: u32
  handoff_queue_nelts :: u32
  local_ip4s :: "u32 list"
  inner_ip4_no_checksum :: bool
  fib_src :: u32
  encap_adj_by_ip4 :: 'h
  encap_adj_count :: u32
  encap_adj_init :: bool

datatype api_rv =
    RV_OK
  | VNET_API_ERROR_UNIMPLEMENTED
  | VNET_API_ERROR_TUNNEL_EXIST
  | VNET_API_ERROR_NO_SUCH_ENTRY
  | VNET_API_ERROR_INSTANCE_IN_USE
  | VNET_API_ERROR_ENTRY_ALREADY_EXISTS
  | VNET_API_ERROR_INVALID_SW_IF_INDEX
  | VNET_API_ERROR_INVALID_WORKER

section \<open>Tunnels\<close>

definition tunnel_matches :: "ip46_address \<Rightarrow> u16 \<Rightarrow> u16 \<Rightarrow> l2tvpp_tunnel \<Rightarrow> bool" where
  "tunnel_matches peer_ip peer_port local_tid t \<longleftrightarrow>
     t_local_tid t = local_tid \<and> t_peer_port t = peer_port \<and> t_peer_ip t = peer_ip"

definition l2tvpp_tunnel_find :: "'h l2tvpp_main \<Rightarrow> ip46_address \<Rightarrow> u16 \<Rightarrow> u16 \<Rightarrow> u32 option" where
  "l2tvpp_tunnel_find lm peer_ip peer_port local_tid =
     find (\<lambda>i. case pool_elt (tunnels lm) i of None \<Rightarrow> False
             | Some t \<Rightarrow> tunnel_matches peer_ip peer_port local_tid t)
       (pool_indices (tunnels lm))"

text \<open>\<open>slot\<close> is the free pool slot \<open>pool_get_zero\<close> hands out; the last component is
  \<open>*tunnel_indexp\<close> where the code writes it.\<close>

definition l2tvpp_tunnel_add_del ::
  "u32 \<Rightarrow> 'h l2tvpp_main \<Rightarrow> ip46_address \<Rightarrow> ip46_address \<Rightarrow> u16 \<Rightarrow> u16 \<Rightarrow> u16 \<Rightarrow> u16 \<Rightarrow> bool
     \<Rightarrow> api_rv \<times> 'h l2tvpp_main \<times> u32 option" where
  "l2tvpp_tunnel_add_del slot lm local_ip peer_ip local_port peer_port local_tid peer_tid is_add =
     (if \<not> ip46_address_is_ip4 local_ip \<or> \<not> ip46_address_is_ip4 peer_ip
      then (VNET_API_ERROR_UNIMPLEMENTED, lm, None)
      else let found = l2tvpp_tunnel_find lm peer_ip peer_port local_tid in
      if is_add then
        (case found of
           Some _ \<Rightarrow> (VNET_API_ERROR_TUNNEL_EXIST, lm, None)
         | None \<Rightarrow>
             let t = \<lparr>t_local_ip = local_ip, t_peer_ip = peer_ip, t_local_port = local_port,
                      t_peer_port = peer_port, t_local_tid = local_tid, t_peer_tid = peer_tid,
                      t_n_sessions = 0, t_encap_fib_index = 0\<rparr>;
                 ip4 = ip46_ip4 local_ip;
                 ip4s = (if ip4 \<in> set (local_ip4s lm) then local_ip4s lm else local_ip4s lm @ [ip4])
             in (RV_OK, lm\<lparr>tunnels := pool_set (tunnels lm) slot t, local_ip4s := ip4s\<rparr>, Some slot))
      else
        (case found of
           None \<Rightarrow> (VNET_API_ERROR_NO_SUCH_ENTRY, lm, None)
         | Some i \<Rightarrow>
             (case pool_elt (tunnels lm) i of
                None \<Rightarrow> (VNET_API_ERROR_NO_SUCH_ENTRY, lm, None)
              | Some t \<Rightarrow>
                  if t_n_sessions t \<noteq> 0 then (VNET_API_ERROR_INSTANCE_IN_USE, lm, None)
                  else (RV_OK, lm\<lparr>tunnels := pool_put (tunnels lm) i\<rparr>, None))))"

section \<open>Sessions\<close>

text \<open>\<open>vec_validate_init_empty (v, i, ~0); v[i] = x\<close>\<close>

definition vec_store :: "u32 list \<Rightarrow> u32 \<Rightarrow> u32 \<Rightarrow> u32 list" where
  "vec_store v i x = (v @ replicate (Suc (unat i) - length v) (- 1))[unat i := x]"

definition l2tvpp_session_add ::
  "'h bihash_8_8 \<Rightarrow> u32 \<Rightarrow> u32 \<Rightarrow> u32 \<Rightarrow> 'h l2tvpp_main \<Rightarrow> u32 \<Rightarrow> l2tvpp_tunnel \<Rightarrow> u16 \<Rightarrow> u16 \<Rightarrow> u8 \<Rightarrow> u8
     \<Rightarrow> 'h l2tvpp_main \<times> vpp_call list" where
  "l2tvpp_session_add bh slot hw sw lm tunnel_index t local_sid peer_sid acfc pfc =
     (let sess = \<lparr>s_tunnel_index = tunnel_index, s_local_tid = t_local_tid t, s_local_sid = local_sid,
                  s_peer_sid = peer_sid, s_acfc = acfc, s_pfc = pfc, s_sw_if_index = sw,
                  s_hw_if_index = hw, s_encap_ip_csum0 = 0\<rparr>;
          key = l2tvpp_session_key (t_local_tid t) local_sid
      in (lm\<lparr>sessions := pool_set (sessions lm) slot sess,
             session_index_by_sw_if_index := vec_store (session_index_by_sw_if_index lm) sw slot,
             session_by_key := fst (bh_add bh (session_by_key lm) key (ucast slot)),
             tunnels := pool_set (tunnels lm) tunnel_index (t\<lparr>t_n_sessions := t_n_sessions t + 1\<rparr>)\<rparr>,
          [Vnet_register_interface slot, Vnet_hw_interface_link_up hw,
           Vnet_set_interface_l3_output_node sw, Vnet_sw_interface_set_admin sw True,
           Ip4_sw_interface_enable_disable sw True, Ip6_sw_interface_enable_disable sw True]))"

definition l2tvpp_session_del ::
  "'h bihash_8_8 \<Rightarrow> 'h l2tvpp_main \<Rightarrow> u32 \<Rightarrow> l2tvpp_tunnel \<Rightarrow> u64 \<Rightarrow> u32 \<Rightarrow> l2tvpp_session
     \<Rightarrow> ('h l2tvpp_main \<times> vpp_call list) option" where
  "l2tvpp_session_del bh lm tunnel_index t key si sess =
     (let sw = s_sw_if_index sess in
      if length (session_index_by_sw_if_index lm) \<le> unat sw then None
      else Some
       (lm\<lparr>session_by_key := fst (bh_del bh (session_by_key lm) key),
           session_index_by_sw_if_index := (session_index_by_sw_if_index lm)[unat sw := - 1],
           tunnels := pool_set (tunnels lm) tunnel_index (t\<lparr>t_n_sessions := t_n_sessions t - 1\<rparr>),
           sessions := pool_put (sessions lm) si\<rparr>,
        [Ip4_sw_interface_enable_disable sw False, Ip6_sw_interface_enable_disable sw False,
         Vnet_sw_interface_set_admin sw False,
         Adj_nbr_walk_remove_delegates sw FIB_PROTOCOL_IP4,
         Adj_nbr_walk_remove_delegates sw FIB_PROTOCOL_IP6,
         Vnet_reset_interface_l3_output_node sw, Vnet_delete_hw_interface (s_hw_if_index sess)]))"

text \<open>\<open>slot\<close>, \<open>hw\<close> and \<open>sw\<close> are what \<open>pool_get_zero\<close>, \<open>vnet_register_interface\<close> and
  \<open>vnet_get_hw_interface\<close> hand out; the third component is \<open>*sw_if_indexp\<close>.\<close>

definition l2tvpp_session_add_del ::
  "'h bihash_8_8 \<Rightarrow> u32 \<Rightarrow> u32 \<Rightarrow> u32 \<Rightarrow> 'h l2tvpp_main \<Rightarrow> u32 \<Rightarrow> u16 \<Rightarrow> u16 \<Rightarrow> u8 \<Rightarrow> u8 \<Rightarrow> bool
     \<Rightarrow> (api_rv \<times> 'h l2tvpp_main \<times> u32 option \<times> vpp_call list) option" where
  "l2tvpp_session_add_del bh slot hw sw lm tunnel_index local_sid peer_sid acfc pfc is_add =
     (case pool_elt (tunnels lm) tunnel_index of
        None \<Rightarrow> Some (VNET_API_ERROR_NO_SUCH_ENTRY, lm, None, [])
      | Some t \<Rightarrow>
          let key = l2tvpp_session_key (t_local_tid t) local_sid in
          if is_add then
            (case bh_search bh (session_by_key lm) key of
               Some _ \<Rightarrow> Some (VNET_API_ERROR_ENTRY_ALREADY_EXISTS, lm, None, [])
             | None \<Rightarrow>
                 let (lm', calls) = l2tvpp_session_add bh slot hw sw lm tunnel_index t
                                      local_sid peer_sid acfc pfc
                 in Some (RV_OK, lm', Some sw, calls))
          else
            (case bh_search bh (session_by_key lm) key of
               None \<Rightarrow> Some (VNET_API_ERROR_NO_SUCH_ENTRY, lm, None, [])
             | Some v \<Rightarrow> do {
                 sess \<leftarrow> pool_elt (sessions lm) (ucast v);
                 (lm', calls) \<leftarrow> l2tvpp_session_del bh lm tunnel_index t key (ucast v) sess;
                 Some (RV_OK, lm', None, calls) }))"

section \<open>Subscriber routes and the encap adjacency cache\<close>

definition l2tvpp_encap_adj_init :: "'h bihash_8_8 \<Rightarrow> 'h l2tvpp_main \<Rightarrow> 'h l2tvpp_main" where
  "l2tvpp_encap_adj_init bh lm =
     (if encap_adj_init lm then lm
      else lm\<lparr>encap_adj_by_ip4 := bh_init bh, encap_adj_init := True\<rparr>)"

text \<open>\<open>ai\<close> is the adjacency \<open>adj_nbr_add_or_lock\<close> returns.\<close>

definition l2tvpp_encap_adj_add_del ::
  "'h bihash_8_8 \<Rightarrow> u32 \<Rightarrow> 'h l2tvpp_main \<Rightarrow> fib_prefix \<Rightarrow> u32 \<Rightarrow> bool \<Rightarrow> 'h l2tvpp_main \<times> vpp_call list" where
  "l2tvpp_encap_adj_add_del bh ai lm pfx sw_if_index is_add =
     (if fp_proto pfx \<noteq> FIB_PROTOCOL_IP4 \<or> fp_len pfx \<noteq> 32 then (lm, [])
      else
        let lm1 = l2tvpp_encap_adj_init bh lm; key = ucast (fp_addr pfx) in
        if is_add then
          let (h, rc) = bh_add bh (encap_adj_by_ip4 lm1) key (ucast ai) in
          (lm1\<lparr>encap_adj_by_ip4 := h,
               encap_adj_count := (if rc = 0 then encap_adj_count lm1 + 1 else encap_adj_count lm1)\<rparr>,
           [Adj_nbr_add_or_lock (fp_addr pfx) sw_if_index ai])
        else
          (case bh_search bh (encap_adj_by_ip4 lm1) key of
             None \<Rightarrow> (lm1, [])
           | Some v \<Rightarrow>
               (lm1\<lparr>encap_adj_by_ip4 := fst (bh_del bh (encap_adj_by_ip4 lm1) key),
                    encap_adj_count := (if encap_adj_count lm1 \<noteq> 0 then encap_adj_count lm1 - 1
                                        else encap_adj_count lm1)\<rparr>,
                [Adj_unlock (ucast v)])))"

text \<open>The session a session interface belongs to, \<open>None\<close> where the vector is too short or
  holds \<open>~0\<close>.\<close>

definition session_of_sw_if_index :: "'h l2tvpp_main \<Rightarrow> u32 \<Rightarrow> u32 option" where
  "session_of_sw_if_index lm sw =
     (if length (session_index_by_sw_if_index lm) \<le> unat sw
         \<or> session_index_by_sw_if_index lm ! unat sw = - 1
      then None else Some (session_index_by_sw_if_index lm ! unat sw))"

text \<open>\<open>fib_index\<close> is the table \<open>fib_table_get_index_for_sw_if_index\<close> returns.\<close>

definition l2tvpp_route_add_del ::
  "'h bihash_8_8 \<Rightarrow> u32 \<Rightarrow> u32 \<Rightarrow> 'h l2tvpp_main \<Rightarrow> fib_prefix \<Rightarrow> u32 \<Rightarrow> bool
     \<Rightarrow> api_rv \<times> 'h l2tvpp_main \<times> vpp_call list" where
  "l2tvpp_route_add_del bh fib_index ai lm pfx sw_if_index is_add =
     (if session_of_sw_if_index lm sw_if_index = None
      then (VNET_API_ERROR_INVALID_SW_IF_INDEX, lm, [])
      else
        let fib_call = (if is_add then Fib_table_entry_path_add2 fib_index pfx sw_if_index
                        else Fib_table_entry_path_remove2 fib_index pfx sw_if_index);
            (lm', calls) = l2tvpp_encap_adj_add_del bh ai lm pfx sw_if_index is_add
        in (RV_OK, lm', fib_call # calls))"

section \<open>Worker handoff, initialisation, configuration\<close>

definition l2tvpp_set_handoff :: "'h l2tvpp_main \<Rightarrow> u8 \<Rightarrow> api_rv \<times> 'h l2tvpp_main \<times> vpp_call list" where
  "l2tvpp_set_handoff lm enable =
     (let e = (enable \<noteq> 0) in
      if e = handoff_enabled lm then (RV_OK, lm, [])
      else (RV_OK, lm\<lparr>handoff_enabled := e\<rparr>,
            [Vlib_worker_thread_barrier_sync,
             if e then Udp_register_dst_port_handoff else Udp_register_dst_port_input,
             Vlib_worker_thread_barrier_release]))"

definition L2TVPP_HANDOFF_QUEUE_NELTS_DEFAULT :: u32 where
  "L2TVPP_HANDOFF_QUEUE_NELTS_DEFAULT = 64"

text \<open>\<open>fsrc\<close> is the source \<open>fib_source_allocate\<close> returns; the zero fields are those of the
  zero-initialised global.\<close>

definition l2tvpp_init :: "'h bihash_8_8 \<Rightarrow> u32 \<Rightarrow> 'h \<Rightarrow> 'h l2tvpp_main \<times> vpp_call list" where
  "l2tvpp_init bh fsrc unset =
     (\<lparr>tunnels = [], sessions = [], session_by_key = bh_init bh,
       session_index_by_sw_if_index = [], handoff_enabled = False,
       handoff_frame_queue_index = - 1,
       handoff_queue_nelts = L2TVPP_HANDOFF_QUEUE_NELTS_DEFAULT,
       local_ip4s = [], inner_ip4_no_checksum = False, fib_src = fsrc,
       encap_adj_by_ip4 = unset, encap_adj_count = 0, encap_adj_init = False\<rparr>,
      [Udp_register_dst_port_input])"

text \<open>The \<open>l2tvpp { ... }\<close> stanza of \<open>startup.conf\<close>, as the items \<open>unformat\<close> recognises.\<close>

datatype config_item = Handoff_queue_nelts u32 | Config_unknown_input
datatype config_error = Handoff_queue_nelts_must_be_positive | Unknown_input

fun l2tvpp_config :: "'h l2tvpp_main \<Rightarrow> config_item list \<Rightarrow> config_error + 'h l2tvpp_main" where
  "l2tvpp_config lm [] = Inr lm"
| "l2tvpp_config lm (Handoff_queue_nelts n # items) =
     (if n = 0 then Inl Handoff_queue_nelts_must_be_positive
      else l2tvpp_config (lm\<lparr>handoff_queue_nelts := n\<rparr>) items)"
| "l2tvpp_config lm (Config_unknown_input # items) = Inl Unknown_input"

text \<open>\<open>is_pow2\<close> and \<open>max_log2\<close> are \<open>vppinfra\<close>'s, \<open>n_threads\<close> the thread count;
  \<open>None\<close> is the shift \<open>1 << max_log2 (n)\<close> by the width of \<open>int\<close> or more.\<close>

definition l2tvpp_handoff_queue_nelts ::
  "(u32 \<Rightarrow> bool) \<Rightarrow> (u32 \<Rightarrow> nat) \<Rightarrow> u32 \<Rightarrow> 'h l2tvpp_main \<Rightarrow> (u32 \<times> 'h l2tvpp_main) option" where
  "l2tvpp_handoff_queue_nelts is_pow2 max_log2 n_threads lm =
     (let min_nelts = 8 + 1 + n_threads;
          n = handoff_queue_nelts lm;
          n1 = (if n < min_nelts then min_nelts else n)
      in do {
        n2 \<leftarrow> (if is_pow2 n1 then Some n1
               else if max_log2 n1 < 32 then Some (push_bit (max_log2 n1) 1) else None);
        Some (n2, if n2 \<noteq> handoff_queue_nelts lm then lm\<lparr>handoff_queue_nelts := n2\<rparr> else lm) })"

text \<open>\<open>fqi\<close> is the index \<open>vlib_frame_queue_main_init\<close> returns.\<close>

definition l2tvpp_handoff_default ::
  "(u32 \<Rightarrow> bool) \<Rightarrow> (u32 \<Rightarrow> nat) \<Rightarrow> u32 \<Rightarrow> u32 \<Rightarrow> u32 \<Rightarrow> 'h l2tvpp_main
     \<Rightarrow> ('h l2tvpp_main \<times> vpp_call list) option" where
  "l2tvpp_handoff_default is_pow2 max_log2 n_threads n_workers fqi lm = do {
     (n, lm1) \<leftarrow> l2tvpp_handoff_queue_nelts is_pow2 max_log2 n_threads lm;
     let lm2 = lm1\<lparr>handoff_frame_queue_index := fqi\<rparr>;
     if 1 < n_workers
     then Some (lm2\<lparr>handoff_enabled := True\<rparr>,
                [Vlib_frame_queue_main_init ''l2tvpp-input'' n fqi, Udp_register_dst_port_handoff])
     else Some (lm2, [Vlib_frame_queue_main_init ''l2tvpp-input'' n fqi]) }"

end
