(* ===== verification/Objects_Invariant.thy ===== *)
theory Objects_Invariant
  imports L2tvpp_Objects
begin

text \<open>
  The consistency of the plugin's object model: the session pool, the decap table, the
  interface-to-session vector and the tunnels' session counters describe the same set of sessions.
  \<open>objects_inv\<close> is that invariant, \<open>obj_step\<close> the step relation of the control plane (one rule
  per operation, with what VPP guarantees about the indices it hands out and with RFC 2661's
  uniqueness of the LNS-assigned tunnel ids as premises), \<open>obj_reachable\<close> its reachable states.

  The locale \<open>session_store\<close> is what the data plane relies on: a decap key that is found names
  a live session with exactly that key.
\<close>

section \<open>The invariant\<close>

definition sess_key :: "l2tvpp_session \<Rightarrow> u64" where
  "sess_key s = l2tvpp_session_key (s_local_tid s) (s_local_sid s)"

definition session_ok :: "'h bihash_8_8 \<Rightarrow> 'h l2tvpp_main \<Rightarrow> u32 \<Rightarrow> l2tvpp_session \<Rightarrow> bool" where
  "session_ok bh lm si s \<longleftrightarrow> si \<noteq> - 1
     \<and> (\<exists>t. pool_elt (tunnels lm) (s_tunnel_index s) = Some t \<and> t_local_tid t = s_local_tid s)
     \<and> bh_search bh (session_by_key lm) (sess_key s) = Some (ucast si)
     \<and> session_of_sw_if_index lm (s_sw_if_index s) = Some si"

definition inv_sessions :: "'h bihash_8_8 \<Rightarrow> 'h l2tvpp_main \<Rightarrow> bool" where
  "inv_sessions bh lm \<longleftrightarrow> (\<forall>si s. pool_elt (sessions lm) si = Some s \<longrightarrow> session_ok bh lm si s)"

definition key_ok :: "'h l2tvpp_main \<Rightarrow> u64 \<Rightarrow> u64 \<Rightarrow> bool" where
  "key_ok lm k v \<longleftrightarrow> v = ucast (ucast v :: u32)
     \<and> (\<exists>s. pool_elt (sessions lm) (ucast v) = Some s \<and> sess_key s = k)"

definition inv_keys :: "'h bihash_8_8 \<Rightarrow> 'h l2tvpp_main \<Rightarrow> bool" where
  "inv_keys bh lm \<longleftrightarrow> (\<forall>k v. bh_search bh (session_by_key lm) k = Some v \<longrightarrow> key_ok lm k v)"

definition inv_swif :: "'h l2tvpp_main \<Rightarrow> bool" where
  "inv_swif lm \<longleftrightarrow> (\<forall>sw si. session_of_sw_if_index lm sw = Some si \<longrightarrow>
     (\<exists>s. pool_elt (sessions lm) si = Some s \<and> s_sw_if_index s = sw))"

definition inv_counts :: "'h l2tvpp_main \<Rightarrow> bool" where
  "inv_counts lm \<longleftrightarrow> (\<forall>ti t. pool_elt (tunnels lm) ti = Some t \<longrightarrow>
     unat (t_n_sessions t) = vpool.tally (sessions lm) (\<lambda>s. s_tunnel_index s = ti))"

definition inv_tids :: "'h l2tvpp_main \<Rightarrow> bool" where
  "inv_tids lm \<longleftrightarrow> (\<forall>ti ti' t t'. pool_elt (tunnels lm) ti = Some t \<longrightarrow>
     pool_elt (tunnels lm) ti' = Some t' \<longrightarrow> t_local_tid t = t_local_tid t' \<longrightarrow> ti = ti')"

definition objects_inv :: "'h bihash_8_8 \<Rightarrow> 'h l2tvpp_main \<Rightarrow> bool" where
  "objects_inv bh lm \<longleftrightarrow> bihash_ok bh \<and> inv_sessions bh lm \<and> inv_keys bh lm \<and> inv_swif lm
     \<and> inv_counts lm \<and> inv_tids lm"

lemmas inv_defs = inv_sessions_def inv_keys_def inv_swif_def inv_counts_def inv_tids_def

text \<open>The tunnel endpoints the fast path accepts are at least those of the live tunnels.\<close>

definition endpoints_inv :: "'h l2tvpp_main \<Rightarrow> bool" where
  "endpoints_inv lm \<longleftrightarrow> distinct (local_ip4s lm) \<and>
     (\<forall>ti t. pool_elt (tunnels lm) ti = Some t \<longrightarrow> ip46_ip4 (t_local_ip t) \<in> set (local_ip4s lm))"

section \<open>What the data plane relies on\<close>

locale session_store =
  fixes lookup :: "'s \<Rightarrow> u64 \<Rightarrow> u64 option"
    and elt :: "'s \<Rightarrow> u32 \<Rightarrow> l2tvpp_session option"
    and ok :: "'s \<Rightarrow> bool"
  assumes lookup_live: "ok s \<Longrightarrow> lookup s k = Some v \<Longrightarrow> \<exists>x. elt s (ucast v) = Some x \<and> sess_key x = k"
    and live_lookup: "ok s \<Longrightarrow> elt s i = Some x \<Longrightarrow> lookup s (sess_key x) = Some (ucast i)"
begin

lemma lookup_iff:
  assumes "ok s"
  shows "lookup s k = Some v \<longleftrightarrow> (\<exists>i x. v = ucast i \<and> elt s i = Some x \<and> sess_key x = k)"
proof
  assume found: "lookup s k = Some v"
  with assms obtain x where x: "elt s (ucast v) = Some x" "sess_key x = k"
    using lookup_live by blast
  with assms have "lookup s k = Some (ucast (ucast v :: u32))"
    using live_lookup [of s "ucast v" x] by simp
  with found x show "\<exists>i x. v = ucast i \<and> elt s i = Some x \<and> sess_key x = k"
    by (intro exI [of _ "ucast v"] exI [of _ x]) simp
qed (use assms live_lookup in auto)

lemma one_session_per_key:
  assumes "ok s" and "elt s i = Some x" and "elt s j = Some y" and "sess_key x = sess_key y"
  shows "i = j"
proof -
  have "ucast i = (ucast j :: u64)"
    using assms live_lookup [of s i x] live_lookup [of s j y] by simp
  then have "ucast (ucast i :: u64) = (ucast (ucast j :: u64) :: u32)"
    by simp
  then show ?thesis
    by (simp add: ucast_up_ucast_id is_up)
qed

end

lemma ucast_u32_u64_u32 [simp]: "ucast (ucast (i :: u32) :: u64) = i"
  by (simp add: ucast_up_ucast_id is_up)

interpretation objs: session_store
  "\<lambda>(bh, lm). bh_search bh (session_by_key lm)"
  "\<lambda>(bh, lm). pool_elt (sessions lm)"
  "\<lambda>(bh, lm). objects_inv bh lm"
  by unfold_locales (fastforce simp: objects_inv_def inv_keys_def key_ok_def inv_sessions_def session_ok_def)+

section \<open>Basic facts\<close>

lemma session_key_inj: "l2tvpp_session_key t s = l2tvpp_session_key t' s' \<longleftrightarrow> t = t' \<and> s = s'"
  unfolding l2tvpp_session_key_def using concat_ids_inj [of t s t' s', where 'a = 64] by auto

lemma session_of_vec_store:
  assumes "session_index_by_sw_if_index lm' = vec_store (session_index_by_sw_if_index lm) sw si"
    and "si \<noteq> - 1"
  shows "session_of_sw_if_index lm' sw' =
    (if sw' = sw then Some si else session_of_sw_if_index lm sw')"
  using assms
  by (auto simp: session_of_sw_if_index_def vec_store_def nth_list_update nth_append
      word_unat_eq_iff [of sw' sw])

lemma session_of_clear:
  assumes "session_index_by_sw_if_index lm' = (session_index_by_sw_if_index lm)[unat sw := - 1]"
  shows "session_of_sw_if_index lm' sw' =
    (if sw' = sw then None else session_of_sw_if_index lm sw')"
  using assms
  by (auto simp: session_of_sw_if_index_def nth_list_update word_unat_eq_iff [of sw' sw])

lemma session_of_cong:
  "session_index_by_sw_if_index lm' = session_index_by_sw_if_index lm \<Longrightarrow>
     session_of_sw_if_index lm' sw = session_of_sw_if_index lm sw"
  by (simp add: session_of_sw_if_index_def)

lemma tunnel_find_Some:
  assumes "l2tvpp_tunnel_find lm ip port tid = Some i"
  shows "\<exists>t. pool_elt (tunnels lm) i = Some t \<and> tunnel_matches ip port tid t"
  using assms by (auto simp: l2tvpp_tunnel_find_def find_Some_iff split: option.splits)

lemma tunnel_find_None:
  "l2tvpp_tunnel_find lm ip port tid = None \<longleftrightarrow>
     (\<forall>i t. pool_elt (tunnels lm) i = Some t \<longrightarrow> \<not> tunnel_matches ip port tid t)"
  by (auto simp: l2tvpp_tunnel_find_def find_None_iff set_pool_indices split: option.splits)

lemma tally_u32_bound:
  assumes "\<And>i x. pool_elt p i = Some x \<Longrightarrow> i \<noteq> - 1"
  shows "vpool.tally p P < 4294967296"
proof -
  have "{i. \<exists>x. pool_elt p i = Some x \<and> P x} \<subset> UNIV"
    using assms [of "- 1"] by auto
  then have "vpool.tally p P < CARD(u32)"
    unfolding vpool.tally_def by (rule psubset_card_mono [OF finite])
  then show ?thesis by (simp add: card_word)
qed

section \<open>Adding and deleting a session\<close>

lemma session_add_inv:
  assumes inv: "objects_inv bh lm"
    and t: "pool_elt (tunnels lm) ti = Some t"
    and slot: "pool_elt (sessions lm) slot = None" "slot \<noteq> - 1"
    and sw: "session_of_sw_if_index lm sw = None"
    and key: "bh_search bh (session_by_key lm) (l2tvpp_session_key (t_local_tid t) sid) = None"
    and res: "l2tvpp_session_add bh slot hw sw lm ti t sid psid acfc pfc = (lm', calls)"
  shows "objects_inv bh lm'"
proof -
  define s where "s = \<lparr>s_tunnel_index = ti, s_local_tid = t_local_tid t, s_local_sid = sid,
    s_peer_sid = psid, s_acfc = acfc, s_pfc = pfc, s_sw_if_index = sw, s_hw_if_index = hw,
    s_encap_ip_csum0 = 0\<rparr>"
  have ok: "bihash_ok bh" using inv by (simp add: objects_inv_def)
  have lm': "sessions lm' = pool_set (sessions lm) slot s"
    "session_index_by_sw_if_index lm' = vec_store (session_index_by_sw_if_index lm) sw slot"
    "session_by_key lm' = fst (bh_add bh (session_by_key lm) (sess_key s) (ucast slot))"
    "tunnels lm' = pool_set (tunnels lm) ti (t\<lparr>t_n_sessions := t_n_sessions t + 1\<rparr>)"
    using res by (auto simp: l2tvpp_session_add_def Let_def s_def sess_key_def)
  have elts: "pool_elt (sessions lm') i = (if i = slot then Some s else pool_elt (sessions lm) i)" for i
    by (simp add: lm' pool_elt_set)
  have tuns: "pool_elt (tunnels lm') i =
      (if i = ti then Some (t\<lparr>t_n_sessions := t_n_sessions t + 1\<rparr>) else pool_elt (tunnels lm) i)" for i
    by (simp add: lm' pool_elt_set)
  have srch: "bh_search bh (session_by_key lm') k =
      (if k = sess_key s then Some (ucast slot) else bh_search bh (session_by_key lm) k)" for k
    by (simp add: lm' bihash_okD [OF ok])
  have sws: "session_of_sw_if_index lm' i =
      (if i = sw then Some slot else session_of_sw_if_index lm i)" for i
    by (rule session_of_vec_store) (simp_all add: lm' slot)
  have s_fields: "s_tunnel_index s = ti" "s_local_tid s = t_local_tid t" "s_sw_if_index s = sw"
    by (simp_all add: s_def)
  have key': "bh_search bh (session_by_key lm) (sess_key s) = None"
    using key by (simp add: sess_key_def s_def)
  have "inv_sessions bh lm'"
    unfolding inv_sessions_def
  proof (intro allI impI)
    fix i x
    assume x: "pool_elt (sessions lm') i = Some x"
    show "session_ok bh lm' i x"
    proof (cases "i = slot")
      case True
      with x have "x = s" by (simp add: elts)
      with True t slot(2) show ?thesis
        by (simp add: session_ok_def tuns srch sws s_fields)
    next
      case False
      with x inv have "session_ok bh lm i x"
        by (simp add: objects_inv_def inv_sessions_def elts)
      with t key' sw show ?thesis
        by (auto simp: session_ok_def tuns srch sws)
    qed
  qed
  moreover have "inv_keys bh lm'"
    using inv slot(1) unfolding objects_inv_def inv_keys_def
    by (auto simp: key_ok_def elts srch) (metis option.distinct(1))
  moreover have "inv_swif lm'"
    using inv slot(1) unfolding objects_inv_def inv_swif_def
    by (auto simp: elts sws s_fields) (metis option.distinct(1))
  moreover have "inv_tids lm'"
    using inv t unfolding objects_inv_def inv_tids_def
    by (fastforce simp: tuns split: if_splits)
  moreover have "inv_counts lm'"
  proof -
    have tally: "vpool.tally (sessions lm') (\<lambda>s. s_tunnel_index s = i) =
        vpool.tally (sessions lm) (\<lambda>s. s_tunnel_index s = i) + (if i = ti then 1 else 0)" for i
      using vpool.tally_upd_fresh [OF slot(1), of s "\<lambda>s. s_tunnel_index s = i"]
      by (simp add: lm' s_fields)
    have "vpool.tally (sessions lm') (\<lambda>s. s_tunnel_index s = ti) < 4294967296"
      using \<open>inv_sessions bh lm'\<close> by (intro tally_u32_bound) (auto simp: inv_sessions_def session_ok_def)
    then show ?thesis
      using inv t unfolding objects_inv_def inv_counts_def
      by (auto simp: tuns tally unat_word_ariths)
  qed
  ultimately show ?thesis
    using ok by (simp add: objects_inv_def)
qed

lemma session_del_inv:
  assumes inv: "objects_inv bh lm"
    and t: "pool_elt (tunnels lm) ti = Some t"
    and s: "pool_elt (sessions lm) si = Some s" "sess_key s = l2tvpp_session_key (t_local_tid t) sid"
    and res: "l2tvpp_session_del bh lm ti t (sess_key s) si s = Some (lm', calls)"
  shows "objects_inv bh lm'"
proof -
  have ok: "bihash_ok bh" using inv by (simp add: objects_inv_def)
  from inv s(1) obtain t' where t': "pool_elt (tunnels lm) (s_tunnel_index s) = Some t'"
      "t_local_tid t' = s_local_tid s" and sw: "session_of_sw_if_index lm (s_sw_if_index s) = Some si"
    unfolding objects_inv_def inv_sessions_def session_ok_def by blast
  have "t_local_tid t = s_local_tid s"
    using s(2) by (simp add: sess_key_def session_key_inj)
  then have ti: "s_tunnel_index s = ti"
    using inv t t' unfolding objects_inv_def inv_tids_def by metis
  have lm': "sessions lm' = pool_put (sessions lm) si"
    "session_index_by_sw_if_index lm' = (session_index_by_sw_if_index lm)[unat (s_sw_if_index s) := - 1]"
    "session_by_key lm' = fst (bh_del bh (session_by_key lm) (sess_key s))"
    "tunnels lm' = pool_set (tunnels lm) ti (t\<lparr>t_n_sessions := t_n_sessions t - 1\<rparr>)"
    using res by (auto simp: l2tvpp_session_del_def Let_def split: if_splits)
  have elts: "pool_elt (sessions lm') i = (if i = si then None else pool_elt (sessions lm) i)" for i
    by (simp add: lm' pool_elt_put)
  have tuns: "pool_elt (tunnels lm') i =
      (if i = ti then Some (t\<lparr>t_n_sessions := t_n_sessions t - 1\<rparr>) else pool_elt (tunnels lm) i)" for i
    by (simp add: lm' pool_elt_set)
  have srch: "bh_search bh (session_by_key lm') k =
      (if k = sess_key s then None else bh_search bh (session_by_key lm) k)" for k
    by (simp add: lm' bihash_okD [OF ok])
  have sws: "session_of_sw_if_index lm' i =
      (if i = s_sw_if_index s then None else session_of_sw_if_index lm i)" for i
    by (rule session_of_clear) (simp add: lm')
  have uniq: "i = si" if "pool_elt (sessions lm) i = Some x" "sess_key x = sess_key s" for i x
    using objs.one_session_per_key [of "(bh, lm)" i x si s] inv s(1) that by simp
  have "inv_sessions bh lm'"
    unfolding inv_sessions_def
  proof (intro allI impI)
    fix i x
    assume x: "pool_elt (sessions lm') i = Some x"
    then have i: "i \<noteq> si" "pool_elt (sessions lm) i = Some x"
      by (simp_all add: elts split: if_splits)
    with inv have "session_ok bh lm i x"
      by (simp add: objects_inv_def inv_sessions_def)
    with i t sw uniq [of i x] show "session_ok bh lm' i x"
      by (auto simp: session_ok_def tuns srch sws)
  qed
  moreover have "inv_keys bh lm'"
    using inv s(1) unfolding objects_inv_def inv_keys_def
    by (auto simp: key_ok_def elts srch) (metis option.inject)
  moreover have "inv_swif lm'"
    using inv s(1) unfolding objects_inv_def inv_swif_def
    by (auto simp: elts sws) (metis option.inject)
  moreover have "inv_tids lm'"
    using inv t unfolding objects_inv_def inv_tids_def
    by (fastforce simp: tuns split: if_splits)
  moreover have "inv_counts lm'"
  proof -
    have tally: "vpool.tally (sessions lm') (\<lambda>s. s_tunnel_index s = i) + (if i = ti then 1 else 0) =
        vpool.tally (sessions lm) (\<lambda>s. s_tunnel_index s = i)" for i
      using vpool.tally_del [OF s(1), of "\<lambda>s. s_tunnel_index s = i"]
      by (auto simp: lm' ti split: if_splits)
    have n: "unat (t_n_sessions t) = vpool.tally (sessions lm) (\<lambda>s. s_tunnel_index s = ti)"
      using inv t by (simp add: objects_inv_def inv_counts_def)
    then have "unat (t_n_sessions t - 1) = vpool.tally (sessions lm') (\<lambda>s. s_tunnel_index s = ti)"
      using tally [of ti] by (simp add: unat_sub_if_size word_less_nat_alt)
    then show ?thesis
      using inv tally unfolding objects_inv_def inv_counts_def
      by (fastforce simp: tuns split: if_splits)
  qed
  ultimately show ?thesis
    using ok by (simp add: objects_inv_def)
qed

text \<open>Under the invariant no operation goes through a dead index.\<close>

lemma session_del_defined:
  assumes "objects_inv bh lm" and "pool_elt (sessions lm) si = Some s"
  shows "\<exists>lm' calls. l2tvpp_session_del bh lm ti t k si s = Some (lm', calls)"
  using assms
  by (fastforce simp: objects_inv_def inv_sessions_def session_ok_def session_of_sw_if_index_def
      l2tvpp_session_del_def Let_def split: if_splits)

lemma session_found_live:
  assumes "objects_inv bh lm" and "bh_search bh (session_by_key lm) k = Some v"
  obtains s where "pool_elt (sessions lm) (ucast v) = Some s" and "sess_key s = k"
  using objs.lookup_live [of "(bh, lm)" k v] assms by auto

lemma session_add_del_defined:
  assumes "objects_inv bh lm"
  shows "l2tvpp_session_add_del bh slot hw sw lm ti sid psid acfc pfc is_add \<noteq> None"
proof (cases "pool_elt (tunnels lm) ti")
  case None
  then show ?thesis by (simp add: l2tvpp_session_add_del_def)
next
  case (Some t)
  let ?k = "l2tvpp_session_key (t_local_tid t) sid"
  show ?thesis
  proof (cases "bh_search bh (session_by_key lm) ?k")
    case None
    with Some show ?thesis by (simp add: l2tvpp_session_add_del_def Let_def split: prod.split)
  next
    case (Some v)
    obtain s where s: "pool_elt (sessions lm) (ucast v) = Some s"
      using session_found_live [OF assms Some] by blast
    obtain lm' calls where "l2tvpp_session_del bh lm ti t ?k (ucast v) s = Some (lm', calls)"
      using session_del_defined [OF assms s] by blast
    with s Some \<open>pool_elt (tunnels lm) ti = Some t\<close> show ?thesis
      by (simp add: l2tvpp_session_add_del_def Let_def split: prod.split)
  qed
qed

lemma session_add_del_inv:
  assumes inv: "objects_inv bh lm"
    and slot: "pool_is_free_index (sessions lm) slot" "slot \<noteq> - 1"
    and sw: "session_of_sw_if_index lm sw = None"
    and res: "l2tvpp_session_add_del bh slot hw sw lm ti sid psid acfc pfc is_add =
      Some (rv, lm', out, calls)"
  shows "objects_inv bh lm'"
proof (cases "rv = RV_OK")
  case False
  with res inv show ?thesis
    by (auto simp: l2tvpp_session_add_del_def Let_def bind_eq_Some_conv
        split: option.splits if_splits prod.splits)
next
  case True
  with res obtain t where t: "pool_elt (tunnels lm) ti = Some t"
    by (auto simp: l2tvpp_session_add_del_def split: option.splits)
  let ?k = "l2tvpp_session_key (t_local_tid t) sid"
  show ?thesis
  proof (cases is_add)
    case True
    with res t \<open>rv = RV_OK\<close> have key: "bh_search bh (session_by_key lm) ?k = None"
      and add: "l2tvpp_session_add bh slot hw sw lm ti t sid psid acfc pfc = (lm', calls)"
      by (auto simp: l2tvpp_session_add_del_def Let_def split: option.splits prod.splits)
    show ?thesis
      using slot by (intro session_add_inv [OF inv t _ _ sw key add]) (simp_all add: pool_is_free_index_def)
  next
    case False
    with res t \<open>rv = RV_OK\<close> obtain v s where v: "bh_search bh (session_by_key lm) ?k = Some v"
      and s: "pool_elt (sessions lm) (ucast v) = Some s"
      and del: "l2tvpp_session_del bh lm ti t ?k (ucast v) s = Some (lm', calls)"
      by (auto simp: l2tvpp_session_add_del_def Let_def bind_eq_Some_conv split: option.splits prod.splits)
    have "sess_key s = ?k"
      using session_found_live [OF inv v] s by auto
    with s del show ?thesis
      by (intro session_del_inv [OF inv t s]) simp_all
  qed
qed

section \<open>The other operations\<close>

lemma objects_inv_cong:
  assumes "objects_inv bh lm"
    and "tunnels lm' = tunnels lm" "sessions lm' = sessions lm" "session_by_key lm' = session_by_key lm"
      "session_index_by_sw_if_index lm' = session_index_by_sw_if_index lm"
  shows "objects_inv bh lm'"
  using assms
  by (simp add: objects_inv_def inv_defs session_ok_def key_ok_def session_of_cong [of lm' lm])

lemma encap_adj_frame:
  assumes "l2tvpp_encap_adj_add_del bh ai lm pfx sw is_add = (lm', calls)"
  shows "tunnels lm' = tunnels lm" "sessions lm' = sessions lm" "session_by_key lm' = session_by_key lm"
    "session_index_by_sw_if_index lm' = session_index_by_sw_if_index lm" "local_ip4s lm' = local_ip4s lm"
  using assms
  by (auto simp: l2tvpp_encap_adj_add_del_def l2tvpp_encap_adj_init_def Let_def
      split: if_splits option.splits prod.splits)

lemma route_add_del_inv:
  assumes "objects_inv bh lm" and "l2tvpp_route_add_del bh fi ai lm pfx sw is_add = (rv, lm', calls)"
  shows "objects_inv bh lm'"
proof (cases "session_of_sw_if_index lm sw = None")
  case True
  with assms show ?thesis by (simp add: l2tvpp_route_add_del_def)
next
  case False
  with assms(2) obtain cs where "l2tvpp_encap_adj_add_del bh ai lm pfx sw is_add = (lm', cs)"
    by (auto simp: l2tvpp_route_add_del_def Let_def split: prod.splits)
  from objects_inv_cong [OF assms(1) encap_adj_frame(1-4) [OF this]] show ?thesis .
qed

lemma set_handoff_inv:
  assumes "objects_inv bh lm" and "l2tvpp_set_handoff lm e = (rv, lm', calls)"
  shows "objects_inv bh lm'"
  using assms(2)
  by (intro objects_inv_cong [OF assms(1)]) (auto simp: l2tvpp_set_handoff_def Let_def split: if_splits)

lemma tunnel_add_del_error:
  assumes "l2tvpp_tunnel_add_del slot lm lip pip lp pp tid ptid is_add = (rv, lm', out)"
    and "rv \<noteq> RV_OK"
  shows "lm' = lm"
  using assms
  by (simp add: l2tvpp_tunnel_add_del_def Let_def split: if_splits option.splits; elim conjE; simp)

definition new_tunnel :: "ip46_address \<Rightarrow> ip46_address \<Rightarrow> u16 \<Rightarrow> u16 \<Rightarrow> u16 \<Rightarrow> u16 \<Rightarrow> l2tvpp_tunnel" where
  "new_tunnel lip pip lp pp tid ptid =
     \<lparr>t_local_ip = lip, t_peer_ip = pip, t_local_port = lp, t_peer_port = pp, t_local_tid = tid,
      t_peer_tid = ptid, t_n_sessions = 0, t_encap_fib_index = 0\<rparr>"

lemma tunnel_add_ok:
  assumes "l2tvpp_tunnel_add_del slot lm lip pip lp pp tid ptid True = (RV_OK, lm', out)"
  shows "out = Some slot" and "l2tvpp_tunnel_find lm pip pp tid = None"
    and "lm' = lm\<lparr>tunnels := pool_set (tunnels lm) slot (new_tunnel lip pip lp pp tid ptid),
      local_ip4s := (if ip46_ip4 lip \<in> set (local_ip4s lm) then local_ip4s lm
                     else local_ip4s lm @ [ip46_ip4 lip])\<rparr>"
proof -
  have "ip46_address_is_ip4 lip \<and> ip46_address_is_ip4 pip"
    using assms by (simp add: l2tvpp_tunnel_add_del_def split: if_splits)
  with assms show "out = Some slot" and "l2tvpp_tunnel_find lm pip pp tid = None"
    and "lm' = lm\<lparr>tunnels := pool_set (tunnels lm) slot (new_tunnel lip pip lp pp tid ptid),
      local_ip4s := (if ip46_ip4 lip \<in> set (local_ip4s lm) then local_ip4s lm
                     else local_ip4s lm @ [ip46_ip4 lip])\<rparr>"
    by (auto simp: l2tvpp_tunnel_add_del_def Let_def new_tunnel_def split: option.splits)
qed

lemma tunnel_del_ok:
  assumes "l2tvpp_tunnel_add_del slot lm lip pip lp pp tid ptid False = (RV_OK, lm', out)"
  obtains i t where "l2tvpp_tunnel_find lm pip pp tid = Some i"
    and "pool_elt (tunnels lm) i = Some t" and "t_n_sessions t = 0"
    and "lm' = lm\<lparr>tunnels := pool_put (tunnels lm) i\<rparr>"
proof -
  have "ip46_address_is_ip4 lip \<and> ip46_address_is_ip4 pip"
    using assms by (simp add: l2tvpp_tunnel_add_del_def split: if_splits)
  with assms show ?thesis
    by (simp add: l2tvpp_tunnel_add_del_def Let_def split: option.splits if_splits)
      (metis that)
qed

lemma session_ok_cong:
  assumes "pool_elt (tunnels lm') (s_tunnel_index s) = pool_elt (tunnels lm) (s_tunnel_index s)"
    and "session_by_key lm' = session_by_key lm"
    and "session_index_by_sw_if_index lm' = session_index_by_sw_if_index lm"
  shows "session_ok bh lm' i s = session_ok bh lm i s"
  using assms by (simp add: session_ok_def session_of_cong [of lm' lm])

lemma tunnel_add_inv:
  assumes inv: "objects_inv bh lm"
    and slot: "pool_elt (tunnels lm) slot = None"
    and tid: "\<And>i t. pool_elt (tunnels lm) i = Some t \<Longrightarrow> t_local_tid t \<noteq> tid"
    and new: "t_local_tid n = tid" "t_n_sessions n = 0"
    and lm': "lm' = lm\<lparr>tunnels := pool_set (tunnels lm) slot n, local_ip4s := ips\<rparr>"
  shows "objects_inv bh lm'"
proof -
  have tuns: "pool_elt (tunnels lm') i = (if i = slot then Some n else pool_elt (tunnels lm) i)" for i
    by (simp add: lm' pool_elt_set)
  have none: "s_tunnel_index s \<noteq> slot" if "pool_elt (sessions lm) i = Some s" for i s
    using inv slot that unfolding objects_inv_def inv_sessions_def session_ok_def
    by (metis option.distinct(1))
  have "inv_sessions bh lm'"
    unfolding inv_sessions_def
  proof (intro allI impI)
    fix j s
    assume "pool_elt (sessions lm') j = Some s"
    then have j: "pool_elt (sessions lm) j = Some s" by (simp add: lm')
    with inv have "session_ok bh lm j s" by (simp add: objects_inv_def inv_sessions_def)
    then show "session_ok bh lm' j s"
      by (subst session_ok_cong [of lm' s lm]) (simp_all add: tuns none [OF j], simp_all add: lm')
  qed
  moreover have "inv_keys bh lm'" "inv_swif lm'"
    using inv by (simp_all add: objects_inv_def inv_defs key_ok_def lm' session_of_sw_if_index_def)
  moreover have "inv_counts lm'"
  proof -
    have "vpool.tally (sessions lm) (\<lambda>s. s_tunnel_index s = slot) = 0"
      using none by (auto simp: vpool.tally_zero_iff)
    then show ?thesis
      using inv new unfolding objects_inv_def inv_counts_def by (simp add: tuns) (simp add: lm')
  qed
  moreover have "inv_tids lm'"
    using inv tid new unfolding objects_inv_def inv_tids_def by (simp add: tuns) metis
  ultimately show ?thesis using inv by (simp add: objects_inv_def)
qed

lemma tunnel_del_inv:
  assumes inv: "objects_inv bh lm"
    and t: "pool_elt (tunnels lm) i = Some t" "t_n_sessions t = 0"
    and lm': "lm' = lm\<lparr>tunnels := pool_put (tunnels lm) i\<rparr>"
  shows "objects_inv bh lm'"
proof -
  have tuns: "pool_elt (tunnels lm') j = (if j = i then None else pool_elt (tunnels lm) j)" for j
    by (simp add: lm' pool_elt_put)
  have "vpool.tally (sessions lm) (\<lambda>s. s_tunnel_index s = i) = 0"
    using inv t by (fastforce simp: objects_inv_def inv_counts_def)
  then have none: "s_tunnel_index s \<noteq> i" if "pool_elt (sessions lm) j = Some s" for j s
    using that by (auto simp: vpool.tally_zero_iff)
  have "inv_sessions bh lm'"
    unfolding inv_sessions_def
  proof (intro allI impI)
    fix j s
    assume "pool_elt (sessions lm') j = Some s"
    then have j: "pool_elt (sessions lm) j = Some s" by (simp add: lm')
    with inv have "session_ok bh lm j s" by (simp add: objects_inv_def inv_sessions_def)
    then show "session_ok bh lm' j s"
      by (subst session_ok_cong [of lm' s lm]) (simp_all add: tuns none [OF j], simp_all add: lm')
  qed
  moreover have "inv_keys bh lm'" "inv_swif lm'"
    using inv by (simp_all add: objects_inv_def inv_defs key_ok_def lm' session_of_sw_if_index_def)
  moreover have "inv_counts lm'" "inv_tids lm'"
    using inv unfolding objects_inv_def inv_counts_def inv_tids_def
    by (simp_all add: tuns) (simp add: lm')
  ultimately show ?thesis using inv by (simp add: objects_inv_def)
qed

text \<open>\<open>tid_not_shared\<close> is RFC 2661's rule for the party that adds a tunnel: the LNS does not give one
  local tunnel id to two different peers. Adding a tunnel that is there already is not excluded: the
  code's own lookup refuses it.\<close>

definition tid_not_shared :: "'h l2tvpp_main \<Rightarrow> ip46_address \<Rightarrow> u16 \<Rightarrow> u16 \<Rightarrow> bool" where
  "tid_not_shared lm pip pp tid \<longleftrightarrow> (\<forall>i t. pool_elt (tunnels lm) i = Some t \<longrightarrow> t_local_tid t = tid \<longrightarrow>
     t_peer_ip t = pip \<and> t_peer_port t = pp)"

lemma tid_not_shared_unused:
  assumes "tid_not_shared lm pip pp tid" and "l2tvpp_tunnel_find lm pip pp tid = None"
    and "pool_elt (tunnels lm) i = Some t"
  shows "t_local_tid t \<noteq> tid"
  using assms unfolding tid_not_shared_def tunnel_find_None tunnel_matches_def by blast

lemma tunnel_add_del_inv:
  assumes inv: "objects_inv bh lm"
    and slot: "pool_is_free_index (tunnels lm) slot"
    and tid: "is_add \<longrightarrow> tid_not_shared lm pip pp tid"
    and res: "l2tvpp_tunnel_add_del slot lm lip pip lp pp tid ptid is_add = (rv, lm', out)"
  shows "objects_inv bh lm'"
proof (cases "rv = RV_OK")
  case False
  with tunnel_add_del_error [OF res] inv show ?thesis by simp
next
  case ok: True
  show ?thesis
  proof (cases is_add)
    case True
    then have "l2tvpp_tunnel_add_del slot lm lip pip lp pp tid ptid True = (RV_OK, lm', out)"
      using res ok by simp
    note add = tunnel_add_ok(2,3) [OF this]
    from tid True have "tid_not_shared lm pip pp tid" by simp
    note unused = tid_not_shared_unused [OF this add(1)]
    show ?thesis
      using slot unused add(2)
      by (intro tunnel_add_inv [OF inv, where n = "new_tunnel lip pip lp pp tid ptid" and tid = tid])
        (auto simp: pool_is_free_index_def new_tunnel_def)
  next
    case False
    then have "l2tvpp_tunnel_add_del slot lm lip pip lp pp tid ptid False = (RV_OK, lm', out)"
      using res ok by simp
    then show ?thesis
      by (elim tunnel_del_ok) (rule tunnel_del_inv [OF inv])
  qed
qed

section \<open>The control plane as a transition system\<close>

text \<open>The steps are the four operations with any arguments, errors included. What the environment
  promises: VPP's pools hand out free slots and \<open>vnet_register_interface\<close> an interface no session has,
  and the LNS does not give one local tunnel id to two peers (\<open>tid_not_shared\<close>; the lookup of the code
  is by peer address, peer port and id, so it does not refuse that itself).\<close>

inductive obj_step :: "'h bihash_8_8 \<Rightarrow> 'h l2tvpp_main \<Rightarrow> 'h l2tvpp_main \<Rightarrow> bool"
  for bh :: "'h bihash_8_8" where
  tunnel: "pool_is_free_index (tunnels lm) slot \<Longrightarrow> (is_add \<longrightarrow> tid_not_shared lm pip pp tid) \<Longrightarrow>
     l2tvpp_tunnel_add_del slot lm lip pip lp pp tid ptid is_add = (rv, lm', out) \<Longrightarrow> obj_step bh lm lm'"
| session: "pool_is_free_index (sessions lm) slot \<Longrightarrow> slot \<noteq> - 1 \<Longrightarrow>
     session_of_sw_if_index lm sw = None \<Longrightarrow>
     l2tvpp_session_add_del bh slot hw sw lm ti sid psid acfc pfc is_add = Some (rv, lm', out, calls) \<Longrightarrow>
     obj_step bh lm lm'"
| route: "l2tvpp_route_add_del bh fi ai lm pfx sw is_add = (rv, lm', calls) \<Longrightarrow> obj_step bh lm lm'"
| handoff: "l2tvpp_set_handoff lm e = (rv, lm', calls) \<Longrightarrow> obj_step bh lm lm'"

inductive obj_reachable :: "'h bihash_8_8 \<Rightarrow> 'h l2tvpp_main \<Rightarrow> bool"
  for bh :: "'h bihash_8_8" where
  init: "l2tvpp_init bh fsrc unset = (lm, calls) \<Longrightarrow> obj_reachable bh lm"
| step: "obj_reachable bh lm \<Longrightarrow> obj_step bh lm lm' \<Longrightarrow> obj_reachable bh lm'"

lemma init_inv:
  assumes "bihash_ok bh" and "l2tvpp_init bh fsrc unset = (lm, calls)"
  shows "objects_inv bh lm"
  using assms
  by (auto simp: l2tvpp_init_def objects_inv_def inv_defs session_of_sw_if_index_def pool_elt_def
      bihash_okD)

lemma obj_step_inv:
  assumes "obj_step bh lm lm'" and "objects_inv bh lm"
  shows "objects_inv bh lm'"
  using assms
proof (cases rule: obj_step.cases)
  case tunnel
  then show ?thesis using tunnel_add_del_inv [OF assms(2)] by blast
next
  case session
  then show ?thesis using session_add_del_inv [OF assms(2)] by blast
next
  case route
  then show ?thesis using route_add_del_inv [OF assms(2)] by blast
next
  case handoff
  then show ?thesis using set_handoff_inv [OF assms(2)] by blast
qed

lemma reachable_inv:
  assumes "obj_reachable bh lm" and "bihash_ok bh"
  shows "objects_inv bh lm"
  using assms by (induction rule: obj_reachable.induct) (blast intro: init_inv obj_step_inv)+

section \<open>A small reachable state\<close>

text \<open>One tunnel (local id 100, peer id 200) between 10.0.0.1 and 10.0.0.2 with one session
  (local id 1000, peer id 2000) on interface 5, for the witnesses.\<close>

definition ip_10_0_0_1 :: u32 where "ip_10_0_0_1 = le32 10 0 0 1"
definition ip_10_0_0_2 :: u32 where "ip_10_0_0_2 = le32 10 0 0 2"

definition ex_local :: ip46_address where "ex_local = \<lparr>ip46_pad = 0, ip46_ip4 = ip_10_0_0_1\<rparr>"
definition ex_peer :: ip46_address where "ex_peer = \<lparr>ip46_pad = 0, ip46_ip4 = ip_10_0_0_2\<rparr>"

definition ex_init :: "(u64 \<times> u64) list l2tvpp_main" where
  "ex_init = fst (l2tvpp_init alist_bihash 0 [])"

definition ex_tunnel :: "(u64 \<times> u64) list l2tvpp_main" where
  "ex_tunnel = fst (snd (l2tvpp_tunnel_add_del 0 ex_init ex_local ex_peer 1701 1701 100 200 True))"

definition ex_main :: "(u64 \<times> u64) list l2tvpp_main" where
  "ex_main = fst (snd (the (l2tvpp_session_add_del alist_bihash 0 7 5 ex_tunnel 0 1000 2000 0 0 True)))"

definition ex_session :: l2tvpp_session where
  "ex_session = \<lparr>s_tunnel_index = 0, s_local_tid = 100, s_local_sid = 1000, s_peer_sid = 2000,
     s_acfc = 0, s_pfc = 0, s_sw_if_index = 5, s_hw_if_index = 7, s_encap_ip_csum0 = 0\<rparr>"

lemma ex_tunnel_eq:
  "l2tvpp_tunnel_add_del 0 ex_init ex_local ex_peer 1701 1701 100 200 True = (RV_OK, ex_tunnel, Some 0)"
  "tunnels ex_tunnel = [Some (new_tunnel ex_local ex_peer 1701 1701 100 200)]"
  "sessions ex_tunnel = []" "session_by_key ex_tunnel = []" "session_index_by_sw_if_index ex_tunnel = []"
  "local_ip4s ex_tunnel = [ip_10_0_0_1]"
  by (simp_all add: ex_tunnel_def ex_init_def l2tvpp_init_def l2tvpp_tunnel_add_del_def ex_local_def
      ex_peer_def ip46_address_is_ip4_def l2tvpp_tunnel_find_def pool_indices_def pool_set_def
      new_tunnel_def alist_bihash_def)

lemma vec_store_5: "vec_store [] 5 0 = [- 1, - 1, - 1, - 1, - 1, 0]"
  by code_simp

lemma ex_main_eq:
  "\<exists>calls. l2tvpp_session_add_del alist_bihash 0 7 5 ex_tunnel 0 1000 2000 0 0 True =
     Some (RV_OK, ex_main, Some 5, calls)"
  "tunnels ex_main = [Some ((new_tunnel ex_local ex_peer 1701 1701 100 200)\<lparr>t_n_sessions := 1\<rparr>)]"
  "sessions ex_main = [Some ex_session]"
  "session_by_key ex_main = [(l2tvpp_session_key 100 1000, 0)]"
  "session_index_by_sw_if_index ex_main = [- 1, - 1, - 1, - 1, - 1, 0]"
  by (simp_all add: ex_main_def l2tvpp_session_add_del_def pool_elt_def ex_tunnel_eq alist_bihash_def
      new_tunnel_def l2tvpp_session_add_def pool_set_def vec_store_5 ex_session_def)

lemma ex_main_rest:
  "\<not> encap_adj_init ex_main" "encap_adj_count ex_main = 0" "inner_ip4_no_checksum ex_main = False"
  "handoff_queue_nelts ex_main = L2TVPP_HANDOFF_QUEUE_NELTS_DEFAULT" "local_ip4s ex_main = [ip_10_0_0_1]"
  "handoff_enabled ex_main = False"
  by (simp_all add: ex_main_def l2tvpp_session_add_del_def pool_elt_def ex_tunnel_eq alist_bihash_def
      new_tunnel_def l2tvpp_session_add_def)
    (simp_all add: ex_tunnel_def ex_init_def l2tvpp_init_def l2tvpp_tunnel_add_del_def ex_local_def
      ex_peer_def ip46_address_is_ip4_def l2tvpp_tunnel_find_def pool_indices_def)

lemma ex_tunnel_reachable: "obj_reachable alist_bihash ex_tunnel"
proof -
  have 0: "obj_reachable alist_bihash ex_init"
    by (rule obj_reachable.init [of _ 0 "[]" _ "[Udp_register_dst_port_input]"])
      (simp add: ex_init_def l2tvpp_init_def)
  have "obj_step alist_bihash ex_init ex_tunnel"
    by (rule obj_step.tunnel [OF _ _ ex_tunnel_eq(1)])
      (simp_all add: pool_is_free_index_def pool_elt_def tid_not_shared_def ex_init_def l2tvpp_init_def)
  with 0 show ?thesis by (rule obj_reachable.step)
qed

lemma ex_reachable: "obj_reachable alist_bihash ex_main"
proof -
  obtain calls where "l2tvpp_session_add_del alist_bihash 0 7 5 ex_tunnel 0 1000 2000 0 0 True =
      Some (RV_OK, ex_main, Some 5, calls)"
    using ex_main_eq(1) by blast
  then have "obj_step alist_bihash ex_tunnel ex_main"
    by (rule obj_step.session [rotated 3])
      (simp_all add: pool_is_free_index_def pool_elt_def ex_tunnel_eq session_of_sw_if_index_def)
  with ex_tunnel_reachable show ?thesis by (rule obj_reachable.step)
qed

lemma ex_main_inv: "objects_inv alist_bihash ex_main"
  by (rule reachable_inv [OF ex_reachable alist_bihash_ok])

lemma ex_tunnel_inv: "objects_inv alist_bihash ex_tunnel"
  by (rule reachable_inv [OF ex_tunnel_reachable alist_bihash_ok])

end
