(* ===== verification/Decap_Node.thy ===== *)
theory Decap_Node
  imports Objects_Invariant
begin

text \<open>
  \<^verbatim>\<open>src/plugin/l2tvpp/node.c\<close>: the decapsulation node \<open>l2tvpp-input\<close>.  \<open>l2tvpp_input_packet\<close> is
  one turn of the node's loop (header switch, Ns/Nr and offset skip, session lookup, PPP header,
  advance or punt), \<open>l2tvpp_input_loop\<close> the loop with its batched receive counters and
  \<open>l2tvpp_input_node\<close> the node function.  \<open>None\<close> is a read outside the packet or through a dead
  session index.
\<close>

section \<open>Next nodes and counters\<close>

datatype l2tvpp_input_next =
    L2TVPP_INPUT_NEXT_IP4_INPUT
  | L2TVPP_INPUT_NEXT_IP4_INPUT_NCS
  | L2TVPP_INPUT_NEXT_IP6_INPUT
  | L2TVPP_INPUT_NEXT_PUNT
  | L2TVPP_INPUT_NEXT_DROP

datatype l2tvpp_input_error =
    DECAP | DECAP_SEQ | DECAP_OFF | PUNT_CONTROL | PUNT_NO_SESSION | PUNT_PPP_PROTO
  | PUNT_UNSUPPORTED | TOO_SHORT

text \<open>The X-macro list: the enumeration in its declaration order, which indexes the counters.\<close>

instantiation l2tvpp_input_error :: enum
begin

definition enum_l2tvpp_input_error :: "l2tvpp_input_error list" where
  "enum_l2tvpp_input_error = [DECAP, DECAP_SEQ, DECAP_OFF, PUNT_CONTROL, PUNT_NO_SESSION,
     PUNT_PPP_PROTO, PUNT_UNSUPPORTED, TOO_SHORT]"

definition enum_all_l2tvpp_input_error :: "(l2tvpp_input_error \<Rightarrow> bool) \<Rightarrow> bool" where
  "enum_all_l2tvpp_input_error P = list_all P enum_class.enum"

definition enum_ex_l2tvpp_input_error :: "(l2tvpp_input_error \<Rightarrow> bool) \<Rightarrow> bool" where
  "enum_ex_l2tvpp_input_error P = list_ex P enum_class.enum"

instance
proof
  show univ: "(UNIV :: l2tvpp_input_error set) = set enum_class.enum"
    by (auto simp: enum_l2tvpp_input_error_def) (metis l2tvpp_input_error.exhaust)
  show "distinct (enum_class.enum :: l2tvpp_input_error list)"
    by (simp add: enum_l2tvpp_input_error_def)
  show "enum_class.enum_all P \<longleftrightarrow> Ball (UNIV :: l2tvpp_input_error set) P" for P
    unfolding univ by (simp add: enum_all_l2tvpp_input_error_def list_all_iff)
  show "enum_class.enum_ex P \<longleftrightarrow> Bex (UNIV :: l2tvpp_input_error set) P" for P
    unfolding univ by (simp add: enum_ex_l2tvpp_input_error_def list_ex_iff)
qed

end

fun error_index :: "l2tvpp_input_error \<Rightarrow> nat" where
  "error_index DECAP = 0"
| "error_index DECAP_SEQ = 1"
| "error_index DECAP_OFF = 2"
| "error_index PUNT_CONTROL = 3"
| "error_index PUNT_NO_SESSION = 4"
| "error_index PUNT_PPP_PROTO = 5"
| "error_index PUNT_UNSUPPORTED = 6"
| "error_index TOO_SHORT = 7"

section \<open>The walk to the PPP header and the PPP header\<close>

datatype input_walk = Walk_too_short | Walk_to nat l2tvpp_input_error

definition l2tvpp_input_skip :: "bytes \<Rightarrow> nat \<Rightarrow> u16 \<Rightarrow> nat \<Rightarrow> input_walk option" where
  "l2tvpp_input_skip start len flags off =
     (let seq = flags AND L2TVPP_HDR_S \<noteq> 0;
          cur = (if seq then off + 4 else off);
          err = (if seq then DECAP_SEQ else DECAP)
      in if flags AND L2TVPP_HDR_O \<noteq> 0 then
           if len < cur + 2 then Some Walk_too_short
           else do {
             sz \<leftarrow> rd16 start cur;
             let cur2 = cur + 2 + unat sz;
             if len < cur2 + 4 then Some Walk_too_short else Some (Walk_to cur2 DECAP_OFF) }
         else if len < cur + 4 then Some Walk_too_short else Some (Walk_to cur err))"

text \<open>Optional \<open>FF 03\<close>, then a one- or two-byte protocol: the protocol and the position behind
  it.\<close>

definition ppp_skip_address_control :: "bytes \<Rightarrow> nat \<Rightarrow> nat option" where
  "ppp_skip_address_control start cur = do {
     c0 \<leftarrow> rd8 start cur;
     if c0 = 0xff then do { c1 \<leftarrow> rd8 start (cur + 1); Some (if c1 = 0x03 then cur + 2 else cur) }
     else Some cur }"

definition ppp_read_protocol :: "bytes \<Rightarrow> nat \<Rightarrow> (u16 \<times> nat) option" where
  "ppp_read_protocol start cur = do {
     p0 \<leftarrow> rd8 start cur;
     if p0 AND 1 \<noteq> 0 then Some (ucast p0, cur + 1)
     else do { pp \<leftarrow> rd16 start cur; Some (pp, cur + 2) } }"

definition l2tvpp_input_ppp :: "bytes \<Rightarrow> nat \<Rightarrow> (u16 \<times> nat) option" where
  "l2tvpp_input_ppp start cur = do {
     cur1 \<leftarrow> ppp_skip_address_control start cur;
     ppp_read_protocol start cur1 }"

lemmas input_ppp_defs = l2tvpp_input_ppp_def ppp_skip_address_control_def ppp_read_protocol_def

section \<open>One packet\<close>

record l2tvpp_input_trace =
  tr_session_index :: u32
  tr_sw_if_index :: u32
  tr_tunnel_id :: u16
  tr_session_id :: u16
  tr_ppp_proto :: u16
  tr_next :: l2tvpp_input_next

text \<open>\<open>ir_stats\<close> is the interface and length the receive counters see, on decapsulation only.\<close>

record input_result =
  ir_next :: l2tvpp_input_next
  ir_error :: l2tvpp_input_error
  ir_session_index :: u32
  ir_tid :: u16
  ir_sid :: u16
  ir_ppp_proto :: u16
  ir_buffer :: vlib_buffer
  ir_stats :: "(u32 \<times> nat) option"

definition l2tvpp_rewind_to_ip :: "vlib_buffer \<Rightarrow> vlib_buffer" where
  "l2tvpp_rewind_to_ip b = vlib_buffer_advance b (int (b_l3_hdr_offset b) - int (b_current_data b))"

definition input_drop :: "vlib_buffer \<Rightarrow> u16 \<Rightarrow> u16 \<Rightarrow> input_result" where
  "input_drop b tid sid =
     \<lparr>ir_next = L2TVPP_INPUT_NEXT_DROP, ir_error = TOO_SHORT, ir_session_index = - 1, ir_tid = tid,
      ir_sid = sid, ir_ppp_proto = 0, ir_buffer = b\<lparr>b_error := Some (error_index TOO_SHORT)\<rparr>,
      ir_stats = None\<rparr>"

definition input_punt :: "vlib_buffer \<Rightarrow> l2tvpp_input_error \<Rightarrow> u32 \<Rightarrow> u16 \<Rightarrow> u16 \<Rightarrow> u16 \<Rightarrow> input_result" where
  "input_punt b err si tid sid ppp =
     \<lparr>ir_next = L2TVPP_INPUT_NEXT_PUNT, ir_error = err, ir_session_index = si, ir_tid = tid,
      ir_sid = sid, ir_ppp_proto = ppp, ir_buffer = l2tvpp_rewind_to_ip b, ir_stats = None\<rparr>"

definition input_decap ::
  "vlib_buffer \<Rightarrow> l2tvpp_input_next \<Rightarrow> l2tvpp_input_error \<Rightarrow> u32 \<Rightarrow> u16 \<Rightarrow> u16 \<Rightarrow> u16 \<Rightarrow> nat \<Rightarrow> l2tvpp_session
     \<Rightarrow> input_result" where
  "input_decap b next err si tid sid ppp cur sess =
     (let b1 = vlib_buffer_advance b (int cur);
          b2 = b1\<lparr>b_rx := s_sw_if_index sess, b_tx := - 1\<rparr>
      in \<lparr>ir_next = next, ir_error = err, ir_session_index = si, ir_tid = tid, ir_sid = sid,
          ir_ppp_proto = ppp, ir_buffer = b2,
          ir_stats = Some (s_sw_if_index sess, vlib_buffer_length_in_chain b2)\<rparr>)"

lemmas result_simps = input_drop_def input_punt_def input_decap_def Let_def

definition l2tvpp_input_packet ::
  "bool \<Rightarrow> (u64 \<Rightarrow> u64 option) \<Rightarrow> (u32 \<Rightarrow> l2tvpp_session option) \<Rightarrow> vlib_buffer \<Rightarrow> input_result option" where
  "l2tvpp_input_packet no_checksum lookup elt b =
     (let start = cur_bytes b; len = b_current_length b in do {
        rc \<leftarrow> l2tvpp_parse_hdr start len;
        case rc of
          L2TVPP_HDR_NOT_V2 \<Rightarrow> Some (input_punt b PUNT_UNSUPPORTED (- 1) 0 0 0)
        | L2TVPP_HDR_CONTROL \<Rightarrow> Some (input_punt b PUNT_CONTROL (- 1) 0 0 0)
        | L2TVPP_HDR_TOO_SHORT \<Rightarrow> Some (input_drop b 0 0)
        | L2TVPP_HDR_DATA flags tid sid off \<Rightarrow> do {
            w \<leftarrow> l2tvpp_input_skip start len flags off;
            case w of
              Walk_too_short \<Rightarrow> Some (input_drop b tid sid)
            | Walk_to cur err \<Rightarrow>
                (case lookup (l2tvpp_session_key tid sid) of
                   None \<Rightarrow> Some (input_punt b PUNT_NO_SESSION (- 1) tid sid 0)
                 | Some v \<Rightarrow> do {
                     (ppp, cur2) \<leftarrow> l2tvpp_input_ppp start cur;
                     let si = ucast v;
                     if ppp = PPP_PROTO_IP4 then do {
                       sess \<leftarrow> elt si;
                       Some (input_decap b (if no_checksum then L2TVPP_INPUT_NEXT_IP4_INPUT_NCS
                                            else L2TVPP_INPUT_NEXT_IP4_INPUT)
                               err si tid sid ppp cur2 sess) }
                     else if ppp = PPP_PROTO_IP6 then do {
                       sess \<leftarrow> elt si;
                       Some (input_decap b L2TVPP_INPUT_NEXT_IP6_INPUT err si tid sid ppp cur2 sess) }
                     else Some (input_punt b PUNT_PPP_PROTO si tid sid ppp) }) } })"

section \<open>The frame\<close>

record input_loop =
  il_counts :: "l2tvpp_input_error \<Rightarrow> u32"
  il_sw_if_index :: u32
  il_n_packets :: u32
  il_n_bytes :: u32
  il_increments :: "(u32 \<times> u32 \<times> u32) list"
  il_out :: "(vlib_buffer \<times> l2tvpp_input_next) list"
  il_traces :: "l2tvpp_input_trace list"

text \<open>\<open>vlib_increment_combined_counter\<close> calls are collected in order in \<open>il_increments\<close>.\<close>

definition input_account_rx :: "(u32 \<times> nat) option \<Rightarrow> input_loop \<Rightarrow> input_loop" where
  "input_account_rx stats st =
     (case stats of
        None \<Rightarrow> st
      | Some (sw, len0) \<Rightarrow>
          if sw = il_sw_if_index st
          then st\<lparr>il_n_packets := il_n_packets st + 1, il_n_bytes := il_n_bytes st + of_nat len0\<rparr>
          else
            let st1 = (if il_n_packets st \<noteq> 0
                       then st\<lparr>il_increments := il_increments st
                                 @ [(il_sw_if_index st, il_n_packets st, il_n_bytes st)]\<rparr>
                       else st)
            in st1\<lparr>il_sw_if_index := sw, il_n_packets := 1, il_n_bytes := of_nat len0\<rparr>)"

definition input_account :: "input_result \<Rightarrow> input_loop \<Rightarrow> input_loop" where
  "input_account r st =
     (let st1 = input_account_rx (ir_stats r) st;
          st2 = (if ir_next r = L2TVPP_INPUT_NEXT_DROP then st1
                 else st1\<lparr>il_counts := (il_counts st1)(ir_error r := il_counts st1 (ir_error r) + 1)\<rparr>);
          st3 = (if VLIB_BUFFER_IS_TRACED \<in> b_flags (ir_buffer r)
                 then st2\<lparr>il_traces := il_traces st2 @
                   [\<lparr>tr_session_index = ir_session_index r, tr_sw_if_index = b_rx (ir_buffer r),
                     tr_tunnel_id = ir_tid r, tr_session_id = ir_sid r,
                     tr_ppp_proto = ir_ppp_proto r, tr_next = ir_next r\<rparr>]\<rparr>
                 else st2)
      in st3\<lparr>il_out := il_out st3 @ [(ir_buffer r, ir_next r)]\<rparr>)"

fun l2tvpp_input_loop ::
  "bool \<Rightarrow> (u64 \<Rightarrow> u64 option) \<Rightarrow> (u32 \<Rightarrow> l2tvpp_session option) \<Rightarrow> vlib_buffer list \<Rightarrow> input_loop
     \<Rightarrow> input_loop option" where
  "l2tvpp_input_loop ncs lookup elt [] st = Some st"
| "l2tvpp_input_loop ncs lookup elt (b # bs) st =
     (case l2tvpp_input_packet ncs lookup elt b of
        None \<Rightarrow> None
      | Some r \<Rightarrow> l2tvpp_input_loop ncs lookup elt bs (input_account r st))"

definition input_loop_start :: input_loop where
  "input_loop_start = \<lparr>il_counts = (\<lambda>_. 0), il_sw_if_index = - 1, il_n_packets = 0, il_n_bytes = 0,
     il_increments = [], il_out = [], il_traces = []\<rparr>"

record input_effects =
  ie_out :: "(vlib_buffer \<times> l2tvpp_input_next) list"
  ie_rx_increments :: "(u32 \<times> u32 \<times> u32) list"
  ie_node_counters :: "(l2tvpp_input_error \<times> u32) list"
  ie_traces :: "l2tvpp_input_trace list"

definition input_finish :: "input_loop \<Rightarrow> input_effects" where
  "input_finish st =
     \<lparr>ie_out = il_out st,
      ie_rx_increments = il_increments st @
        (if il_n_packets st \<noteq> 0 then [(il_sw_if_index st, il_n_packets st, il_n_bytes st)] else []),
      ie_node_counters = map (\<lambda>e. (e, il_counts st e)) (filter (\<lambda>e. il_counts st e \<noteq> 0) enum_class.enum),
      ie_traces = il_traces st\<rparr>"

definition l2tvpp_input_node ::
  "'h bihash_8_8 \<Rightarrow> 'h l2tvpp_main \<Rightarrow> vlib_buffer list \<Rightarrow> input_effects option" where
  "l2tvpp_input_node bh lm frame =
     map_option input_finish
       (l2tvpp_input_loop (inner_ip4_no_checksum lm) (bh_search bh (session_by_key lm))
          (pool_elt (sessions lm)) frame input_loop_start)"

section \<open>No fault on any packet\<close>

lemma input_skip_no_fault:
  assumes "len \<le> length start"
  shows "l2tvpp_input_skip start len flags off \<noteq> None"
  using assms by (auto simp: l2tvpp_input_skip_def Let_def rd_simps)

lemma input_skip_room:
  assumes "l2tvpp_input_skip start len flags off = Some (Walk_to cur err)"
  shows "off \<le> cur" and "cur + 4 \<le> len"
  using assms by (auto simp: l2tvpp_input_skip_def Let_def bind_eq_Some_conv split: if_splits)

lemma input_ppp_eq:
  assumes "cur + 4 \<le> length start"
  shows "l2tvpp_input_ppp start cur = Some
    (let cur1 = (if start ! cur = 0xff \<and> start ! (cur + 1) = 0x03 then cur + 2 else cur);
         p0 = start ! cur1
     in if p0 AND 1 \<noteq> 0 then (ucast p0, cur1 + 1) else (be16 p0 (start ! (cur1 + 1)), cur1 + 2))"
  using assms
  by (cases "start ! cur = 0xff"; cases "start ! (cur + 1) = 0x03")
    (simp_all add: input_ppp_defs Let_def rd_simps)

lemma input_ppp_defined:
  assumes "cur + 4 \<le> length start"
  obtains p c where "l2tvpp_input_ppp start cur = Some (p, c)" and "cur < c" and "c \<le> cur + 4"
proof -
  obtain p c where pc: "l2tvpp_input_ppp start cur = Some (p, c)"
    using input_ppp_eq [OF assms] by (metis surj_pair)
  moreover from pc have "cur < c \<and> c \<le> cur + 4"
    using input_ppp_eq [OF assms] by (auto simp: Let_def split: if_splits)
  ultimately show thesis using that by blast
qed

text \<open>What one packet can come to: the four outcomes of the node.\<close>

lemma input_packet_cases:
  assumes wf: "wf_buffer b"
    and live: "\<And>k v. lookup k = Some v \<Longrightarrow> elt (ucast v) \<noteq> None"
  obtains (drop) tid sid where "l2tvpp_input_packet ncs lookup elt b = Some (input_drop b tid sid)"
  | (punt) err si tid sid ppp where
      "l2tvpp_input_packet ncs lookup elt b = Some (input_punt b err si tid sid ppp)"
      "err \<in> {PUNT_UNSUPPORTED, PUNT_CONTROL, PUNT_NO_SESSION, PUNT_PPP_PROTO}"
  | (decap) flags tid sid off cur err v sess ppp cur2 nxt where
      "l2tvpp_input_packet ncs lookup elt b =
         Some (input_decap b nxt err (ucast v) tid sid ppp cur2 sess)"
      "l2tvpp_parse_hdr (cur_bytes b) (b_current_length b) = Some (L2TVPP_HDR_DATA flags tid sid off)"
      "l2tvpp_input_skip (cur_bytes b) (b_current_length b) flags off = Some (Walk_to cur err)"
      "lookup (l2tvpp_session_key tid sid) = Some v" "elt (ucast v) = Some sess"
      "l2tvpp_input_ppp (cur_bytes b) cur = Some (ppp, cur2)"
      "nxt = (if ppp = PPP_PROTO_IP4 then if ncs then L2TVPP_INPUT_NEXT_IP4_INPUT_NCS
                 else L2TVPP_INPUT_NEXT_IP4_INPUT else L2TVPP_INPUT_NEXT_IP6_INPUT)"
      "ppp \<in> {PPP_PROTO_IP4, PPP_PROTO_IP6}" "cur2 \<le> b_current_length b"
proof -
  have len: "b_current_length b \<le> length (cur_bytes b)" using wf by simp
  obtain rc where rc: "l2tvpp_parse_hdr (cur_bytes b) (b_current_length b) = Some rc"
    using parse_hdr_no_fault [OF len] by auto
  show thesis
  proof (cases rc)
    case L2TVPP_HDR_TOO_SHORT
    with rc show ?thesis by (intro drop) (simp add: l2tvpp_input_packet_def)
  next
    case L2TVPP_HDR_NOT_V2
    with rc show ?thesis
      by (intro punt [of PUNT_UNSUPPORTED]) (simp_all add: l2tvpp_input_packet_def)
  next
    case L2TVPP_HDR_CONTROL
    with rc show ?thesis
      by (intro punt [of PUNT_CONTROL]) (simp_all add: l2tvpp_input_packet_def)
  next
    case (L2TVPP_HDR_DATA flags tid sid off)
    note rc = rc [unfolded L2TVPP_HDR_DATA]
    obtain w where w: "l2tvpp_input_skip (cur_bytes b) (b_current_length b) flags off = Some w"
      using input_skip_no_fault [OF len] by auto
    show ?thesis
    proof (cases w)
      case Walk_too_short
      with rc w show ?thesis by (intro drop) (simp add: l2tvpp_input_packet_def)
    next
      case (Walk_to cur err)
      note w = w [unfolded Walk_to]
      have "cur + 4 \<le> length (cur_bytes b)"
        using input_skip_room(2) [OF w] len by simp
      then obtain ppp cur2 where p: "l2tvpp_input_ppp (cur_bytes b) cur = Some (ppp, cur2)"
        and c: "cur2 \<le> cur + 4"
        by (rule input_ppp_defined)
      show ?thesis
      proof (cases "lookup (l2tvpp_session_key tid sid)")
        case None
        with rc w show ?thesis
          by (intro punt [of PUNT_NO_SESSION]) (simp_all add: l2tvpp_input_packet_def)
      next
        case (Some v)
        then obtain sess where e: "elt (ucast v) = Some sess"
          using live by blast
        show ?thesis
        proof (cases "ppp \<in> {PPP_PROTO_IP4, PPP_PROTO_IP6}")
          case True
          then show ?thesis
            using rc w Some e p c input_skip_room(2) [OF w]
            by (intro decap [OF _ rc w Some e p refl]) (auto simp: l2tvpp_input_packet_def PPP_PROTO_IP4_def PPP_PROTO_IP6_def)
        next
          case False
          with rc w Some p show ?thesis
            by (intro punt [of PUNT_PPP_PROTO]) (simp_all add: l2tvpp_input_packet_def)
        qed
      qed
    qed
  qed
qed

context session_store
begin

lemma packet_no_fault:
  assumes "ok s" and "wf_buffer b"
  shows "l2tvpp_input_packet ncs (lookup s) (elt s) b \<noteq> None"
proof -
  have "elt s (ucast v) \<noteq> None" if "lookup s k = Some v" for k v
    using lookup_live [OF assms(1) that] by auto
  then show ?thesis
    by (rule input_packet_cases [OF assms(2), where ncs = ncs and lookup = "lookup s" and elt = "elt s"]) simp_all
qed

text \<open>A frame is processed packet by packet, in order, without a fault.\<close>

lemma loop_results:
  assumes "ok s" and "\<forall>b \<in> set frame. wf_buffer b"
  obtains rs where "list_all2 (\<lambda>b r. l2tvpp_input_packet ncs (lookup s) (elt s) b = Some r) frame rs"
    and "\<And>st. l2tvpp_input_loop ncs (lookup s) (elt s) frame st = Some (fold input_account rs st)"
  using assms(2)
proof (induction frame arbitrary: thesis)
  case Nil
  then show ?case by simp
next
  case (Cons b frame)
  obtain r where r: "l2tvpp_input_packet ncs (lookup s) (elt s) b = Some r"
    using packet_no_fault [OF assms(1), of b ncs] Cons.prems(2) by auto
  obtain rs where "list_all2 (\<lambda>b r. l2tvpp_input_packet ncs (lookup s) (elt s) b = Some r) frame rs"
    and "\<And>st. l2tvpp_input_loop ncs (lookup s) (elt s) frame st = Some (fold input_account rs st)"
    using Cons.IH Cons.prems(2) by auto
  with r Cons.prems(1) [of "r # rs"] show ?case by simp
qed

text \<open>Only a live session with the packet's own key receives decapsulated traffic.\<close>

lemma decap_own_session:
  assumes "ok s" and "wf_buffer b" and "l2tvpp_input_packet ncs (lookup s) (elt s) b = Some r"
    and "ir_stats r = Some (sw, n)"
  shows "\<exists>sess. elt s (ir_session_index r) = Some sess
    \<and> sess_key sess = l2tvpp_session_key (ir_tid r) (ir_sid r) \<and> s_sw_if_index sess = sw"
proof -
  have "elt s (ucast v) \<noteq> None" if "lookup s k = Some v" for k v
    using lookup_live [OF assms(1) that] by auto
  then show ?thesis
  proof (rule input_packet_cases [OF assms(2), where ncs = ncs and lookup = "lookup s" and elt = "elt s"])
    fix flags tid sid off cur err v sess ppp cur2 nxt
    assume "l2tvpp_input_packet ncs (lookup s) (elt s) b =
        Some (input_decap b nxt err (ucast v) tid sid ppp cur2 sess)"
      and v: "lookup s (l2tvpp_session_key tid sid) = Some v" "elt s (ucast v) = Some sess"
    then have "r = input_decap b nxt err (ucast v) tid sid ppp cur2 sess"
      using assms(3) by simp
    with v assms(4) lookup_live [OF assms(1) v(1)] show ?thesis by (auto simp: result_simps)
  qed (use assms(3,4) in \<open>auto simp: result_simps\<close>)
qed

end

section \<open>Accounting\<close>

text \<open>Totals the counter increments add up to, per interface.\<close>

definition rx_packets :: "(u32 \<times> u32 \<times> u32) list \<Rightarrow> u32 \<Rightarrow> nat" where
  "rx_packets incs sw = sum_list (map (\<lambda>(i, n, m). if i = sw then unat n else 0) incs)"

definition rx_bytes :: "(u32 \<times> u32 \<times> u32) list \<Rightarrow> u32 \<Rightarrow> nat" where
  "rx_bytes incs sw = sum_list (map (\<lambda>(i, n, m). if i = sw then unat m else 0) incs)"

text \<open>What an unbatched loop would add for one packet.\<close>

definition stat_packets :: "u32 \<Rightarrow> input_result \<Rightarrow> nat" where
  "stat_packets sw r = (case ir_stats r of Some (i, n) \<Rightarrow> if i = sw then 1 else 0 | None \<Rightarrow> 0)"

definition stat_bytes :: "u32 \<Rightarrow> input_result \<Rightarrow> nat" where
  "stat_bytes sw r = (case ir_stats r of Some (i, n) \<Rightarrow> if i = sw then n else 0 | None \<Rightarrow> 0)"

definition result_length :: "input_result \<Rightarrow> nat" where
  "result_length r = (case ir_stats r of Some (i, n) \<Rightarrow> n | None \<Rightarrow> 0)"

definition batch_ok :: "input_loop \<Rightarrow> bool" where
  "batch_ok st \<longleftrightarrow> (il_n_packets st = 0 \<longrightarrow> il_n_bytes st = 0)"

lemma account_frame [simp]:
  "il_sw_if_index (input_account r st) = il_sw_if_index (input_account_rx (ir_stats r) st)"
  "il_n_packets (input_account r st) = il_n_packets (input_account_rx (ir_stats r) st)"
  "il_n_bytes (input_account r st) = il_n_bytes (input_account_rx (ir_stats r) st)"
  "il_increments (input_account r st) = il_increments (input_account_rx (ir_stats r) st)"
  by (simp_all add: input_account_def Let_def)

lemma account_rx_frame [simp]:
  "il_counts (input_account_rx x st) = il_counts st"
  "il_out (input_account_rx x st) = il_out st"
  by (simp_all add: input_account_rx_def Let_def split: option.split)

lemma account_out: "il_out (input_account r st) = il_out st @ [(ir_buffer r, ir_next r)]"
  by (simp add: input_account_def Let_def)

lemma fold_account_out:
  "il_out (fold input_account rs st) = il_out st @ map (\<lambda>r. (ir_buffer r, ir_next r)) rs"
  by (induction rs arbitrary: st) (simp_all add: account_out)

lemma finish_rx:
  "rx_packets (ie_rx_increments (input_finish st)) sw =
     rx_packets (il_increments st) sw + (if il_sw_if_index st = sw then unat (il_n_packets st) else 0)"
  "batch_ok st \<Longrightarrow> rx_bytes (ie_rx_increments (input_finish st)) sw =
     rx_bytes (il_increments st) sw + (if il_sw_if_index st = sw then unat (il_n_bytes st) else 0)"
  by (simp_all add: input_finish_def rx_packets_def rx_bytes_def batch_ok_def)

lemma account_step:
  assumes "batch_ok st" and "unat (il_n_packets st) + 1 < 2 ^ 32"
    and "unat (il_n_bytes st) + result_length r < 2 ^ 32"
  shows "batch_ok (input_account r st)"
    and "unat (il_n_packets (input_account r st)) \<le> unat (il_n_packets st) + 1"
    and "unat (il_n_bytes (input_account r st)) \<le> unat (il_n_bytes st) + result_length r"
    and "rx_packets (ie_rx_increments (input_finish (input_account r st))) sw =
      rx_packets (ie_rx_increments (input_finish st)) sw + stat_packets sw r"
    and "rx_bytes (ie_rx_increments (input_finish (input_account r st))) sw =
      rx_bytes (ie_rx_increments (input_finish st)) sw + stat_bytes sw r"
proof -
  have add: "unat (il_n_packets st + 1) = unat (il_n_packets st) + 1"
    "unat (il_n_bytes st + of_nat (result_length r)) = unat (il_n_bytes st) + result_length r"
    "unat (of_nat (result_length r) :: u32) = result_length r"
    using assms(2,3) by (simp_all add: unat_word_ariths unat_of_nat)
  then have nz: "il_n_packets st + 1 \<noteq> 0"
    by (metis add_is_0 one_neq_zero unsigned_0)
  show ok: "batch_ok (input_account r st)"
    using assms(1) nz
    by (auto simp: batch_ok_def input_account_rx_def Let_def split: option.splits)
  show "unat (il_n_packets (input_account r st)) \<le> unat (il_n_packets st) + 1"
    using add by (auto simp: input_account_rx_def Let_def split: option.splits)
  show "unat (il_n_bytes (input_account r st)) \<le> unat (il_n_bytes st) + result_length r"
    using add by (auto simp: input_account_rx_def Let_def result_length_def split: option.splits)
  show "rx_packets (ie_rx_increments (input_finish (input_account r st))) sw =
      rx_packets (ie_rx_increments (input_finish st)) sw + stat_packets sw r"
    using add unfolding finish_rx(1)
    by (auto simp: input_account_rx_def Let_def rx_packets_def stat_packets_def split: option.splits)
  show "rx_bytes (ie_rx_increments (input_finish (input_account r st))) sw =
      rx_bytes (ie_rx_increments (input_finish st)) sw + stat_bytes sw r"
    using add assms(1) unfolding finish_rx(2) [OF ok] finish_rx(2) [OF assms(1)]
    by (auto simp: input_account_rx_def Let_def rx_bytes_def stat_bytes_def result_length_def
        batch_ok_def split: option.splits)
qed

lemma fold_account_rx:
  assumes "batch_ok st" and "unat (il_n_packets st) + length rs < 2 ^ 32"
    and "unat (il_n_bytes st) + sum_list (map result_length rs) < 2 ^ 32"
  shows "rx_packets (ie_rx_increments (input_finish (fold input_account rs st))) sw =
      rx_packets (ie_rx_increments (input_finish st)) sw + sum_list (map (stat_packets sw) rs)
    \<and> rx_bytes (ie_rx_increments (input_finish (fold input_account rs st))) sw =
      rx_bytes (ie_rx_increments (input_finish st)) sw + sum_list (map (stat_bytes sw) rs)"
  using assms
proof (induction rs arbitrary: st)
  case (Cons r rs)
  let ?st = "input_account r st"
  have pre: "unat (il_n_packets st) + 1 < 2 ^ 32" "unat (il_n_bytes st) + result_length r < 2 ^ 32"
    using Cons.prems by simp_all
  note step = account_step [OF Cons.prems(1) pre]
  have "batch_ok ?st" "unat (il_n_packets ?st) + length rs < 2 ^ 32"
    "unat (il_n_bytes ?st) + sum_list (map result_length rs) < 2 ^ 32"
    using step(1-3) Cons.prems by simp_all
  with Cons.IH [of ?st] step(4,5) show ?case by simp
qed simp

lemma fold_account_counts:
  assumes "unat (il_counts st e) + length rs < 2 ^ 32"
  shows "unat (il_counts (fold input_account rs st) e) = unat (il_counts st e) +
    length (filter (\<lambda>r. ir_next r \<noteq> L2TVPP_INPUT_NEXT_DROP \<and> ir_error r = e) rs)"
  using assms
proof (induction rs arbitrary: st)
  case (Cons r rs)
  have "unat (il_counts (input_account r st) e) = unat (il_counts st e) +
      (if ir_next r \<noteq> L2TVPP_INPUT_NEXT_DROP \<and> ir_error r = e then 1 else 0)"
    using Cons.prems by (simp add: input_account_def Let_def unat_word_ariths)
  with Cons show ?case by simp
qed simp

section \<open>Every RFC 2661 data header, every PPP framing\<close>

text \<open>Specification: the PPP header with address/control or protocol field compression.\<close>

definition ppp_encode :: "bool \<Rightarrow> bool \<Rightarrow> u16 \<Rightarrow> bytes" where
  "ppp_encode acfc pfc proto =
     (if acfc then [] else [0xff, 0x03]) @ (if pfc then [ucast proto] else put16 proto)"

definition rfc_offset_ok :: "rfc_hdr \<Rightarrow> bool" where
  "rfc_offset_ok h \<longleftrightarrow> (case rh_offset h of None \<Rightarrow> True | Some pad \<Rightarrow> length pad < 65536)"

definition rfc_decap_counter :: "rfc_hdr \<Rightarrow> l2tvpp_input_error" where
  "rfc_decap_counter h = (if rh_offset h \<noteq> None then DECAP_OFF
     else if rh_seq h \<noteq> None then DECAP_SEQ else DECAP)"

lemma input_skip_rfc:
  assumes "rfc_offset_ok h" and "4 \<le> length xs"
  shows "l2tvpp_input_skip (rfc_encode h @ xs) (length (rfc_encode h @ xs)) (rfc_flags h)
      (length (rfc_fixed h)) = Some (Walk_to (length (rfc_encode h)) (rfc_decap_counter h))"
proof (cases "rh_offset h")
  case None
  with assms show ?thesis
    by (auto simp: l2tvpp_input_skip_def rfc_encode_def rfc_optional_def rfc_decap_counter_def
        split: option.split)
next
  case (Some pad)
  define pre where "pre = rfc_fixed h @ (case rh_seq h of None \<Rightarrow> [] | Some (ns, nr) \<Rightarrow> put16 ns @ put16 nr)"
  have enc: "rfc_encode h @ xs = pre @ put16 (of_nat (length pad)) @ pad @ xs"
    using Some by (simp add: pre_def rfc_encode_def rfc_optional_def)
  have pre: "length pre = (if rfc_flags h AND L2TVPP_HDR_S \<noteq> 0 then length (rfc_fixed h) + 4
      else length (rfc_fixed h))"
    by (auto simp: pre_def split: option.split)
  have "rd16 (rfc_encode h @ xs) (length pre) = Some (of_nat (length pad))"
    using rd16_append_right [of pre _ 0] by (simp add: enc)
  moreover have "unat (of_nat (length pad) :: u16) = length pad"
    using assms(1) Some by (simp add: rfc_offset_ok_def unat_of_nat)
  moreover have "length (rfc_encode h) = length pre + 2 + length pad"
    using arg_cong [OF enc, of length] by simp
  moreover have "rfc_flags h AND L2TVPP_HDR_O \<noteq> 0" using Some by simp
  ultimately show ?thesis
    unfolding l2tvpp_input_skip_def Let_def pre [symmetric]
    using assms(2) Some by (simp add: rfc_decap_counter_def)
qed

lemma skip_address_control_shift:
  "ppp_skip_address_control (pre @ xs) (length pre + k) =
     map_option ((+) (length pre)) (ppp_skip_address_control xs k)"
  using rd8_append_right [of pre xs "Suc k"]
  by (auto simp: ppp_skip_address_control_def rd8_append_right add.assoc split: Option.bind_splits)

lemma read_protocol_shift:
  "ppp_read_protocol (pre @ xs) (length pre + k) =
     map_option (\<lambda>(p, c). (p, length pre + c)) (ppp_read_protocol xs k)"
  by (auto simp: ppp_read_protocol_def rd8_append_right rd16_append_right split: Option.bind_splits)

lemma input_ppp_shift:
  "l2tvpp_input_ppp (pre @ xs) (length pre + k) =
     map_option (\<lambda>(p, c). (p, length pre + c)) (l2tvpp_input_ppp xs k)"
  by (cases "ppp_skip_address_control xs k")
    (simp_all add: l2tvpp_input_ppp_def skip_address_control_shift read_protocol_shift)

lemma input_ppp_encode:
  assumes "proto = PPP_PROTO_IP4 \<or> proto = PPP_PROTO_IP6"
  shows "l2tvpp_input_ppp (pre @ ppp_encode acfc pfc proto @ inner) (length pre) =
    Some (proto, length pre + length (ppp_encode acfc pfc proto))"
proof -
  have "l2tvpp_input_ppp (ppp_encode acfc pfc proto @ inner) 0 =
      Some (proto, length (ppp_encode acfc pfc proto))"
    using assms
    by (elim disjE; cases acfc; cases pfc)
      (simp_all add: input_ppp_defs ppp_encode_def PPP_PROTO_IP4_def PPP_PROTO_IP6_def put16_def
        rd16_def rd8_def be16_def)
  then show ?thesis
    using input_ppp_shift [of pre _ 0] by simp
qed

end
