(* ===== verification/Decap_Properties.thy ===== *)
theory Decap_Properties
  imports Decap_Node
begin

text \<open>
  What \<open>l2tvpp-input\<close> guarantees in every state the control plane can reach: no fault on any
  frame, delivery of every RFC 2661 data header to the session it names, isolation of sessions,
  restoration of punted packets, and exact accounting.
\<close>

section \<open>Frames through the node\<close>

definition delivered :: "l2tvpp_input_next \<Rightarrow> bool" where
  "delivered n \<longleftrightarrow> n \<noteq> L2TVPP_INPUT_NEXT_PUNT \<and> n \<noteq> L2TVPP_INPUT_NEXT_DROP"

abbreviation node_packet :: "'h bihash_8_8 \<Rightarrow> 'h l2tvpp_main \<Rightarrow> vlib_buffer \<Rightarrow> input_result option" where
  "node_packet bh lm \<equiv> l2tvpp_input_packet (inner_ip4_no_checksum lm) (bh_search bh (session_by_key lm))
     (pool_elt (sessions lm))"

lemma node_results:
  assumes "objects_inv bh lm" and "\<forall>b \<in> set frame. wf_buffer b"
  obtains rs where "list_all2 (\<lambda>b r. node_packet bh lm b = Some r) frame rs"
    and "l2tvpp_input_node bh lm frame = Some (input_finish (fold input_account rs input_loop_start))"
proof -
  obtain rs where "list_all2 (\<lambda>b r. node_packet bh lm b = Some r) frame rs"
    and "\<And>st. l2tvpp_input_loop (inner_ip4_no_checksum lm) (bh_search bh (session_by_key lm))
      (pool_elt (sessions lm)) frame st = Some (fold input_account rs st)"
    using objs.loop_results [of "(bh, lm)" frame "inner_ip4_no_checksum lm"] assms by auto
  then show thesis
    using that [of rs] by (simp add: l2tvpp_input_node_def)
qed

lemma node_packet_cases:
  assumes "objects_inv bh lm" and "wf_buffer b" and "node_packet bh lm b = Some r"
  obtains (drop) tid sid where "r = input_drop b tid sid"
  | (punt) err si tid sid ppp where "r = input_punt b err si tid sid ppp" "err \<noteq> TOO_SHORT"
  | (decap) nxt err si tid sid ppp cur sess where "r = input_decap b nxt err si tid sid ppp cur sess"
      "delivered nxt" "cur \<le> b_current_length b" "err \<in> {DECAP, DECAP_SEQ, DECAP_OFF}"
proof -
  have live: "pool_elt (sessions lm) (ucast v) \<noteq> None"
    if "bh_search bh (session_by_key lm) k = Some v" for k v
    using session_found_live [OF assms(1) that] by auto
  show thesis
  proof (rule input_packet_cases [OF assms(2), where ncs = "inner_ip4_no_checksum lm"
        and lookup = "bh_search bh (session_by_key lm)" and elt = "pool_elt (sessions lm)"],
      goal_cases live dr pu decap)
    case (decap flags tid sid off cur err v sess ppp cur2 nxt)
    have "err \<in> {DECAP, DECAP_SEQ, DECAP_OFF}"
      using decap(3) by (auto simp: l2tvpp_input_skip_def Let_def bind_eq_Some_conv split: if_splits)
    moreover have "delivered nxt"
      using decap(7) by (simp add: delivered_def split: if_splits)
    ultimately show ?thesis
      using decap(1,9) assms(3) by (intro that(3)) auto
  qed (use live assms(3) that(1,2) in auto)
qed

lemma finish_out [simp]:
  "ie_out (input_finish (fold input_account rs input_loop_start)) = map (\<lambda>r. (ir_buffer r, ir_next r)) rs"
  by (simp add: input_finish_def fold_account_out) (simp add: input_loop_start_def)

text \<open>What accounting and tracing need to know of one result.\<close>

definition result_ok :: "vlib_buffer \<Rightarrow> input_result \<Rightarrow> bool" where
  "result_ok b r \<longleftrightarrow> ir_stats r = (if delivered (ir_next r)
       then Some (b_rx (ir_buffer r), vlib_buffer_length_in_chain (ir_buffer r)) else None)
     \<and> result_length r \<le> vlib_buffer_length_in_chain b
     \<and> b_mem (ir_buffer r) = b_mem b
     \<and> (ir_next r = L2TVPP_INPUT_NEXT_DROP \<longleftrightarrow> ir_error r = TOO_SHORT)"

lemma packet_result_ok:
  assumes "objects_inv bh lm" and "wf_buffer b" and "node_packet bh lm b = Some r"
  shows "result_ok b r"
  by (rule node_packet_cases [OF assms])
    (auto simp: result_ok_def result_simps delivered_def result_length_def
      vlib_buffer_length_in_chain_def vlib_buffer_advance_def l2tvpp_rewind_to_ip_def)

lemma node_results_ok:
  assumes "objects_inv bh lm" and "\<forall>b \<in> set frame. wf_buffer b"
  obtains rs where "list_all2 result_ok frame rs"
    and "l2tvpp_input_node bh lm frame = Some (input_finish (fold input_account rs input_loop_start))"
proof -
  obtain rs where rs: "list_all2 (\<lambda>b r. node_packet bh lm b = Some r) frame rs"
    and "l2tvpp_input_node bh lm frame = Some (input_finish (fold input_account rs input_loop_start))"
    using node_results [OF assms] by blast
  moreover have "list_all2 result_ok frame rs"
    using rs assms(2) by (induction rule: list_all2_induct) (auto intro: packet_result_ok [OF assms(1)])
  ultimately show thesis using that by blast
qed

lemma result_ok_length_sum:
  assumes "list_all2 result_ok frame rs"
  shows "sum_list (map result_length rs) \<le> sum_list (map vlib_buffer_length_in_chain frame)"
  using assms by (induction rule: list_all2_induct) (auto simp: result_ok_def)

text \<open>The unbatched totals, read off the buffers the node hands on.\<close>

lemma stat_totals:
  assumes "list_all2 result_ok frame rs"
  shows "sum_list (map (stat_packets sw) rs) =
      length (filter (\<lambda>(b, n). delivered n \<and> b_rx b = sw) (map (\<lambda>r. (ir_buffer r, ir_next r)) rs))
    \<and> sum_list (map (stat_bytes sw) rs) =
      sum_list (map (\<lambda>(b, n). vlib_buffer_length_in_chain b)
        (filter (\<lambda>(b, n). delivered n \<and> b_rx b = sw) (map (\<lambda>r. (ir_buffer r, ir_next r)) rs)))"
  using assms
  by (induction rule: list_all2_induct) (auto simp: result_ok_def stat_packets_def stat_bytes_def)

lemma frame_bytes_bound:
  assumes "length frame \<le> 256" and "\<forall>b \<in> set frame. vlib_buffer_length_in_chain b < 2 ^ 24"
  shows "sum_list (map vlib_buffer_length_in_chain frame) < 2 ^ 32"
proof -
  have "sum_list (map vlib_buffer_length_in_chain frame) \<le> length frame * (2 ^ 24 - 1)"
    using assms(2) by (induction frame) auto
  also have "\<dots> \<le> 256 * (2 ^ 24 - 1)" using assms(1) by (intro mult_right_mono) simp_all
  finally show ?thesis by simp
qed

lemma node_rx_totals:
  assumes "list_all2 result_ok frame rs" and "length frame \<le> 256"
    and "\<forall>b \<in> set frame. vlib_buffer_length_in_chain b < 2 ^ 24"
  shows "rx_packets (ie_rx_increments (input_finish (fold input_account rs input_loop_start))) sw =
      sum_list (map (stat_packets sw) rs)"
    and "rx_bytes (ie_rx_increments (input_finish (fold input_account rs input_loop_start))) sw =
      sum_list (map (stat_bytes sw) rs)"
proof -
  have "batch_ok input_loop_start" "unat (il_n_packets input_loop_start) + length rs < 2 ^ 32"
    "unat (il_n_bytes input_loop_start) + sum_list (map result_length rs) < 2 ^ 32"
    using result_ok_length_sum [OF assms(1)] frame_bytes_bound [OF assms(2,3)] assms(2)
    by (simp_all add: batch_ok_def input_loop_start_def list_all2_lengthD [OF assms(1)])
  from fold_account_rx [OF this, of sw]
  show "rx_packets (ie_rx_increments (input_finish (fold input_account rs input_loop_start))) sw =
      sum_list (map (stat_packets sw) rs)"
    and "rx_bytes (ie_rx_increments (input_finish (fold input_account rs input_loop_start))) sw =
      sum_list (map (stat_bytes sw) rs)"
    by (simp_all add: input_finish_def input_loop_start_def rx_packets_def rx_bytes_def)
qed

lemma node_counter_total:
  assumes "list_all2 result_ok frame rs" and "length frame \<le> 256"
  shows "sum_list (map (unat \<circ> snd) (ie_node_counters (input_finish (fold input_account rs input_loop_start))))
    + length (filter (\<lambda>(b, n). n = L2TVPP_INPUT_NEXT_DROP) (map (\<lambda>r. (ir_buffer r, ir_next r)) rs)) =
    length frame"
proof -
  have cnt: "unat (il_counts (fold input_account rs input_loop_start) e) =
      length (filter (\<lambda>r. ir_next r \<noteq> L2TVPP_INPUT_NEXT_DROP \<and> ir_error r = e) rs)" for e
    using fold_account_counts [of input_loop_start e rs] assms
    by (simp add: input_loop_start_def list_all2_lengthD [OF assms(1)])
  have "sum_list (map (\<lambda>e. length (filter (\<lambda>r. ir_next r \<noteq> L2TVPP_INPUT_NEXT_DROP \<and> ir_error r = e) rs))
      enum_class.enum) = length (filter (\<lambda>r. ir_next r \<noteq> L2TVPP_INPUT_NEXT_DROP) rs)"
  proof (induction rs)
    case (Cons r rs)
    then show ?case
      by (cases "ir_error r") (simp_all add: enum_l2tvpp_input_error_def)
  qed (simp add: enum_l2tvpp_input_error_def)
  moreover have "sum_list (map (unat \<circ> snd) (ie_node_counters (input_finish st))) =
      sum_list (map (\<lambda>e. unat (il_counts st e)) enum_class.enum)" for st
    unfolding input_finish_def by (simp add: comp_def) (rule sum_list_map_filter, simp)
  moreover have "length (filter (\<lambda>(b, n). n = L2TVPP_INPUT_NEXT_DROP)
      (map (\<lambda>r. (ir_buffer r, ir_next r)) rs)) = length (filter (\<lambda>r. \<not> ir_next r \<noteq> L2TVPP_INPUT_NEXT_DROP) rs)"
    by (simp add: filter_map comp_def)
  ultimately show ?thesis
    using sum_length_filter_compl [of "\<lambda>r. ir_next r \<noteq> L2TVPP_INPUT_NEXT_DROP" rs]
    by (simp add: cnt list_all2_lengthD [OF assms(1)])
qed

text \<open>The node on a packet of the reference encoder.\<close>

definition input_next :: "bool \<Rightarrow> u16 \<Rightarrow> l2tvpp_input_next" where
  "input_next ncs proto = (if proto = PPP_PROTO_IP6 then L2TVPP_INPUT_NEXT_IP6_INPUT
     else if ncs then L2TVPP_INPUT_NEXT_IP4_INPUT_NCS else L2TVPP_INPUT_NEXT_IP4_INPUT)"

lemma packet_rfc:
  assumes "objects_inv bh lm" and "wf_buffer b" and "rfc_offset_ok h" and "3 \<le> length inner"
    and "cur_bytes b = rfc_encode h @ ppp_encode acfc pfc proto @ inner"
    and "proto = PPP_PROTO_IP4 \<or> proto = PPP_PROTO_IP6"
    and "pool_elt (sessions lm) si = Some s" and "s_local_tid s = rh_tid h" and "s_local_sid s = rh_sid h"
  shows "node_packet bh lm b = Some (input_decap b (input_next (inner_ip4_no_checksum lm) proto)
    (rfc_decap_counter h) si (rh_tid h) (rh_sid h) proto
    (length (rfc_encode h) + length (ppp_encode acfc pfc proto)) s)"
proof -
  define ppp where "ppp = ppp_encode acfc pfc proto"
  let ?n = "length (rfc_encode h) + length ppp"
  have len: "b_current_length b = length (rfc_encode h @ ppp @ inner)"
    using assms(2,5) length_cur_bytes [of b] by (simp add: ppp_def)
  have bytes: "cur_bytes b = rfc_encode h @ ppp @ inner" using assms(5) by (simp add: ppp_def)
  have parse: "l2tvpp_parse_hdr (cur_bytes b) (b_current_length b) =
      Some (L2TVPP_HDR_DATA (rfc_flags h) (rh_tid h) (rh_sid h) (length (rfc_fixed h)))"
    using parse_rfc_fixed [of h "rfc_optional h @ ppp @ inner"] by (simp add: bytes len rfc_encode_def)
  have "4 \<le> length (ppp @ inner)"
    using assms(4) by (simp add: ppp_def ppp_encode_def)
  then have skip: "l2tvpp_input_skip (cur_bytes b) (b_current_length b) (rfc_flags h) (length (rfc_fixed h)) =
      Some (Walk_to (length (rfc_encode h)) (rfc_decap_counter h))"
    using input_skip_rfc [OF assms(3), of "ppp @ inner"] by (simp add: bytes len)
  have ppp: "l2tvpp_input_ppp (cur_bytes b) (length (rfc_encode h)) = Some (proto, ?n)"
    using input_ppp_encode [OF assms(6), of "rfc_encode h" acfc pfc inner] by (simp add: bytes ppp_def)
  have found: "bh_search bh (session_by_key lm) (l2tvpp_session_key (rh_tid h) (rh_sid h)) = Some (ucast si)"
    using objs.live_lookup [of "(bh, lm)" si s] assms(1,7,8,9) by (simp add: sess_key_def)
  show ?thesis
    using assms(6)
    by (elim disjE) (simp_all add: l2tvpp_input_packet_def parse skip found ppp assms(7) input_next_def
        ppp_def PPP_PROTO_IP4_def PPP_PROTO_IP6_def)
qed

lemma packet_rfc_bytes:
  assumes "wf_buffer b" and "cur_bytes b = rfc_encode h @ ppp_encode acfc pfc proto @ inner"
  shows "cur_bytes (vlib_buffer_advance b
    (int (length (rfc_encode h) + length (ppp_encode acfc pfc proto)))) = inner"
proof -
  have "b_current_length b = length (rfc_encode h @ ppp_encode acfc pfc proto @ inner)"
    using length_cur_bytes [OF assms(1)] by (simp add: assms(2))
  then show ?thesis
    using cur_bytes_advance(1) [OF assms(1),
        of "length (rfc_encode h) + length (ppp_encode acfc pfc proto)"] by (simp add: assms(2))
qed

section \<open>Example packets\<close>

text \<open>A datagram of the example tunnel with the given UDP payload, as \<open>ip4-udp-lookup\<close> leaves it:
  Ethernet, IPv4 and UDP headers behind the current position.\<close>

definition ex_buffer :: "bytes \<Rightarrow> vlib_buffer" where
  "ex_buffer payload =
     \<lparr>b_mem = replicate 42 0 @ payload, b_current_data = 42, b_current_length = length payload,
      b_rest_length = 0, b_l2_hdr_offset = 0, b_l3_hdr_offset = 14, b_l4_hdr_offset = 34,
      b_flags = {}, b_rx = 1, b_tx = - 1, b_adj_tx = - 1, b_error = None\<rparr>"

definition ex_hdr :: rfc_hdr where
  "ex_hdr = \<lparr>rh_length = Some 20, rh_priority = True, rh_tid = 100, rh_sid = 1000,
     rh_seq = Some (1, 2), rh_offset = Some [0, 0]\<rparr>"

definition ex_inner :: bytes where "ex_inner = [0x45, 0, 0, 4]"

definition ex_data :: vlib_buffer where
  "ex_data = ex_buffer (rfc_encode ex_hdr @ ppp_encode False True PPP_PROTO_IP4 @ ex_inner)"

definition ex_control :: vlib_buffer where
  "ex_control = ex_buffer [0xc8, 0x02, 0, 12, 0, 100, 0, 0, 0, 0, 0, 0]"

lemma ex_buffer_simps [simp]:
  "wf_buffer (ex_buffer p)" "cur_bytes (ex_buffer p) = p" "b_current_length (ex_buffer p) = length p"
  "b_current_data (ex_buffer p) = 42" "b_l3_hdr_offset (ex_buffer p) = 14"
  "vlib_buffer_length_in_chain (ex_buffer p) = length p"
  by (simp_all add: ex_buffer_def wf_buffer_def cur_bytes_def vlib_buffer_length_in_chain_def)

lemma ex_wf [simp]: "wf_buffer ex_data" "wf_buffer ex_control"
  by (simp_all add: ex_data_def ex_control_def)

lemma ex_session_live: "pool_elt (sessions ex_main) 0 = Some ex_session"
  by (simp add: ex_main_eq pool_elt_def)

lemma ex_data_delivered:
  "\<exists>r. node_packet alist_bihash ex_main ex_data = Some r \<and> delivered (ir_next r)"
  using packet_rfc [OF ex_main_inv ex_wf(1), of ex_hdr ex_inner False True PPP_PROTO_IP4 0 ex_session]
  by (auto simp: ex_session_live ex_data_def ex_hdr_def ex_inner_def rfc_offset_ok_def ex_session_def
      result_simps input_next_def delivered_def)

lemma ex_control_punted:
  "\<exists>r. node_packet alist_bihash ex_main ex_control = Some r \<and> ir_next r = L2TVPP_INPUT_NEXT_PUNT"
  by (simp add: ex_control_def l2tvpp_input_packet_def l2tvpp_parse_hdr_def rd16_def rd8_def be16_def
      hdr_consts result_simps)

section \<open>Delivery\<close>

text \<open>Claim C2: (safety) in every state the control plane can reach, \<open>l2tvpp-input\<close> processes any
  frame of well-formed buffers without reading outside a packet or through a freed session slot, and
  hands every buffer of the frame on, in order and with its bytes unchanged.\<close>

theorem input_node_safe:
  assumes "obj_reachable bh lm" and "bihash_ok bh" and "\<forall>b \<in> set frame. wf_buffer b"
  shows "\<exists>eff. l2tvpp_input_node bh lm frame = Some eff \<and>
    map (b_mem \<circ> fst) (ie_out eff) = map b_mem frame"
proof -
  note inv = reachable_inv [OF assms(1,2)]
  obtain rs where rs: "list_all2 result_ok frame rs"
    and node: "l2tvpp_input_node bh lm frame = Some (input_finish (fold input_account rs input_loop_start))"
    using node_results_ok [OF inv assms(3)] by blast
  have "map (b_mem \<circ> fst \<circ> (\<lambda>r. (ir_buffer r, ir_next r))) rs = map b_mem frame"
    using rs by (induction rule: list_all2_induct) (simp_all add: result_ok_def)
  with node show ?thesis by (simp add: comp_def)
qed

theorem input_node_safe_witness:
  "\<exists>eff. l2tvpp_input_node alist_bihash ex_main [ex_data, ex_control] = Some eff
    \<and> map (b_mem \<circ> fst) (ie_out eff) = [b_mem ex_data, b_mem ex_control]"
  using input_node_safe [OF ex_reachable alist_bihash_ok, of "[ex_data, ex_control]"] by simp

text \<open>Claim C38: (bounds) the batched receive counters are exact: for every interface, the increments
  one frame makes add up to the packets decapsulated to that interface and to their bytes, as if each
  packet had been counted on its own (a frame has at most 256 packets; no packet chain reaches 16 MB).\<close>

theorem input_rx_counters_exact:
  assumes "obj_reachable bh lm" and "bihash_ok bh" and "\<forall>b \<in> set frame. wf_buffer b"
    and "length frame \<le> 256" and "\<forall>b \<in> set frame. vlib_buffer_length_in_chain b < 2 ^ 24"
  shows "\<exists>eff. l2tvpp_input_node bh lm frame = Some eff
    \<and> rx_packets (ie_rx_increments eff) sw =
        length (filter (\<lambda>(b, n). delivered n \<and> b_rx b = sw) (ie_out eff))
    \<and> rx_bytes (ie_rx_increments eff) sw =
        sum_list (map (\<lambda>(b, n). vlib_buffer_length_in_chain b)
          (filter (\<lambda>(b, n). delivered n \<and> b_rx b = sw) (ie_out eff)))"
proof -
  note inv = reachable_inv [OF assms(1,2)]
  obtain rs where rs: "list_all2 result_ok frame rs"
    and node: "l2tvpp_input_node bh lm frame = Some (input_finish (fold input_account rs input_loop_start))"
    using node_results_ok [OF inv assms(3)] by blast
  show ?thesis
    using node node_rx_totals [OF rs assms(4,5), of sw] stat_totals [OF rs, of sw] by simp
qed

theorem input_rx_counters_exact_witness:
  "\<exists>eff. l2tvpp_input_node alist_bihash ex_main [ex_data, ex_control, ex_data] = Some eff
    \<and> rx_packets (ie_rx_increments eff) 5 =
        length (filter (\<lambda>(b, n). delivered n \<and> b_rx b = 5) (ie_out eff))"
proof -
  have "\<forall>b \<in> set [ex_data, ex_control, ex_data]. vlib_buffer_length_in_chain b < 2 ^ 24"
    by (simp add: ex_data_def ex_control_def ex_hdr_def ex_inner_def rfc_encode_def rfc_fixed_def
        rfc_optional_def ppp_encode_def)
  then show ?thesis
    using input_rx_counters_exact [OF ex_reachable alist_bihash_ok, of "[ex_data, ex_control, ex_data]" 5]
    by auto
qed

text \<open>Every packet of a frame is accounted for once: the node counters of one
  frame add up to the packets not dropped, so that with the dropped ones they give the frame.\<close>

theorem input_counted_once:
  assumes "obj_reachable bh lm" and "bihash_ok bh" and "\<forall>b \<in> set frame. wf_buffer b"
    and "length frame \<le> 256"
  shows "\<exists>eff. l2tvpp_input_node bh lm frame = Some eff
    \<and> sum_list (map (unat \<circ> snd) (ie_node_counters eff))
      + length (filter (\<lambda>(b, n). n = L2TVPP_INPUT_NEXT_DROP) (ie_out eff)) = length frame"
proof -
  obtain rs where rs: "list_all2 result_ok frame rs"
    and node: "l2tvpp_input_node bh lm frame = Some (input_finish (fold input_account rs input_loop_start))"
    using node_results_ok [OF reachable_inv [OF assms(1,2)] assms(3)] by blast
  show ?thesis
    using node node_counter_total [OF rs assms(4)] by simp
qed

theorem input_counted_once_witness:
  "\<exists>eff. l2tvpp_input_node alist_bihash ex_main [ex_data, ex_control, ex_data] = Some eff
    \<and> sum_list (map (unat \<circ> snd) (ie_node_counters eff))
      + length (filter (\<lambda>(b, n). n = L2TVPP_INPUT_NEXT_DROP) (ie_out eff)) = 3"
  using input_counted_once [OF ex_reachable alist_bihash_ok, of "[ex_data, ex_control, ex_data]"]
  by (simp add: eval_nat_numeral)

text \<open>Claim C1: (roundtrip) a data packet with any combination of the optional L2TPv2 fields (length,
  priority, Ns/Nr, offset with padding) and any PPP framing (address/control and protocol field each
  compressed or not) that carries IPv4 or IPv6 for a live session is decapsulated to exactly the inner
  packet, on that session's interface, towards the input node of its IP version.\<close>

theorem decap_every_header_form:
  assumes "objects_inv bh lm" and "wf_buffer b" and "rfc_offset_ok h" and "3 \<le> length inner"
    and "cur_bytes b = rfc_encode h @ ppp_encode acfc pfc proto @ inner"
    and "proto = PPP_PROTO_IP4 \<or> proto = PPP_PROTO_IP6"
    and "pool_elt (sessions lm) si = Some s" and "s_local_tid s = rh_tid h" and "s_local_sid s = rh_sid h"
  shows "\<exists>r. l2tvpp_input_packet (inner_ip4_no_checksum lm) (bh_search bh (session_by_key lm))
      (pool_elt (sessions lm)) b = Some r
    \<and> cur_bytes (ir_buffer r) = inner \<and> b_rx (ir_buffer r) = s_sw_if_index s
    \<and> ir_error r = rfc_decap_counter h
    \<and> ir_next r = (if proto = PPP_PROTO_IP6 then L2TVPP_INPUT_NEXT_IP6_INPUT
        else if inner_ip4_no_checksum lm then L2TVPP_INPUT_NEXT_IP4_INPUT_NCS
        else L2TVPP_INPUT_NEXT_IP4_INPUT)"
  using packet_rfc [OF assms] packet_rfc_bytes [OF assms(2,5)]
  by (simp add: result_simps input_next_def)

theorem decap_every_header_form_witness:
  "\<exists>r. node_packet alist_bihash ex_main ex_data = Some r \<and> cur_bytes (ir_buffer r) = ex_inner
    \<and> b_rx (ir_buffer r) = 5"
  using decap_every_header_form [OF ex_main_inv ex_wf(1), of ex_hdr ex_inner False True PPP_PROTO_IP4 0
      ex_session]
  by (auto simp: ex_session_live ex_data_def ex_hdr_def ex_inner_def rfc_offset_ok_def ex_session_def)

text \<open>Claim C5: (safety) session isolation: a packet leaves \<open>l2tvpp-input\<close> decapsulated only on the
  interface of a live session whose tunnel id and session id are the ones in the packet's own header;
  no byte of another session's traffic can reach it.\<close>

theorem decap_session_isolation:
  assumes "obj_reachable bh lm" and "bihash_ok bh" and "wf_buffer b"
    and "l2tvpp_input_packet (inner_ip4_no_checksum lm) (bh_search bh (session_by_key lm))
      (pool_elt (sessions lm)) b = Some r"
    and "delivered (ir_next r)"
  shows "\<exists>flags off s. l2tvpp_parse_hdr (cur_bytes b) (b_current_length b) =
      Some (L2TVPP_HDR_DATA flags (ir_tid r) (ir_sid r) off)
    \<and> pool_elt (sessions lm) (ir_session_index r) = Some s
    \<and> s_local_tid s = ir_tid r \<and> s_local_sid s = ir_sid r \<and> b_rx (ir_buffer r) = s_sw_if_index s"
proof -
  note inv = reachable_inv [OF assms(1,2)]
  have live: "pool_elt (sessions lm) (ucast v) \<noteq> None"
    if "bh_search bh (session_by_key lm) k = Some v" for k v
    using session_found_live [OF inv that] by auto
  show ?thesis
  proof (rule input_packet_cases [OF assms(3), where ncs = "inner_ip4_no_checksum lm"
        and lookup = "bh_search bh (session_by_key lm)" and elt = "pool_elt (sessions lm)"],
      goal_cases live dr pu decap)
    case (decap flags tid sid off cur err v sess ppp cur2 nxt)
    have "sess_key sess = l2tvpp_session_key tid sid"
      using session_found_live [OF inv decap(4)] decap(5) by auto
    with decap assms(4) show ?thesis
      by (auto simp: result_simps sess_key_def session_key_inj)
  qed (use live assms(4,5) in \<open>auto simp: result_simps delivered_def\<close>)
qed

theorem decap_session_isolation_witness:
  "\<exists>r s. node_packet alist_bihash ex_main ex_data = Some r \<and> delivered (ir_next r)
    \<and> pool_elt (sessions ex_main) (ir_session_index r) = Some s \<and> s_local_tid s = ir_tid r
    \<and> b_rx (ir_buffer r) = s_sw_if_index s"
proof -
  obtain r where r: "node_packet alist_bihash ex_main ex_data = Some r" "delivered (ir_next r)"
    using ex_data_delivered by blast
  then show ?thesis
    using decap_session_isolation [OF ex_reachable alist_bihash_ok ex_wf(1) r] by auto
qed

section \<open>Punt\<close>

text \<open>Claim C39: (functional) a packet the fast path does not take is punted as it came: the buffer is
  rewound to the outer IP header recorded before, its end does not move, and neither its bytes nor its
  receive interface change, so that the kernel sees the original datagram.\<close>

theorem punt_restores_packet:
  assumes "objects_inv bh lm" and "wf_buffer b"
    and "l2tvpp_input_packet (inner_ip4_no_checksum lm) (bh_search bh (session_by_key lm))
      (pool_elt (sessions lm)) b = Some r"
    and "ir_next r = L2TVPP_INPUT_NEXT_PUNT"
    and "b_l3_hdr_offset b \<le> b_current_data b"
  shows "b_current_data (ir_buffer r) = b_l3_hdr_offset b
    \<and> b_current_data (ir_buffer r) + b_current_length (ir_buffer r) = b_current_data b + b_current_length b
    \<and> b_mem (ir_buffer r) = b_mem b \<and> b_rest_length (ir_buffer r) = b_rest_length b
    \<and> b_rx (ir_buffer r) = b_rx b \<and> ir_stats r = None"
proof (rule node_packet_cases [OF assms(1-3)], goal_cases dr punt de)
  case (punt err si tid sid ppp)
  with assms(5) show ?thesis
    by (simp add: result_simps l2tvpp_rewind_to_ip_def vlib_buffer_advance_def)
qed (use assms(4) in \<open>auto simp: result_simps delivered_def\<close>)

theorem punt_restores_packet_witness:
  "\<exists>r. node_packet alist_bihash ex_main ex_control = Some r \<and> b_current_data (ir_buffer r) = 14
    \<and> b_current_length (ir_buffer r) = 40"
proof -
  obtain r where r: "node_packet alist_bihash ex_main ex_control = Some r"
    "ir_next r = L2TVPP_INPUT_NEXT_PUNT"
    using ex_control_punted by blast
  then show ?thesis
    using punt_restores_packet [OF ex_main_inv _ r] by (simp add: ex_control_def)
qed

text \<open>L2TP control traffic and anything that is not version 2 never enters the
  fast path: whatever sessions exist, such a packet is punted and counted as control or as
  unsupported, while a packet shorter than the fixed header is dropped.\<close>

theorem control_always_punted:
  assumes "wf_buffer b" and "rd16 (cur_bytes b) 0 = Some flags" and "6 \<le> b_current_length b"
    and "flags AND L2TVPP_HDR_VER \<noteq> 2 \<or> flags AND L2TVPP_HDR_T \<noteq> 0"
  shows "\<exists>r. l2tvpp_input_packet ncs lookup elt b = Some r \<and> ir_next r = L2TVPP_INPUT_NEXT_PUNT
    \<and> ir_error r = (if flags AND L2TVPP_HDR_VER \<noteq> 2 then PUNT_UNSUPPORTED else PUNT_CONTROL)"
  using assms by (simp add: l2tvpp_input_packet_def l2tvpp_parse_hdr_def result_simps)

theorem control_always_punted_witness:
  "\<exists>r. l2tvpp_input_packet False (\<lambda>_. None) (\<lambda>_. None) ex_control = Some r
    \<and> ir_next r = L2TVPP_INPUT_NEXT_PUNT \<and> ir_error r = PUNT_CONTROL"
  using control_always_punted [where b = ex_control and flags = "0xc802" and ncs = False
      and lookup = "\<lambda>_. None" and elt = "\<lambda>_. None"]
  by (simp add: ex_control_def rd16_def rd8_def be16_def hdr_consts)

end
