(* ===== verification/Encap.thy ===== *)
theory Encap
  imports Decap_Properties
begin

text \<open>
  \<^verbatim>\<open>src/plugin/l2tvpp/l2tvpp.c\<close>, the encapsulation half: the rewrite string of a session's
  midchain adjacency (\<open>l2tvpp_build_rewrite_i\<close>), the per-packet fixup that fills in the outer
  lengths and the IPv4 header checksum incrementally (\<open>l2tvpp_fixup\<close>), and the adjacency callbacks
  of the session interface class.

  The checksum primitives are VPP's and are parameters; \<open>csum_ok\<close> is their contract, in the
  one's-complement arithmetic (modulo 65535) of the Internet checksum.  A 16-bit field kept in memory
  order is a \<open>u16\<close> as the little-endian host loads it.
\<close>

section \<open>The checksum primitives\<close>

record ip_csum =
  ip4_header_checksum :: "bytes \<Rightarrow> u16"
  ip_csum_update :: "u64 \<Rightarrow> u16 \<Rightarrow> u16 \<Rightarrow> u64"
  ip_csum_fold :: "u64 \<Rightarrow> u16"

fun words16 :: "bytes \<Rightarrow> u16 list" where
  "words16 (a # b # bs) = le16 a b # words16 bs"
| "words16 [a] = [ucast a]"
| "words16 [] = []"

definition ones_sum :: "bytes \<Rightarrow> nat" where
  "ones_sum bs = sum_list (map unat (words16 bs))"

text \<open>
  \<open>ip4_header_checksum\<close> is the one's complement of the sum of a header's other words,
  \<open>ip_csum_update\<close> accounts for a field that changes from \<open>old\<close> to \<open>new\<close>, and
  \<open>ip_csum_fold\<close> folds the carries back.
\<close>

definition csum_ok :: "ip_csum \<Rightarrow> bool" where
  "csum_ok cs \<longleftrightarrow>
     (\<forall>h. length h = 20 \<longrightarrow>
        (unat (ip4_header_checksum cs h) + ones_sum (take 10 h) + ones_sum (drop 12 h)) mod 65535 = 0)
     \<and> (\<forall>s old new. (unat (ip_csum_update cs s old new) + unat new) mod 65535 = (unat s + unat old) mod 65535)
     \<and> (\<forall>s. unat (ip_csum_fold cs s) mod 65535 = unat s mod 65535)"

lemma csum_okD:
  assumes "csum_ok cs"
  shows "length h = 20 \<Longrightarrow>
      (unat (ip4_header_checksum cs h) + (ones_sum (take 10 h) + ones_sum (drop 12 h))) mod 65535 = 0"
    and "(unat (ip_csum_update cs s old new) + unat new) mod 65535 = (unat s + unat old) mod 65535"
    and "unat (ip_csum_fold cs s) mod 65535 = unat s mod 65535"
  using assms by (simp_all add: csum_ok_def add.assoc)

definition clib_host_to_net_u16 :: "u16 \<Rightarrow> u16" where
  "clib_host_to_net_u16 x = be16 (ucast x) (ucast (drop_bit 8 x))"

lemma st16_host_to_net [simp]: "st16 (clib_host_to_net_u16 x) = put16 x"
proof -
  have "ucast (be16 a b) = b" "ucast (drop_bit 8 (be16 a b)) = a" for a b :: u8
    by (rule bit_word_eqI; auto simp: be16_def bit_simps dest: bit_imp_le_length)+
  then show ?thesis by (simp add: st16_def put16_def clib_host_to_net_u16_def)
qed

section \<open>The rewrite\<close>

datatype vnet_link =
    VNET_LINK_IP4 | VNET_LINK_IP6 | VNET_LINK_MPLS | VNET_LINK_ETHERNET | VNET_LINK_ARP | VNET_LINK_NSH

definition IP_PROTOCOL_UDP :: u8 where "IP_PROTOCOL_UDP = 17"

definition rewrite_ip :: "l2tvpp_tunnel \<Rightarrow> bytes" where
  "rewrite_ip t = [0x45, 0, 0, 0, 0, 0, 0, 0, 64, IP_PROTOCOL_UDP, 0, 0]
     @ st32 (ip46_ip4 (t_local_ip t)) @ st32 (ip46_ip4 (t_peer_ip t))"

definition rewrite_udp :: "l2tvpp_tunnel \<Rightarrow> bytes" where
  "rewrite_udp t = put16 (t_local_port t) @ put16 (t_peer_port t) @ [0, 0, 0, 0]"

definition rewrite_l2tp_ppp :: "l2tvpp_tunnel \<Rightarrow> l2tvpp_session \<Rightarrow> u16 \<Rightarrow> bytes" where
  "rewrite_l2tp_ppp t sess proto =
     put16 2 @ put16 (t_peer_tid t) @ put16 (s_peer_sid sess) @ [0xff, 0x03] @ put16 proto"

definition link_proto :: "vnet_link \<Rightarrow> u16 option" where
  "link_proto link = (case link of VNET_LINK_IP4 \<Rightarrow> Some PPP_PROTO_IP4
     | VNET_LINK_IP6 \<Rightarrow> Some PPP_PROTO_IP6 | _ \<Rightarrow> None)"

text \<open>The rewrite and the session with its cached checksum; \<open>None\<close> for a link type without a PPP
  protocol, where the code returns 0.\<close>

definition l2tvpp_build_rewrite_i ::
  "ip_csum \<Rightarrow> l2tvpp_tunnel \<Rightarrow> l2tvpp_session \<Rightarrow> vnet_link \<Rightarrow> (bytes \<times> l2tvpp_session) option" where
  "l2tvpp_build_rewrite_i cs t sess link =
     (case link_proto link of
        None \<Rightarrow> None
      | Some proto \<Rightarrow>
          Some (rewrite_ip t @ rewrite_udp t @ rewrite_l2tp_ppp t sess proto,
                sess\<lparr>s_encap_ip_csum0 := ip4_header_checksum cs (rewrite_ip t)\<rparr>))"

section \<open>The fixup\<close>

definition l2tvpp_fixup :: "ip_csum \<Rightarrow> l2tvpp_session \<Rightarrow> vlib_buffer \<Rightarrow> vlib_buffer option" where
  "l2tvpp_fixup cs sess b =
     (let len = of_nat (vlib_buffer_length_in_chain b) :: u16;
          iplen = clib_host_to_net_u16 len;
          b1 = b\<lparr>b_flags := insert VNET_BUFFER_F_LOCALLY_ORIGINATED (b_flags b)\<rparr>
      in do {
        b2 \<leftarrow> buf_write b1 2 (st16 iplen);
        let sum = ip_csum_update cs (ucast (s_encap_ip_csum0 sess)) 0 iplen;
        b3 \<leftarrow> buf_write b2 10 (st16 (ip_csum_fold cs sum));
        buf_write b3 24 (put16 (len - 20)) })"

section \<open>The interface-class callbacks\<close>

text \<open>\<open>None\<close> is an access through a dead index; the result \<open>Some None\<close> is the null rewrite.\<close>

definition l2tvpp_build_rewrite ::
  "ip_csum \<Rightarrow> 'h l2tvpp_main \<Rightarrow> u32 \<Rightarrow> vnet_link \<Rightarrow> (bytes option \<times> 'h l2tvpp_main) option" where
  "l2tvpp_build_rewrite cs lm sw_if_index link =
     (if length (session_index_by_sw_if_index lm) \<le> unat sw_if_index then None
      else
        let si = session_index_by_sw_if_index lm ! unat sw_if_index in do {
          sess \<leftarrow> pool_elt (sessions lm) si;
          t \<leftarrow> pool_elt (tunnels lm) (s_tunnel_index sess);
          case l2tvpp_build_rewrite_i cs t sess link of
            None \<Rightarrow> Some (None, lm)
          | Some (rw, sess') \<Rightarrow> Some (Some rw, lm\<lparr>sessions := pool_set (sessions lm) si sess'\<rparr>) })"

text \<open>\<open>link\<close> is \<open>adj_get (ai)->ia_link\<close>.\<close>

definition l2tvpp_update_adj ::
  "ip_csum \<Rightarrow> 'h l2tvpp_main \<Rightarrow> u32 \<Rightarrow> u32 \<Rightarrow> vnet_link \<Rightarrow> ('h l2tvpp_main \<times> vpp_call list) option" where
  "l2tvpp_update_adj cs lm sw_if_index ai link =
     (let si = (if unat sw_if_index < length (session_index_by_sw_if_index lm)
                then session_index_by_sw_if_index lm ! unat sw_if_index else - 1)
      in if si = - 1 \<or> pool_is_free_index (sessions lm) si then Some (lm, [])
         else do {
           sess \<leftarrow> pool_elt (sessions lm) si;
           t \<leftarrow> pool_elt (tunnels lm) (s_tunnel_index sess);
           case l2tvpp_build_rewrite_i cs t sess link of
             None \<Rightarrow> Some (lm, [])
           | Some (rw, sess') \<Rightarrow>
               Some (lm\<lparr>sessions := pool_set (sessions lm) si sess'\<rparr>,
                     [Adj_nbr_midchain_update_rewrite ai si rw,
                      Adj_midchain_delegate_stack ai (t_encap_fib_index t) (ip46_ip4 (t_peer_ip t))]) })"

definition l2tvpp_adj_remove_delegate :: "u32 \<Rightarrow> vpp_call list" where
  "l2tvpp_adj_remove_delegate ai = [Adj_midchain_delegate_remove ai]"

definition l2tvpp_admin_up_down :: "u32 \<Rightarrow> bool \<Rightarrow> vpp_call list" where
  "l2tvpp_admin_up_down hw_if_index admin_up =
     [if admin_up then Vnet_hw_interface_link_up hw_if_index else Vnet_hw_interface_link_down hw_if_index]"

section \<open>The encapsulated packet\<close>

text \<open>Specification: the outer headers as they leave the box.\<close>

definition outer_ip :: "l2tvpp_tunnel \<Rightarrow> u16 \<Rightarrow> u16 \<Rightarrow> bytes" where
  "outer_ip t len csum = [0x45, 0] @ put16 len @ [0, 0, 0, 0, 64, IP_PROTOCOL_UDP] @ st16 csum
     @ st32 (ip46_ip4 (t_local_ip t)) @ st32 (ip46_ip4 (t_peer_ip t))"

definition outer_udp :: "l2tvpp_tunnel \<Rightarrow> u16 \<Rightarrow> bytes" where
  "outer_udp t len = put16 (t_local_port t) @ put16 (t_peer_port t) @ put16 len @ [0, 0]"

definition encap_csum :: "ip_csum \<Rightarrow> l2tvpp_session \<Rightarrow> u16 \<Rightarrow> u16" where
  "encap_csum cs sess len =
     ip_csum_fold cs (ip_csum_update cs (ucast (s_encap_ip_csum0 sess)) 0 (clib_host_to_net_u16 len))"

lemma length_rewrite [simp]:
  "length (rewrite_ip t) = 20" "length (rewrite_udp t) = 8" "length (rewrite_l2tp_ppp t sess proto) = 10"
  "length (outer_ip t len csum) = 20" "length (outer_udp t n) = 8"
  by (simp_all add: rewrite_ip_def rewrite_udp_def rewrite_l2tp_ppp_def outer_ip_def outer_udp_def)

lemma fixup_bytes:
  assumes "wf_buffer b" and "cur_bytes b = rewrite_ip t @ rewrite_udp t @ rest"
    and "len = of_nat (vlib_buffer_length_in_chain b)"
  obtains b' where "l2tvpp_fixup cs sess b = Some b'" and "wf_buffer b'"
    and "cur_bytes b' = outer_ip t len (encap_csum cs sess len) @ outer_udp t (len - 20) @ rest"
    and "VNET_BUFFER_F_LOCALLY_ORIGINATED \<in> b_flags b'"
proof -
  let ?b1 = "b\<lparr>b_flags := insert VNET_BUFFER_F_LOCALLY_ORIGINATED (b_flags b)\<rparr>"
  let ?c = "encap_csum cs sess len"
  have 1: "wf_buffer ?b1" "cur_bytes ?b1 = rewrite_ip t @ rewrite_udp t @ rest"
    using assms(1,2) by (simp_all add: wf_buffer_def)
  obtain b2 where w2: "buf_write ?b1 2 (put16 len) = Some b2" and wf2: "wf_buffer b2"
    and "cur_bytes b2 = take 2 (cur_bytes ?b1) @ put16 len @ drop (2 + 2) (cur_bytes ?b1)"
    and f2: "b_flags b2 = b_flags ?b1"
    by (rule buf_write_Some [OF 1(1), of 2 "put16 len"]) (simp_all add: assms(2))
  then have 2: "cur_bytes b2 = [0x45, 0] @ put16 len @ [0, 0, 0, 0, 64, IP_PROTOCOL_UDP, 0, 0]
      @ st32 (ip46_ip4 (t_local_ip t)) @ st32 (ip46_ip4 (t_peer_ip t)) @ rewrite_udp t @ rest"
    by (simp add: assms(2) rewrite_ip_def)
  obtain b3 where w3: "buf_write b2 10 (st16 ?c) = Some b3" and wf3: "wf_buffer b3"
    and "cur_bytes b3 = take 10 (cur_bytes b2) @ st16 ?c @ drop (10 + 2) (cur_bytes b2)"
    and f3: "b_flags b3 = b_flags b2"
    by (rule buf_write_Some [OF wf2, of 10 "st16 ?c"]) (simp_all add: 2)
  then have 3: "cur_bytes b3 = outer_ip t len ?c @ rewrite_udp t @ rest"
    by (simp add: 2 outer_ip_def put16_def)
  obtain b4 where w4: "buf_write b3 24 (put16 (len - 20)) = Some b4" and wf4: "wf_buffer b4"
    and "cur_bytes b4 = take 24 (cur_bytes b3) @ put16 (len - 20) @ drop (24 + 2) (cur_bytes b3)"
    and f4: "b_flags b4 = b_flags b3"
    by (rule buf_write_Some [OF wf3, of 24 "put16 (len - 20)"]) (simp_all add: 3)
  then have 4: "cur_bytes b4 = outer_ip t len ?c @ outer_udp t (len - 20) @ rest"
    by (simp add: 3 rewrite_udp_def outer_udp_def put16_def)
  have "l2tvpp_fixup cs sess b = Some b4"
    using w2 w3 w4 by (simp add: l2tvpp_fixup_def Let_def encap_csum_def assms(3))
  then show thesis using that [OF _ wf4 4] f2 f3 f4 by simp
qed

lemma ones_sum_append:
  assumes "even (length xs)"
  shows "ones_sum (xs @ ys) = ones_sum xs + ones_sum ys"
proof -
  have "words16 (xs @ ys) = words16 xs @ words16 ys"
    using assms by (induction xs rule: words16.induct) simp_all
  then show ?thesis by (simp add: ones_sum_def)
qed

lemma ones_sum_st16 [simp]: "ones_sum (st16 x) = unat x"
  by (simp add: ones_sum_def st16_def)

lemma ones_sum_put16 [simp]: "ones_sum (put16 x) = unat (clib_host_to_net_u16 x)"
  using ones_sum_st16 [of "clib_host_to_net_u16 x"] by simp

lemma ones_sum_zeros [simp]: "ones_sum [0, 0] = 0" "ones_sum [0, 0, 0, 0] = 0"
  by (simp_all add: ones_sum_def le16_def be16_def)

text \<open>The incremental checksum completes the header to a multiple of 65535.\<close>

lemma outer_ip_checksum:
  assumes "csum_ok cs" and "s_encap_ip_csum0 sess = ip4_header_checksum cs (rewrite_ip t)"
  shows "ones_sum (outer_ip t len (encap_csum cs sess len)) mod 65535 = 0"
proof -
  let ?addr = "st32 (ip46_ip4 (t_local_ip t)) @ st32 (ip46_ip4 (t_peer_ip t))"
  define base where "base = ones_sum [0x45, 0] + ones_sum [64, IP_PROTOCOL_UDP] + ones_sum ?addr"
  define il where "il = unat (clib_host_to_net_u16 len)"
  define upd where "upd = ip_csum_update cs (ucast (s_encap_ip_csum0 sess)) 0 (clib_host_to_net_u16 len)"
  have split: "outer_ip t len c = [0x45, 0] @ put16 len @ [0, 0, 0, 0] @ [64, IP_PROTOCOL_UDP] @ st16 c @ ?addr" for c
    by (simp add: outer_ip_def)
  have "take 10 (rewrite_ip t) = [0x45, 0] @ [0, 0] @ [0, 0, 0, 0] @ [64, IP_PROTOCOL_UDP]"
    "drop 12 (rewrite_ip t) = ?addr"
    by (simp_all add: rewrite_ip_def)
  then have "ones_sum (take 10 (rewrite_ip t)) + ones_sum (drop 12 (rewrite_ip t)) = base"
    by (simp add: base_def) (simp add: ones_sum_def le16_def be16_def)
  then have csum0: "(unat (s_encap_ip_csum0 sess) + base) mod 65535 = 0"
    using csum_okD(1) [OF assms(1), of "rewrite_ip t"] assms(2) by simp
  have "(unat (encap_csum cs sess len) + il) mod 65535 = (unat upd + il) mod 65535"
    unfolding encap_csum_def upd_def [symmetric] by (metis csum_okD(3) [OF assms(1)] mod_add_left_eq)
  also have "\<dots> = unat (s_encap_ip_csum0 sess) mod 65535"
    using csum_okD(2) [OF assms(1)] by (simp add: upd_def il_def unat_ucast_widen)
  finally have "(unat (encap_csum cs sess len) + il + base) mod 65535 = 0"
    using csum0 by (metis mod_add_left_eq)
  moreover have "ones_sum (outer_ip t len (encap_csum cs sess len)) =
      unat (encap_csum cs sess len) + il + base"
    unfolding split by (simp add: ones_sum_append base_def il_def del: append_Cons append_Nil)
  ultimately show ?thesis by simp
qed

lemma build_rewrite_Some:
  assumes "l2tvpp_build_rewrite_i cs t sess link = Some (rw, sess')"
  obtains proto where "link_proto link = Some proto" and "proto = PPP_PROTO_IP4 \<or> proto = PPP_PROTO_IP6"
    and "rw = rewrite_ip t @ rewrite_udp t @ rewrite_l2tp_ppp t sess proto"
    and "sess' = sess\<lparr>s_encap_ip_csum0 := ip4_header_checksum cs (rewrite_ip t)\<rparr>"
  using assms
  by (auto simp: l2tvpp_build_rewrite_i_def link_proto_def split: option.splits vnet_link.splits)

lemma encap_packet:
  assumes "l2tvpp_build_rewrite_i cs t sess link = Some (rw, sess')"
    and "wf_buffer b" and "cur_bytes b = rw @ inner" and "len = of_nat (vlib_buffer_length_in_chain b)"
  obtains b' proto where "l2tvpp_fixup cs sess' b = Some b'" and "wf_buffer b'"
    and "cur_bytes b' = outer_ip t len (encap_csum cs sess' len) @ outer_udp t (len - 20)
      @ rewrite_l2tp_ppp t sess proto @ inner"
    and "link_proto link = Some proto" and "proto = PPP_PROTO_IP4 \<or> proto = PPP_PROTO_IP6"
    and "s_encap_ip_csum0 sess' = ip4_header_checksum cs (rewrite_ip t)"
    and "VNET_BUFFER_F_LOCALLY_ORIGINATED \<in> b_flags b'"
proof -
  obtain proto where p: "link_proto link = Some proto" "proto = PPP_PROTO_IP4 \<or> proto = PPP_PROTO_IP6"
    and rw: "rw = rewrite_ip t @ rewrite_udp t @ rewrite_l2tp_ppp t sess proto"
    and s: "sess' = sess\<lparr>s_encap_ip_csum0 := ip4_header_checksum cs (rewrite_ip t)\<rparr>"
    by (rule build_rewrite_Some [OF assms(1)])
  have "cur_bytes b = rewrite_ip t @ rewrite_udp t @ rewrite_l2tp_ppp t sess proto @ inner"
    using assms(3) rw by simp
  then show thesis
    by (rule fixup_bytes [OF assms(2) _ assms(4), of t _ cs sess'])
      (rule that, assumption+, rule p(1), rule p(2), simp add: s, assumption)
qed

text \<open>The L2TP part of an encapsulated packet is an RFC 2661 data header with the peer's ids, so an end
  that has the session under those ids decapsulates it.\<close>

lemma far_end_decap:
  assumes "l2tvpp_build_rewrite_i cs t sess link = Some (rw, sess')"
    and "wf_buffer b" and "cur_bytes b = rw @ inner" and "l2tvpp_fixup cs sess' b = Some b'"
    and "3 \<le> length inner" and "objects_inv bh lm" and "pool_elt (sessions lm) si = Some s"
    and "s_local_tid s = t_peer_tid t" and "s_local_sid s = s_peer_sid sess"
    and "wf_buffer pb" and "cur_bytes pb = drop 28 (cur_bytes b')"
  shows "\<exists>r. node_packet bh lm pb = Some r \<and> cur_bytes (ir_buffer r) = inner
    \<and> b_rx (ir_buffer r) = s_sw_if_index s
    \<and> (ir_next r = L2TVPP_INPUT_NEXT_IP6_INPUT \<longleftrightarrow> link = VNET_LINK_IP6) \<and> delivered (ir_next r)"
proof -
  define len :: u16 where "len = of_nat (vlib_buffer_length_in_chain b)"
  obtain proto where
    bytes: "cur_bytes b' = outer_ip t len (encap_csum cs sess' len) @ outer_udp t (len - 20)
      @ rewrite_l2tp_ppp t sess proto @ inner"
    and proto: "link_proto link = Some proto" "proto = PPP_PROTO_IP4 \<or> proto = PPP_PROTO_IP6"
    by (rule encap_packet [OF assms(1-3) len_def]) (use assms(4) in simp)
  define h where "h = \<lparr>rh_length = None, rh_priority = False, rh_tid = t_peer_tid t,
    rh_sid = s_peer_sid sess, rh_seq = None, rh_offset = None\<rparr>"
  have pb: "cur_bytes pb = rfc_encode h @ ppp_encode False False proto @ inner"
    by (simp add: assms(11) bytes rewrite_l2tp_ppp_def h_def rfc_encode_def rfc_fixed_def rfc_optional_def
        rfc_flags_def ppp_encode_def)
  have hok: "rfc_offset_ok h" "s_local_tid s = rh_tid h" "s_local_sid s = rh_sid h"
    using assms(8,9) by (simp_all add: h_def rfc_offset_ok_def)
  have "proto = PPP_PROTO_IP6 \<longleftrightarrow> link = VNET_LINK_IP6"
    using proto(1) by (auto simp: link_proto_def PPP_PROTO_IP4_def PPP_PROTO_IP6_def split: vnet_link.splits)
  with packet_rfc [OF assms(6,10) hok(1) assms(5) pb proto(2) assms(7) hok(2,3)] packet_rfc_bytes [OF assms(10) pb]
  show ?thesis by (simp add: result_simps input_next_def delivered_def)
qed

section \<open>Properties\<close>

text \<open>Claim C4: (functional) the outer headers of an encapsulated packet are right: for every inner
  packet whose total stays below 64 KB, the fixup succeeds, the IP total length is the length of the
  whole chain, the UDP length is that minus the IP header, the IPv4 header checksum it derived
  incrementally makes the one's-complement sum of the header a multiple of 65535, the addresses are
  the tunnel's, and the inner bytes are untouched behind 38 bytes of headers.\<close>

theorem encap_outer_headers_valid:
  assumes "csum_ok cs" and "l2tvpp_build_rewrite_i cs t sess link = Some (rw, sess')"
    and "wf_buffer b" and "cur_bytes b = rw @ inner" and "vlib_buffer_length_in_chain b < 65536"
  shows "\<exists>b'. l2tvpp_fixup cs sess' b = Some b'
    \<and> map_option unat (rd16 (cur_bytes b') 2) = Some (vlib_buffer_length_in_chain b)
    \<and> map_option unat (rd16 (cur_bytes b') 24) = Some (vlib_buffer_length_in_chain b - 20)
    \<and> ones_sum (take 20 (cur_bytes b')) mod 65535 = 0
    \<and> take 8 (drop 12 (cur_bytes b')) = st32 (ip46_ip4 (t_local_ip t)) @ st32 (ip46_ip4 (t_peer_ip t))
    \<and> drop 38 (cur_bytes b') = inner"
proof -
  define len :: u16 where "len = of_nat (vlib_buffer_length_in_chain b)"
  obtain b' proto where b': "l2tvpp_fixup cs sess' b = Some b'"
    and bytes: "cur_bytes b' = outer_ip t len (encap_csum cs sess' len) @ outer_udp t (len - 20)
      @ rewrite_l2tp_ppp t sess proto @ inner"
    and c0: "s_encap_ip_csum0 sess' = ip4_header_checksum cs (rewrite_ip t)"
    by (rule encap_packet [OF assms(2,3,4) len_def])
  have len: "unat len = vlib_buffer_length_in_chain b"
    using assms(5) by (simp add: len_def unat_of_nat)
  have "length (rw @ inner) = b_current_length b"
    using length_cur_bytes [OF assms(3)] by (simp add: assms(4))
  moreover have "20 \<le> length rw"
    using build_rewrite_Some [OF assms(2)] by (metis length_append length_rewrite(1) le_add1)
  ultimately have "20 \<le> unat len" by (simp add: len vlib_buffer_length_in_chain_def)
  then have len20: "unat (len - 20) = vlib_buffer_length_in_chain b - 20"
    by (simp add: len unat_sub_if_size word_le_nat_alt)
  have "rd16 (cur_bytes b') 2 = Some len" "rd16 (cur_bytes b') 24 = Some (len - 20)"
    by (simp_all add: bytes outer_ip_def outer_udp_def rewrite_l2tp_ppp_def put16_def st16_def st32_def
        rd16_def rd8_def)
  moreover have "take 8 (drop 12 (cur_bytes b')) = st32 (ip46_ip4 (t_local_ip t)) @ st32 (ip46_ip4 (t_peer_ip t))"
    "take 20 (cur_bytes b') = outer_ip t len (encap_csum cs sess' len)" "drop 38 (cur_bytes b') = inner"
    unfolding bytes by (simp_all) (simp_all add: outer_ip_def put16_def st16_def)
  ultimately show ?thesis
    using b' outer_ip_checksum [OF assms(1) c0, of len] by (simp add: len len20)
qed

text \<open>Checksum primitives that meet the contract.\<close>

definition ref_csum :: ip_csum where
  "ref_csum = \<lparr>ip4_header_checksum = (\<lambda>h. of_nat (65535 - (ones_sum (take 10 h) + ones_sum (drop 12 h)) mod 65535)),
     ip_csum_update = (\<lambda>s old new. of_nat (unat s mod 65535 + unat old + (65535 - unat new mod 65535))),
     ip_csum_fold = (\<lambda>s. of_nat (unat s mod 65535))\<rparr>"

lemma len64: "LENGTH(64) = 64"
  by simp

lemma mod_complement: "((65535 - n mod 65535) + n) mod 65535 = (0 :: nat)"
proof -
  have "n mod 65535 < 65535" by simp
  then have "(65535 - n mod 65535) + n = 65535 + (n - n mod 65535)" by simp
  also have "\<dots> mod 65535 = 0" by (simp add: minus_mod_eq_mult_div)
  finally show ?thesis .
qed

lemma ref_csum_ok: "csum_ok ref_csum"
  unfolding csum_ok_def
proof (intro conjI allI impI)
  fix h :: bytes
  let ?n = "ones_sum (take 10 h) + ones_sum (drop 12 h)"
  have "unat (of_nat (65535 - ?n mod 65535) :: u16) = 65535 - ?n mod 65535"
    by (simp only: unat_of_nat) simp
  then show "(unat (ip4_header_checksum ref_csum h) + ones_sum (take 10 h) + ones_sum (drop 12 h)) mod 65535 = 0"
    using mod_complement [of ?n] by (simp add: ref_csum_def add.assoc)
next
  fix s :: u64 and old new :: u16
  let ?v = "unat s mod 65535 + unat old + (65535 - unat new mod 65535)"
  have "unat s mod 65535 < 65535" "unat old < 65536" using unat_u16_less by simp_all
  then have "?v < 2 ^ 64" by simp
  then have "unat (of_nat ?v :: u64) = ?v" unfolding unat_of_nat by (simp only: len64 mod_less)
  moreover have "(?v + unat new) mod 65535 = (unat s + unat old) mod 65535"
  proof -
    have "(?v + unat new) mod 65535 =
        ((unat s mod 65535 + unat old) + ((65535 - unat new mod 65535) + unat new)) mod 65535"
      by (simp only: add.assoc)
    also have "\<dots> = (unat s mod 65535 + unat old) mod 65535"
      by (subst mod_add_right_eq [symmetric]) (simp only: mod_complement add_0_right)
    finally show ?thesis by (simp only: mod_add_left_eq)
  qed
  ultimately show "(unat (ip_csum_update ref_csum s old new) + unat new) mod 65535 =
      (unat s + unat old) mod 65535"
    unfolding ref_csum_def ip_csum.select_convs by (simp only:)
next
  fix s :: u64
  have "unat s mod 65535 < 65536" by (rule less_trans [OF mod_less_divisor]) simp_all
  then show "unat (ip_csum_fold ref_csum s) mod 65535 = unat s mod 65535"
    by (simp add: ref_csum_def unat_of_nat)
qed

definition ex_tun :: l2tvpp_tunnel where
  "ex_tun = (new_tunnel ex_local ex_peer 1701 1701 100 200)\<lparr>t_n_sessions := 1\<rparr>"

definition ex_rewrite :: "bytes \<times> l2tvpp_session" where
  "ex_rewrite = the (l2tvpp_build_rewrite_i ref_csum ex_tun ex_session VNET_LINK_IP4)"

lemma ex_rewrite_eq:
  "l2tvpp_build_rewrite_i ref_csum ex_tun ex_session VNET_LINK_IP4 = Some (fst ex_rewrite, snd ex_rewrite)"
  "length (fst ex_rewrite) = 38"
  by (simp_all add: ex_rewrite_def l2tvpp_build_rewrite_i_def link_proto_def)

theorem encap_outer_headers_valid_witness:
  "\<exists>b'. l2tvpp_fixup ref_csum (snd ex_rewrite) (ex_buffer (fst ex_rewrite @ ex_inner)) = Some b'
    \<and> map_option unat (rd16 (cur_bytes b') 2) = Some 42
    \<and> ones_sum (take 20 (cur_bytes b')) mod 65535 = 0 \<and> drop 38 (cur_bytes b') = ex_inner"
  using encap_outer_headers_valid [OF ref_csum_ok ex_rewrite_eq(1), of "ex_buffer (fst ex_rewrite @ ex_inner)" ex_inner]
  by (auto simp: ex_rewrite_eq(2) ex_inner_def)

text \<open>Claim C8: (roundtrip) encapsulation is what decapsulation undoes: strip the outer IP and UDP
  headers from an encapsulated packet and give it to \<open>l2tvpp-input\<close> at an end that knows the
  session under the ids written (the peer's tunnel and session id), and it delivers exactly the inner
  packet on that session's interface, for IPv4 and for IPv6.\<close>

theorem encap_decap_roundtrip:
  assumes "l2tvpp_build_rewrite_i cs t sess link = Some (rw, sess')"
    and "wf_buffer b" and "cur_bytes b = rw @ inner" and "3 \<le> length inner"
    and "objects_inv bh lm" and "pool_elt (sessions lm) si = Some s"
    and "s_local_tid s = t_peer_tid t" and "s_local_sid s = s_peer_sid sess"
  shows "\<exists>b'. l2tvpp_fixup cs sess' b = Some b'
    \<and> (\<forall>pb. wf_buffer pb \<and> cur_bytes pb = drop 28 (cur_bytes b') \<longrightarrow>
      (\<exists>r. l2tvpp_input_packet (inner_ip4_no_checksum lm) (bh_search bh (session_by_key lm))
          (pool_elt (sessions lm)) pb = Some r
        \<and> cur_bytes (ir_buffer r) = inner \<and> b_rx (ir_buffer r) = s_sw_if_index s
        \<and> (ir_next r = L2TVPP_INPUT_NEXT_IP6_INPUT \<longleftrightarrow> link = VNET_LINK_IP6) \<and> delivered (ir_next r)))"
proof -
  obtain b' where "l2tvpp_fixup cs sess' b = Some b'"
    by (rule encap_packet [OF assms(1-3) refl])
  with far_end_decap [OF assms(1-3) _ assms(4-8)] show ?thesis by blast
qed

text \<open>The other end of the example tunnel: it sends with the ids the example state receives on.\<close>

definition ex_far_rewrite :: "bytes \<times> l2tvpp_session" where
  "ex_far_rewrite = the (l2tvpp_build_rewrite_i ref_csum (new_tunnel ex_peer ex_local 1701 1701 200 100)
     (ex_session\<lparr>s_peer_sid := 1000\<rparr>) VNET_LINK_IP4)"

theorem encap_decap_roundtrip_witness:
  "\<exists>b'. l2tvpp_fixup ref_csum (snd ex_far_rewrite) (ex_buffer (fst ex_far_rewrite @ ex_inner)) = Some b'
    \<and> (\<exists>r. node_packet alist_bihash ex_main (ex_buffer (drop 28 (cur_bytes b'))) = Some r
      \<and> cur_bytes (ir_buffer r) = ex_inner \<and> b_rx (ir_buffer r) = 5)"
proof -
  let ?b = "ex_buffer (fst ex_far_rewrite @ ex_inner)"
  have "l2tvpp_build_rewrite_i ref_csum (new_tunnel ex_peer ex_local 1701 1701 200 100)
     (ex_session\<lparr>s_peer_sid := 1000\<rparr>) VNET_LINK_IP4 = Some (fst ex_far_rewrite, snd ex_far_rewrite)"
    by (simp add: ex_far_rewrite_def l2tvpp_build_rewrite_i_def link_proto_def)
  moreover have "3 \<le> length ex_inner" "s_local_tid ex_session = t_peer_tid (new_tunnel ex_peer ex_local 1701 1701 200 100)"
    "s_local_sid ex_session = s_peer_sid (ex_session\<lparr>s_peer_sid := 1000\<rparr>)"
    by (simp_all add: ex_session_def new_tunnel_def ex_inner_def)
  ultimately obtain b' where b': "l2tvpp_fixup ref_csum (snd ex_far_rewrite) ?b = Some b'"
    and dec: "\<forall>pb. wf_buffer pb \<and> cur_bytes pb = drop 28 (cur_bytes b') \<longrightarrow>
      (\<exists>r. node_packet alist_bihash ex_main pb = Some r
        \<and> cur_bytes (ir_buffer r) = ex_inner \<and> b_rx (ir_buffer r) = s_sw_if_index ex_session)"
    using encap_decap_roundtrip [OF _ _ _ _ ex_main_inv ex_session_live, of ref_csum
        "new_tunnel ex_peer ex_local 1701 1701 200 100" "ex_session\<lparr>s_peer_sid := 1000\<rparr>" VNET_LINK_IP4
        "fst ex_far_rewrite" "snd ex_far_rewrite" ?b ex_inner]
    by (metis ex_buffer_simps(1,2))
  have "s_sw_if_index ex_session = 5" by (simp add: ex_session_def)
  with b' dec [rule_format, of "ex_buffer (drop 28 (cur_bytes b'))"] show ?thesis by auto
qed

section \<open>Adjacency updates\<close>

lemma session_update_inv:
  assumes inv: "objects_inv bh lm" and s: "pool_elt (sessions lm) si = Some s"
    and same: "s_tunnel_index s' = s_tunnel_index s" "sess_key s' = sess_key s"
      "s_local_tid s' = s_local_tid s" "s_sw_if_index s' = s_sw_if_index s"
    and lm': "lm' = lm\<lparr>sessions := pool_set (sessions lm) si s'\<rparr>"
  shows "objects_inv bh lm'"
proof -
  have elts: "pool_elt (sessions lm') i = (if i = si then Some s' else pool_elt (sessions lm) i)" for i
    by (simp add: lm' pool_elt_set)
  have rest: "tunnels lm' = tunnels lm" "session_by_key lm' = session_by_key lm"
    "session_of_sw_if_index lm' = session_of_sw_if_index lm"
    by (simp_all add: lm' session_of_sw_if_index_def fun_eq_iff)
  have sok: "session_ok bh lm' i x = session_ok bh lm i x" for i x
    by (simp add: session_ok_def rest)
  have "session_ok bh lm si s" using inv s by (simp add: objects_inv_def inv_sessions_def)
  then have "session_ok bh lm si s'" using same by (simp add: session_ok_def)
  then have "inv_sessions bh lm'"
    using inv by (simp add: inv_sessions_def objects_inv_def elts sok)
  moreover have "inv_keys bh lm'"
    unfolding inv_keys_def rest
  proof (intro allI impI)
    fix k v
    assume "bh_search bh (session_by_key lm) k = Some v"
    then have "key_ok lm k v" using inv by (simp add: objects_inv_def inv_keys_def)
    then show "key_ok lm' k v" using s same by (cases "ucast v = si") (auto simp: key_ok_def elts)
  qed
  moreover have "inv_swif lm'"
    unfolding inv_swif_def rest
  proof (intro allI impI)
    fix sw i
    assume "session_of_sw_if_index lm sw = Some i"
    then obtain x where "pool_elt (sessions lm) i = Some x" "s_sw_if_index x = sw"
      using inv by (auto simp: objects_inv_def inv_swif_def)
    then show "\<exists>x. pool_elt (sessions lm') i = Some x \<and> s_sw_if_index x = sw"
      using s same by (cases "i = si") (auto simp: elts)
  qed
  moreover have "inv_counts lm'"
    using inv vpool.tally_upd_same [OF s, of _ s'] same
    unfolding objects_inv_def inv_counts_def by (simp add: lm')
  moreover have "inv_tids lm'"
    using inv by (simp add: objects_inv_def inv_tids_def lm')
  ultimately show ?thesis using inv by (simp add: objects_inv_def)
qed

text \<open>The callback on a session interface, in a consistent state.\<close>

lemma update_adj_session:
  assumes "objects_inv bh lm" and "session_of_sw_if_index lm sw = Some si"
  obtains s t where "pool_elt (sessions lm) si = Some s" and "pool_elt (tunnels lm) (s_tunnel_index s) = Some t"
    and "l2tvpp_update_adj cs lm sw ai link = Some
      (case l2tvpp_build_rewrite_i cs t s link of
         None \<Rightarrow> (lm, [])
       | Some (rw, s') \<Rightarrow> (lm\<lparr>sessions := pool_set (sessions lm) si s'\<rparr>,
           [Adj_nbr_midchain_update_rewrite ai si rw,
            Adj_midchain_delegate_stack ai (t_encap_fib_index t) (ip46_ip4 (t_peer_ip t))]))"
proof -
  from assms obtain s where s: "pool_elt (sessions lm) si = Some s"
    unfolding objects_inv_def inv_swif_def by blast
  with assms(1) obtain t where t: "pool_elt (tunnels lm) (s_tunnel_index s) = Some t"
    unfolding objects_inv_def inv_sessions_def session_ok_def by blast
  have "unat sw < length (session_index_by_sw_if_index lm)"
    "session_index_by_sw_if_index lm ! unat sw = si" "si \<noteq> - 1"
    using assms(2) by (auto simp: session_of_sw_if_index_def split: if_splits)
  with s t that show thesis
    by (auto simp: l2tvpp_update_adj_def pool_is_free_index_def split: option.splits prod.splits)
qed

lemma encap_wire_header:
  assumes "csum_ok cs" and "l2tvpp_build_rewrite_i cs t sess link = Some (rw, sess')"
    and "wf_buffer b" and "cur_bytes b = rw @ inner"
  obtains b' where "l2tvpp_fixup cs sess' b = Some b'" and "ones_sum (take 20 (cur_bytes b')) mod 65535 = 0"
    and "take 4 (drop 16 (cur_bytes b')) = st32 (ip46_ip4 (t_peer_ip t))"
proof -
  define len :: u16 where "len = of_nat (vlib_buffer_length_in_chain b)"
  obtain b' proto where b': "l2tvpp_fixup cs sess' b = Some b'"
    and bytes: "cur_bytes b' = outer_ip t len (encap_csum cs sess' len) @ outer_udp t (len - 20)
      @ rewrite_l2tp_ppp t sess proto @ inner"
    and c0: "s_encap_ip_csum0 sess' = ip4_header_checksum cs (rewrite_ip t)"
    by (rule encap_packet [OF assms(2,3,4) len_def])
  have "take 20 (cur_bytes b') = outer_ip t len (encap_csum cs sess' len)"
    unfolding bytes by simp
  moreover have "take 4 (drop 16 (cur_bytes b')) = st32 (ip46_ip4 (t_peer_ip t))"
    unfolding bytes by (simp add: outer_ip_def put16_def st16_def st32_def)
  ultimately show thesis
    using that [OF b'] outer_ip_checksum [OF assms(1) c0, of len] by simp
qed

lemma update_adj_run:
  assumes "objects_inv bh lm"
  shows "\<exists>lm' calls. l2tvpp_update_adj cs lm sw ai link = Some (lm', calls) \<and> objects_inv bh lm'
    \<and> (case session_of_sw_if_index lm sw of
         None \<Rightarrow> lm' = lm \<and> calls = []
       | Some si \<Rightarrow> (\<exists>s t. pool_elt (sessions lm) si = Some s \<and> pool_elt (tunnels lm) (s_tunnel_index s) = Some t
           \<and> (case l2tvpp_build_rewrite_i cs t s link of
                None \<Rightarrow> lm' = lm \<and> calls = []
              | Some (rw, s') \<Rightarrow> pool_elt (sessions lm') si = Some s'
                  \<and> calls = [Adj_nbr_midchain_update_rewrite ai si rw,
                      Adj_midchain_delegate_stack ai (t_encap_fib_index t) (ip46_ip4 (t_peer_ip t))])))"
proof (cases "session_of_sw_if_index lm sw")
  case None
  then have "l2tvpp_update_adj cs lm sw ai link = Some (lm, [])"
    by (auto simp: l2tvpp_update_adj_def session_of_sw_if_index_def Let_def split: if_splits)
  with None assms show ?thesis by simp
next
  case (Some si)
  obtain s t where s: "pool_elt (sessions lm) si = Some s"
    and t: "pool_elt (tunnels lm) (s_tunnel_index s) = Some t"
    and upd: "l2tvpp_update_adj cs lm sw ai link = Some
      (case l2tvpp_build_rewrite_i cs t s link of
         None \<Rightarrow> (lm, [])
       | Some (rw, s') \<Rightarrow> (lm\<lparr>sessions := pool_set (sessions lm) si s'\<rparr>,
           [Adj_nbr_midchain_update_rewrite ai si rw,
            Adj_midchain_delegate_stack ai (t_encap_fib_index t) (ip46_ip4 (t_peer_ip t))]))"
    by (rule update_adj_session [OF assms Some])
  show ?thesis
  proof (cases "l2tvpp_build_rewrite_i cs t s link")
    case None
    with upd assms s t \<open>session_of_sw_if_index lm sw = Some si\<close> show ?thesis by simp
  next
    case (Some p)
    obtain rw s' where p: "l2tvpp_build_rewrite_i cs t s link = Some (rw, s')"
      using Some by (cases p) simp
    have "s_tunnel_index s' = s_tunnel_index s" "sess_key s' = sess_key s"
      "s_local_tid s' = s_local_tid s" "s_sw_if_index s' = s_sw_if_index s"
      by (rule build_rewrite_Some [OF p]; simp add: sess_key_def)+
    then have "objects_inv bh (lm\<lparr>sessions := pool_set (sessions lm) si s'\<rparr>)"
      by (rule session_update_inv [OF assms s]) simp
    with upd s t p \<open>session_of_sw_if_index lm sw = Some si\<close> show ?thesis by (simp add: pool_elt_set)
  qed
qed

text \<open>The adjacency-update callback is safe in every reachable state and keeps
  the object model consistent: on a session interface with an IPv4 or IPv6 link it installs the
  session's rewrite, stacks the adjacency on the route to the tunnel's peer and caches the checksum of
  that very rewrite for the fixup; on any other interface it does nothing.\<close>

theorem update_adj_installs_encap:
  assumes "obj_reachable bh lm" and "bihash_ok bh"
  shows "\<exists>lm' calls. l2tvpp_update_adj cs lm sw ai link = Some (lm', calls) \<and> objects_inv bh lm'
    \<and> (case session_of_sw_if_index lm sw of
         None \<Rightarrow> lm' = lm \<and> calls = []
       | Some si \<Rightarrow> (\<exists>s t. pool_elt (sessions lm) si = Some s \<and> pool_elt (tunnels lm) (s_tunnel_index s) = Some t
           \<and> (case l2tvpp_build_rewrite_i cs t s link of
                None \<Rightarrow> lm' = lm \<and> calls = []
              | Some (rw, s') \<Rightarrow> pool_elt (sessions lm') si = Some s'
                  \<and> calls = [Adj_nbr_midchain_update_rewrite ai si rw,
                      Adj_midchain_delegate_stack ai (t_encap_fib_index t) (ip46_ip4 (t_peer_ip t))])))"
  by (rule update_adj_run [OF reachable_inv [OF assms]])

theorem update_adj_installs_encap_witness:
  "\<exists>lm' calls. l2tvpp_update_adj ref_csum ex_main 5 9 VNET_LINK_IP4 = Some (lm', calls)
    \<and> objects_inv alist_bihash lm'"
  using update_adj_installs_encap [OF ex_reachable alist_bihash_ok, of ref_csum 5 9 VNET_LINK_IP4] by blast

end
