(* ===== verification/Session_Handoff.thy ===== *)
theory Session_Handoff
  imports Decap_Properties
begin

text \<open>
  \<^verbatim>\<open>src/plugin/l2tvpp/handoff.c\<close>: the node \<open>l2tvpp-handoff\<close>, which spreads the sessions of a
  LAC over the workers by a hash of (tunnel id, session id).

  The locale \<open>keyed_dispatch\<close> is the contract every spreading stage of the program has to meet:
  packets with the same key get the same target.  Its lemmas say what that gives: the packets of a
  key stay in order, in one queue.  It is interpreted here for the session handoff and, in a later
  theory, for the XDP program.

  \<open>vlib_buffer_enqueue_to_thread\<close> is a parameter: given the queue and the buffers with their
  threads it returns how many it took, at most all of them.
\<close>

section \<open>Dispatch by key\<close>

definition worker_queue :: "('p \<Rightarrow> 'w) \<Rightarrow> 'w \<Rightarrow> 'p list \<Rightarrow> 'p list" where
  "worker_queue target w ps = filter (\<lambda>p. target p = w) ps"

definition flow_of :: "('p \<Rightarrow> 'k option) \<Rightarrow> 'k \<Rightarrow> 'p list \<Rightarrow> 'p list" where
  "flow_of key k ps = filter (\<lambda>p. key p = Some k) ps"

locale keyed_dispatch =
  fixes key :: "'p \<Rightarrow> 'k option"
    and target :: "'p \<Rightarrow> 'w"
  assumes same_key: "key p = Some k \<Longrightarrow> key q = Some k \<Longrightarrow> target p = target q"
begin

lemma flow_in_one_queue:
  assumes "key p = Some k"
  shows "flow_of key k (worker_queue target w ps) = (if w = target p then flow_of key k ps else [])"
proof -
  have "target q = target p" if "key q = Some k" for q
    using same_key [OF that assms] .
  then show ?thesis
    by (induction ps) (auto simp: flow_of_def worker_queue_def)
qed

lemma flow_order_kept:
  shows "\<exists>w. flow_of key k (worker_queue target w ps) = flow_of key k ps
    \<and> (\<forall>w'. w' \<noteq> w \<longrightarrow> flow_of key k (worker_queue target w' ps) = [])"
proof (cases "\<exists>p. key p = Some k")
  case True
  then obtain p where "key p = Some k" by blast
  then show ?thesis
    by (intro exI [of _ "target p"]) (simp add: flow_in_one_queue)
next
  case False
  then have "flow_of key k qs = []" for qs
    by (simp add: flow_of_def)
  then show ?thesis by simp
qed

end

lemma worker_queue_partition:
  assumes "\<forall>p \<in> set ps. target p \<in> set ws" and "distinct ws"
  shows "sum_list (map (\<lambda>w. length (worker_queue target w ps)) ws) = length ps"
  using assms(1)
proof (induction ps)
  case (Cons p ps)
  have one: "(\<Sum>w\<leftarrow>ws. if target p = w then 1 else 0) = (1 :: nat)"
  proof -
    have "target p \<in> set ws" using Cons.prems by simp
    then show ?thesis using assms(2) by (induction ws) (auto simp: sum_list_eq_0_iff)
  qed
  have "length (worker_queue target w (p # ps)) =
      (if target p = w then 1 else 0) + length (worker_queue target w ps)" for w
    by (simp add: worker_queue_def)
  then show ?case
    using Cons by (simp add: sum_list_addf one)
qed (simp add: worker_queue_def)

section \<open>The node\<close>

record l2tvpp_handoff_trace =
  ht_tunnel_id :: u16
  ht_session_id :: u16
  ht_thread_index :: u16

text \<open>One turn of the loop: the ids for the trace and the thread.\<close>

definition handoff_packet :: "u32 \<Rightarrow> u32 \<Rightarrow> vlib_buffer \<Rightarrow> l2tvpp_handoff_trace option" where
  "handoff_packet n_workers this_thread b =
     (if 0 < n_workers then do {
        rc \<leftarrow> l2tvpp_parse_hdr (cur_bytes b) (b_current_length b);
        case rc of
          L2TVPP_HDR_DATA flags tid sid off \<Rightarrow> do {
            w \<leftarrow> l2tvpp_handoff_worker tid sid n_workers;
            Some \<lparr>ht_tunnel_id = tid, ht_session_id = sid, ht_thread_index = w\<rparr> }
        | _ \<Rightarrow> Some \<lparr>ht_tunnel_id = 0, ht_session_id = 0, ht_thread_index = ucast this_thread\<rparr> }
      else Some \<lparr>ht_tunnel_id = 0, ht_session_id = 0, ht_thread_index = ucast this_thread\<rparr>)"

record handoff_effects =
  he_queue :: u32
  he_enqueue :: "(vlib_buffer \<times> u16) list"
  he_congestion :: "u32 option"
  he_traces :: "l2tvpp_handoff_trace list"

fun handoff_loop :: "u32 \<Rightarrow> u32 \<Rightarrow> vlib_buffer list \<Rightarrow> l2tvpp_handoff_trace list option" where
  "handoff_loop n_workers this_thread [] = Some []"
| "handoff_loop n_workers this_thread (b # bs) = do {
     t \<leftarrow> handoff_packet n_workers this_thread b;
     ts \<leftarrow> handoff_loop n_workers this_thread bs;
     Some (t # ts) }"

definition l2tvpp_handoff_node ::
  "(u32 \<Rightarrow> (vlib_buffer \<times> u16) list \<Rightarrow> u32) \<Rightarrow> u32 \<Rightarrow> u32 \<Rightarrow> 'h l2tvpp_main \<Rightarrow> vlib_buffer list
     \<Rightarrow> handoff_effects option" where
  "l2tvpp_handoff_node enqueue n_workers this_thread lm frame = do {
     ts \<leftarrow> handoff_loop n_workers this_thread frame;
     let n = of_nat (length frame);
     let queued = zip frame (map ht_thread_index ts);
     let n_enq = enqueue (handoff_frame_queue_index lm) queued;
     Some \<lparr>he_queue = handoff_frame_queue_index lm, he_enqueue = queued,
           he_congestion = (if n_enq < n then Some (n - n_enq) else None),
           he_traces = map snd (filter (\<lambda>(b, t). VLIB_BUFFER_IS_TRACED \<in> b_flags b) (zip frame ts))\<rparr> }"

section \<open>Dispatch by session\<close>

definition session_of_packet :: "vlib_buffer \<Rightarrow> (u16 \<times> u16) option" where
  "session_of_packet b = (case l2tvpp_parse_hdr (cur_bytes b) (b_current_length b) of
     Some (L2TVPP_HDR_DATA flags tid sid off) \<Rightarrow> Some (tid, sid) | _ \<Rightarrow> None)"

definition handoff_target :: "u32 \<Rightarrow> u32 \<Rightarrow> vlib_buffer \<Rightarrow> u16" where
  "handoff_target n_workers this_thread b =
     (case session_of_packet b of
        Some (tid, sid) \<Rightarrow> (case l2tvpp_handoff_worker tid sid n_workers of Some w \<Rightarrow> w
                            | None \<Rightarrow> ucast this_thread)
      | None \<Rightarrow> ucast this_thread)"

lemma handoff_packet_target:
  assumes "wf_buffer b"
  shows "\<exists>t. handoff_packet n_workers this_thread b = Some t
    \<and> ht_thread_index t = handoff_target n_workers this_thread b"
proof -
  obtain rc where rc: "l2tvpp_parse_hdr (cur_bytes b) (b_current_length b) = Some rc"
    using parse_hdr_no_fault [of "b_current_length b" "cur_bytes b"] assms by auto
  show ?thesis
    by (cases rc; cases "n_workers = 0")
      (auto simp: handoff_packet_def handoff_target_def session_of_packet_def rc
        l2tvpp_handoff_worker_def word_neq_0_conv)
qed

lemma handoff_loop_targets:
  assumes "\<forall>b \<in> set frame. wf_buffer b"
  shows "\<exists>ts. handoff_loop n_workers this_thread frame = Some ts
    \<and> map ht_thread_index ts = map (handoff_target n_workers this_thread) frame"
  using assms
proof (induction frame)
  case (Cons b frame)
  then obtain ts t where "handoff_loop n_workers this_thread frame = Some ts"
    "map ht_thread_index ts = map (handoff_target n_workers this_thread) frame"
    "handoff_packet n_workers this_thread b = Some t"
    "ht_thread_index t = handoff_target n_workers this_thread b"
    using handoff_packet_target [of b n_workers this_thread] by auto
  then show ?case by simp
qed simp

lemma zip_map_self: "zip xs (map f xs) = map (\<lambda>x. (x, f x)) xs"
  by (induction xs) simp_all

lemma handoff_node_run:
  assumes "\<forall>b \<in> set frame. wf_buffer b"
  obtains eff where "l2tvpp_handoff_node enqueue n_workers this_thread lm frame = Some eff"
    and "he_enqueue eff = map (\<lambda>b. (b, handoff_target n_workers this_thread b)) frame"
    and "he_queue eff = handoff_frame_queue_index lm"
    and "he_congestion eff = (let n = of_nat (length frame);
      k = enqueue (handoff_frame_queue_index lm) (he_enqueue eff) in if k < n then Some (n - k) else None)"
proof -
  obtain ts where ts: "handoff_loop n_workers this_thread frame = Some ts"
    "map ht_thread_index ts = map (handoff_target n_workers this_thread) frame"
    using handoff_loop_targets [OF assms] by blast
  then obtain eff where "l2tvpp_handoff_node enqueue n_workers this_thread lm frame = Some eff"
    by (simp add: l2tvpp_handoff_node_def Let_def)
  with ts that [of eff] show thesis by (auto simp: l2tvpp_handoff_node_def zip_map_self Let_def)
qed

interpretation session_dispatch: keyed_dispatch session_of_packet "handoff_target n_workers this_thread"
  by unfold_locales (simp add: handoff_target_def)

text \<open>What a worker receives of one run of the node.\<close>

definition thread_queue :: "(vlib_buffer \<times> u16) list \<Rightarrow> u16 \<Rightarrow> vlib_buffer list" where
  "thread_queue enq w = map fst (filter (\<lambda>(b, t). t = w) enq)"

lemma thread_queue_map: "thread_queue (map (\<lambda>b. (b, f b)) frame) w = worker_queue f w frame"
  by (induction frame) (simp_all add: thread_queue_def worker_queue_def)

text \<open>Session handoff keeps every session in order: on any frame the node runs
  without a fault and enqueues every buffer, and for each (tunnel id, session id) there is one worker
  that receives all packets of that session, in arrival order, while no other worker receives any.\<close>

theorem handoff_keeps_session_order:
  assumes "\<forall>b \<in> set frame. wf_buffer b"
  shows "\<exists>eff. l2tvpp_handoff_node enqueue n_workers this_thread lm frame = Some eff
    \<and> map fst (he_enqueue eff) = frame
    \<and> (\<forall>tid sid. \<exists>w. flow_of session_of_packet (tid, sid) (thread_queue (he_enqueue eff) w) =
          flow_of session_of_packet (tid, sid) frame
        \<and> (\<forall>w'. w' \<noteq> w \<longrightarrow> flow_of session_of_packet (tid, sid) (thread_queue (he_enqueue eff) w') = []))"
proof -
  obtain eff where eff: "l2tvpp_handoff_node enqueue n_workers this_thread lm frame = Some eff"
    and enq: "he_enqueue eff = map (\<lambda>b. (b, handoff_target n_workers this_thread b)) frame"
    using handoff_node_run [OF assms] by metis
  then show ?thesis
    by (simp add: thread_queue_map session_dispatch.flow_order_kept comp_def)
qed

theorem handoff_keeps_session_order_witness:
  "\<exists>eff. l2tvpp_handoff_node (\<lambda>q xs. of_nat (length xs)) 4 0 ex_main [ex_data, ex_control, ex_data] = Some eff
    \<and> map fst (he_enqueue eff) = [ex_data, ex_control, ex_data]"
  using handoff_keeps_session_order [of "[ex_data, ex_control, ex_data]" "\<lambda>q xs. of_nat (length xs)" 4 0 ex_main]
  by auto

lemma handoff_target_value:
  assumes "n_workers < 65536"
  shows "case session_of_packet b of
      Some (tid, sid) \<Rightarrow> if n_workers = 0 then handoff_target n_workers this_thread b = ucast this_thread
        else unat (handoff_target n_workers this_thread b) = 1 + unat (session_hash tid sid) mod unat n_workers
    | None \<Rightarrow> handoff_target n_workers this_thread b = ucast this_thread"
proof (cases "session_of_packet b")
  case (Some ids)
  obtain tid sid where ids: "ids = (tid, sid)" by (cases ids)
  show ?thesis
  proof (cases "n_workers = 0")
    case True
    then show ?thesis using Some ids by (simp add: handoff_target_def l2tvpp_handoff_worker_def)
  next
    case False
    then obtain w where "l2tvpp_handoff_worker tid sid n_workers = Some w"
      by (simp add: l2tvpp_handoff_worker_def)
    moreover have "0 < n_workers" using False by (simp add: word_neq_0_conv)
    ultimately show ?thesis
      using handoff_worker_value [OF _ assms, of tid sid w] False Some ids
      by (simp add: handoff_target_def)
  qed
qed (simp add: handoff_target_def)

text \<open>Claim C19: (functional) where the packets go: for a frame of up to 256 well-formed buffers
  (\<open>VLIB_FRAME_SIZE\<close>) and fewer than 65536 workers, the node runs to the end and hands every buffer on, in order; a v2 data packet is
  handed to an existing worker thread, number 1 plus the session hash modulo the number of workers; anything else, and
  everything when there are no workers, stays on the thread it arrived on; and whatever the queue
  does not take is counted as a congestion drop, so enqueued plus counted is the frame.\<close>

theorem handoff_threads_and_congestion:
  assumes "\<forall>b \<in> set frame. wf_buffer b" and "length frame \<le> 256" and "n_workers < 65536"
    and "\<And>q xs. unat (enqueue q xs) \<le> length xs"
  shows "\<exists>eff. l2tvpp_handoff_node enqueue n_workers this_thread lm frame = Some eff
    \<and> map fst (he_enqueue eff) = frame
    \<and> (\<forall>(b, w) \<in> set (he_enqueue eff). case session_of_packet b of
          Some (tid, sid) \<Rightarrow> if n_workers = 0 then w = ucast this_thread
            else unat w = 1 + unat (session_hash tid sid) mod unat n_workers
        | None \<Rightarrow> w = ucast this_thread)
    \<and> unat (enqueue (handoff_frame_queue_index lm) (he_enqueue eff))
        + (case he_congestion eff of Some d \<Rightarrow> unat d | None \<Rightarrow> 0) = length frame"
proof -
  obtain eff where eff: "l2tvpp_handoff_node enqueue n_workers this_thread lm frame = Some eff"
    and enq: "he_enqueue eff = map (\<lambda>b. (b, handoff_target n_workers this_thread b)) frame"
    and cong: "he_congestion eff = (let n = of_nat (length frame);
      k = enqueue (handoff_frame_queue_index lm) (he_enqueue eff) in if k < n then Some (n - k) else None)"
    by (rule handoff_node_run [OF assms(1)])
  define k where "k = enqueue (handoff_frame_queue_index lm) (he_enqueue eff)"
  have k: "unat k \<le> length frame" using assms(4) [of "handoff_frame_queue_index lm" "he_enqueue eff"]
    by (simp add: k_def enq)
  have n: "unat (of_nat (length frame) :: u32) = length frame"
    using assms(2) by (simp add: unat_of_nat)
  have cong': "he_congestion eff = (if k < of_nat (length frame) then Some (of_nat (length frame) - k) else None)"
    using cong unfolding Let_def k_def .
  have "unat k + (case he_congestion eff of Some d \<Rightarrow> unat d | None \<Rightarrow> 0) = length frame"
  proof (cases "k < of_nat (length frame)")
    case True
    then have "k \<le> of_nat (length frame)" by simp
    then have "unat (of_nat (length frame) - k) = length frame - unat k"
      using n by (simp add: unat_sub)
    with True k show ?thesis by (simp add: cong')
  next
    case False
    with k n show ?thesis by (simp add: cong' word_less_nat_alt)
  qed
  with eff handoff_target_value [OF assms(3), of this_thread] show ?thesis
    by (auto simp: enq k_def comp_def)
qed

theorem handoff_threads_and_congestion_witness:
  "\<exists>eff. l2tvpp_handoff_node (\<lambda>q xs. of_nat (length xs - 1)) 4 0 ex_main [ex_data, ex_control] = Some eff
    \<and> unat (of_nat (length (he_enqueue eff) - 1) :: u32)
        + (case he_congestion eff of Some d \<Rightarrow> unat d | None \<Rightarrow> 0) = 2"
proof -
  have "unat (of_nat (length xs - 1) :: u32) \<le> length xs" for xs :: "(vlib_buffer \<times> u16) list"
    by (simp only: unat_of_nat) (metis diff_le_self le_trans mod_less_eq_dividend)
  then obtain eff where
    "l2tvpp_handoff_node (\<lambda>q xs. of_nat (length xs - 1)) 4 0 ex_main [ex_data, ex_control] = Some eff"
    "unat (of_nat (length (he_enqueue eff) - 1) :: u32)
        + (case he_congestion eff of Some d \<Rightarrow> unat d | None \<Rightarrow> 0) = length [ex_data, ex_control]"
    using handoff_threads_and_congestion [of "[ex_data, ex_control]" 4 "\<lambda>q xs. of_nat (length xs - 1)" 0 ex_main]
    by auto
  then show ?thesis by (simp add: eval_nat_numeral del: of_nat_diff)
qed

end
