(* ===== verification/Objects_Properties.thy ===== *)
theory Objects_Properties
  imports Objects_Invariant
begin

text \<open>
  What the control-plane operations guarantee: the invariant in every reachable state, the exact
  meaning of the decap table, add/delete round trips, the guard of tunnel deletion, error paths
  without effect, the legality of the handoff queue depth, and three behaviours of the adjacency
  cache and of duplicate tunnel ids that the comments and the design document do not announce.
\<close>

section \<open>Tunnel endpoints\<close>

lemma endpoints_inv_cong:
  assumes "endpoints_inv lm" and "local_ip4s lm' = local_ip4s lm"
    and "\<And>i t. pool_elt (tunnels lm') i = Some t \<Longrightarrow>
      \<exists>t'. pool_elt (tunnels lm) i = Some t' \<and> t_local_ip t' = t_local_ip t"
  shows "endpoints_inv lm'"
  using assms unfolding endpoints_inv_def by metis

lemma session_add_del_tunnels:
  assumes "l2tvpp_session_add_del bh slot hw sw lm ti sid psid acfc pfc is_add = Some (rv, lm', out, calls)"
    and "pool_elt (tunnels lm') i = Some t"
  shows "\<exists>t'. pool_elt (tunnels lm) i = Some t' \<and> t_local_ip t' = t_local_ip t"
  using assms
  by (auto simp: l2tvpp_session_add_del_def l2tvpp_session_add_def l2tvpp_session_del_def Let_def
      pool_elt_set bind_eq_Some_conv split: option.splits if_splits prod.splits)

lemma session_add_del_local_ip4s:
  assumes "l2tvpp_session_add_del bh slot hw sw lm ti sid psid acfc pfc is_add = Some (rv, lm', out, calls)"
  shows "local_ip4s lm' = local_ip4s lm"
  using assms
  by (auto simp: l2tvpp_session_add_del_def l2tvpp_session_add_def l2tvpp_session_del_def Let_def
      bind_eq_Some_conv split: option.splits if_splits prod.splits)

lemma tunnel_add_del_endpoints:
  assumes "endpoints_inv lm"
    and "l2tvpp_tunnel_add_del slot lm lip pip lp pp tid ptid is_add = (rv, lm', out)"
  shows "endpoints_inv lm'"
proof (cases "rv = RV_OK")
  case False
  with tunnel_add_del_error [OF assms(2)] assms(1) show ?thesis by simp
next
  case ok: True
  show ?thesis
  proof (cases is_add)
    case True
    with assms(2) ok have add: "l2tvpp_tunnel_add_del slot lm lip pip lp pp tid ptid True = (RV_OK, lm', out)"
      by simp
    show ?thesis
      using assms(1) unfolding tunnel_add_ok(3) [OF add]
      by (auto simp: endpoints_inv_def pool_elt_set new_tunnel_def)
  next
    case False
    with assms(2) ok have "l2tvpp_tunnel_add_del slot lm lip pip lp pp tid ptid False = (RV_OK, lm', out)"
      by simp
    then show ?thesis
      using assms(1) by (elim tunnel_del_ok) (auto simp: endpoints_inv_def pool_elt_put)
  qed
qed

lemma route_frame:
  assumes "l2tvpp_route_add_del bh fi ai lm pfx sw is_add = (rv, lm', calls)"
  shows "tunnels lm' = tunnels lm" "sessions lm' = sessions lm" "session_by_key lm' = session_by_key lm"
    "session_index_by_sw_if_index lm' = session_index_by_sw_if_index lm" "local_ip4s lm' = local_ip4s lm"
  using assms encap_adj_frame [of bh ai lm pfx sw is_add]
  by (auto simp: l2tvpp_route_add_del_def Let_def split: if_splits prod.splits)

lemma obj_step_endpoints:
  assumes "obj_step bh lm lm'" and "endpoints_inv lm"
  shows "endpoints_inv lm'"
  using assms(1)
proof (cases rule: obj_step.cases)
  case tunnel
  then show ?thesis using tunnel_add_del_endpoints [OF assms(2)] by blast
next
  case session
  show ?thesis
    by (rule endpoints_inv_cong [OF assms(2) session_add_del_local_ip4s [OF session(4)]
          session_add_del_tunnels [OF session(4)]])
next
  case route
  then show ?thesis
    by (intro endpoints_inv_cong [OF assms(2)]) (auto simp: route_frame)
next
  case handoff
  then show ?thesis
    by (intro endpoints_inv_cong [OF assms(2)]) (auto simp: l2tvpp_set_handoff_def Let_def split: if_splits)
qed

lemma reachable_endpoints:
  assumes "obj_reachable bh lm"
  shows "endpoints_inv lm"
  using assms
proof (induction rule: obj_reachable.induct)
  case (init fsrc unset lm calls)
  then show ?case by (auto simp: l2tvpp_init_def endpoints_inv_def pool_elt_def)
qed (blast intro: obj_step_endpoints)

section \<open>Consistency of the object model\<close>

text \<open>Claim C6: (invariant) in every state the control plane can reach while the LNS does not give one
  local tunnel id to two different peers (a tunnel added twice is refused by the code; VPP hands out
  free slots and unused interfaces), the session pool, the decap table, the interface-to-session vector
  and the tunnels' session counters agree with one another, no two live tunnels have the same local id,
  and the endpoint list the fast path consults holds, without duplicates, the local address of every
  live tunnel. Without the premise on tunnel ids the counters do go wrong
  (\<open>shared_tunnel_id_corrupts_counts\<close>).\<close>

theorem control_plane_invariant:
  assumes "obj_reachable bh lm" and "bihash_ok bh"
  shows "objects_inv bh lm \<and> endpoints_inv lm"
  using reachable_inv [OF assms] reachable_endpoints [OF assms(1)] by simp

theorem control_plane_invariant_witness: "objects_inv alist_bihash ex_main \<and> endpoints_inv ex_main"
  using control_plane_invariant [OF ex_reachable alist_bihash_ok] by simp

text \<open>The decap table means what the data plane takes it to mean: it finds a
  (tunnel id, session id) pair exactly when a live session has that pair, and then gives the slot of
  the one session that has it.\<close>

theorem session_lookup_exact:
  assumes "obj_reachable bh lm" and "bihash_ok bh"
  shows "bh_search bh (session_by_key lm) (l2tvpp_session_key tid sid) = Some v \<longleftrightarrow>
    (\<exists>si s. v = ucast si \<and> pool_elt (sessions lm) si = Some s
      \<and> s_local_tid s = tid \<and> s_local_sid s = sid)"
  using objs.lookup_iff [of "(bh, lm)" "l2tvpp_session_key tid sid" v] reachable_inv [OF assms]
  by (simp add: sess_key_def session_key_inj)

theorem session_lookup_exact_witness:
  "bh_search alist_bihash (session_by_key ex_main) (l2tvpp_session_key 100 1000) = Some 0"
  using session_lookup_exact [OF ex_reachable alist_bihash_ok, of 100 1000 0]
  by (auto intro!: exI [of _ "0 :: u32"] simp: ex_main_eq pool_elt_def ex_session_def)

section \<open>Sessions and tunnels\<close>

lemma session_add_del_add:
  assumes "pool_elt (tunnels lm) ti = Some t"
    and "bh_search bh (session_by_key lm) (l2tvpp_session_key (t_local_tid t) sid) = None"
  shows "l2tvpp_session_add_del bh slot hw sw lm ti sid psid acfc pfc True =
    (case l2tvpp_session_add bh slot hw sw lm ti t sid psid acfc pfc of (lm', calls) \<Rightarrow>
       Some (RV_OK, lm', Some sw, calls))"
  using assms by (simp add: l2tvpp_session_add_del_def Let_def)

text \<open>What can be observed of the objects: the tables as functions.\<close>

definition same_objects :: "'h bihash_8_8 \<Rightarrow> 'h l2tvpp_main \<Rightarrow> 'h l2tvpp_main \<Rightarrow> bool" where
  "same_objects bh lm lm' \<longleftrightarrow> pool_elt (tunnels lm') = pool_elt (tunnels lm)
     \<and> pool_elt (sessions lm') = pool_elt (sessions lm)
     \<and> bh_search bh (session_by_key lm') = bh_search bh (session_by_key lm)
     \<and> session_of_sw_if_index lm' = session_of_sw_if_index lm
     \<and> local_ip4s lm' = local_ip4s lm"

lemma session_add_then_del:
  assumes ok: "bihash_ok bh" and t: "pool_elt (tunnels lm) ti = Some t"
    and slot: "pool_elt (sessions lm) slot = None" "slot \<noteq> - 1"
    and sw: "session_of_sw_if_index lm sw = None"
    and key: "bh_search bh (session_by_key lm) (l2tvpp_session_key (t_local_tid t) sid) = None"
    and add: "l2tvpp_session_add bh slot hw sw lm ti t sid psid acfc pfc = (lm1, calls1)"
  obtains lm2 calls2 where
    "l2tvpp_session_add_del bh slot' hw' sw' lm1 ti sid psid' acfc' pfc' False = Some (RV_OK, lm2, None, calls2)"
    and "same_objects bh lm lm2" and "Vnet_delete_hw_interface hw \<in> set calls2"
proof -
  define s where "s = \<lparr>s_tunnel_index = ti, s_local_tid = t_local_tid t, s_local_sid = sid,
    s_peer_sid = psid, s_acfc = acfc, s_pfc = pfc, s_sw_if_index = sw, s_hw_if_index = hw,
    s_encap_ip_csum0 = 0\<rparr>"
  define k where "k = l2tvpp_session_key (t_local_tid t) sid"
  define t1 where "t1 = t\<lparr>t_n_sessions := t_n_sessions t + 1\<rparr>"
  have lm1: "tunnels lm1 = pool_set (tunnels lm) ti t1" "sessions lm1 = pool_set (sessions lm) slot s"
    "session_by_key lm1 = fst (bh_add bh (session_by_key lm) k (ucast slot))"
    "session_index_by_sw_if_index lm1 = vec_store (session_index_by_sw_if_index lm) sw slot"
    "local_ip4s lm1 = local_ip4s lm"
    using add by (auto simp: l2tvpp_session_add_def Let_def s_def k_def t1_def)
  have len: "unat sw < length (session_index_by_sw_if_index lm1)"
    unfolding lm1(4) by (simp add: vec_store_def)
  have "pool_elt (tunnels lm1) ti = Some t1" "t_local_tid t1 = t_local_tid t"
    "bh_search bh (session_by_key lm1) k = Some (ucast slot)" "pool_elt (sessions lm1) slot = Some s"
    by (simp_all add: lm1 pool_elt_set bihash_okD [OF ok] t1_def)
  then obtain lm2 calls2 where
    del: "l2tvpp_session_del bh lm1 ti t1 k slot s = Some (lm2, calls2)"
    and res: "l2tvpp_session_add_del bh slot' hw' sw' lm1 ti sid psid' acfc' pfc' False =
      Some (RV_OK, lm2, None, calls2)"
    using len by (simp add: l2tvpp_session_add_del_def l2tvpp_session_del_def Let_def k_def s_def)
  have lm2: "tunnels lm2 = pool_set (tunnels lm1) ti (t1\<lparr>t_n_sessions := t_n_sessions t1 - 1\<rparr>)"
    "sessions lm2 = pool_put (sessions lm1) slot"
    "session_by_key lm2 = fst (bh_del bh (session_by_key lm1) k)"
    "session_index_by_sw_if_index lm2 = (session_index_by_sw_if_index lm1)[unat sw := - 1]"
    "local_ip4s lm2 = local_ip4s lm1" "Vnet_delete_hw_interface hw \<in> set calls2"
    using del by (auto simp: l2tvpp_session_del_def Let_def s_def split: if_splits)
  have "same_objects bh lm lm2"
    using t slot sw key session_of_vec_store [OF lm1(4) slot(2)] session_of_clear [OF lm2(4)]
    by (auto simp: same_objects_def fun_eq_iff lm1 lm2 pool_elt_set pool_elt_put bihash_okD [OF ok]
        t1_def k_def)
  from res this lm2(6) show thesis by (rule that)
qed

text \<open>Adding a session and deleting it again under its session id restores the
  object model: same tunnels with the same session counts, same sessions, same decap table, same
  interface map; and the interface registered for it is deleted.\<close>

theorem session_add_del_roundtrip:
  assumes "bihash_ok bh" and "pool_is_free_index (sessions lm) slot" and "slot \<noteq> - 1"
    and "session_of_sw_if_index lm sw = None"
    and "l2tvpp_session_add_del bh slot hw sw lm ti sid psid acfc pfc True = Some (RV_OK, lm1, out, calls)"
  shows "\<exists>lm2 calls2.
    l2tvpp_session_add_del bh slot' hw' sw' lm1 ti sid psid' acfc' pfc' False = Some (RV_OK, lm2, None, calls2)
    \<and> same_objects bh lm lm2 \<and> out = Some sw \<and> Vnet_delete_hw_interface hw \<in> set calls2"
proof -
  obtain t where t: "pool_elt (tunnels lm) ti = Some t"
    and k: "bh_search bh (session_by_key lm) (l2tvpp_session_key (t_local_tid t) sid) = None"
    and out: "out = Some sw"
    and add: "l2tvpp_session_add bh slot hw sw lm ti t sid psid acfc pfc = (lm1, calls)"
    using assms(5) by (auto simp: l2tvpp_session_add_del_def Let_def split: option.splits prod.splits)
  have "pool_elt (sessions lm) slot = None"
    using assms(2) by (simp add: pool_is_free_index_def)
  from session_add_then_del [OF assms(1) t this assms(3,4) k add, of slot' hw' sw' psid' acfc' pfc']
  show ?thesis using out by blast
qed

theorem session_add_del_roundtrip_witness:
  "\<exists>lm2 calls2. l2tvpp_session_add_del alist_bihash 1 8 6 ex_main 0 1000 0 0 0 False =
      Some (RV_OK, lm2, None, calls2) \<and> same_objects alist_bihash ex_tunnel lm2"
proof -
  obtain calls where "l2tvpp_session_add_del alist_bihash 0 7 5 ex_tunnel 0 1000 2000 0 0 True =
      Some (RV_OK, ex_main, Some 5, calls)"
    using ex_main_eq(1) by blast
  then show ?thesis
    using session_add_del_roundtrip [OF alist_bihash_ok, of ex_tunnel 0 5 7 0 1000 2000 0 0 ex_main
        "Some 5" calls 1 8 6 0 0 0]
    by (auto simp: pool_is_free_index_def pool_elt_def ex_tunnel_eq session_of_sw_if_index_def)
qed

lemma find_after_del:
  assumes "objects_inv bh lm" and "l2tvpp_tunnel_find lm ip port tid = Some i"
  shows "l2tvpp_tunnel_find (lm\<lparr>tunnels := pool_put (tunnels lm) i\<rparr>) ip port tid = None"
proof -
  obtain t where "pool_elt (tunnels lm) i = Some t" "t_local_tid t = tid"
    using tunnel_find_Some [OF assms(2)] by (auto simp: tunnel_matches_def)
  then show ?thesis
    using assms(1) unfolding tunnel_find_None objects_inv_def inv_tids_def
    by (auto simp: pool_elt_put tunnel_matches_def)
qed

lemma tunnel_unused_iff:
  assumes "objects_inv bh lm" and "pool_elt (tunnels lm) i = Some t"
  shows "t_n_sessions t = 0 \<longleftrightarrow> \<not> (\<exists>si s. pool_elt (sessions lm) si = Some s \<and> s_tunnel_index s = i)"
proof -
  have "unat (t_n_sessions t) = vpool.tally (sessions lm) (\<lambda>s. s_tunnel_index s = i)"
    using assms by (simp add: objects_inv_def inv_counts_def)
  then show ?thesis
    using vpool.tally_zero_iff [of "sessions lm" "\<lambda>s. s_tunnel_index s = i"]
    by (auto simp: unat_eq_zero [symmetric])
qed

text \<open>A tunnel is never deleted under its sessions: deletion of a tunnel that
  exists is refused with \<open>INSTANCE_IN_USE\<close>, and nothing changes, exactly when some live session
  belongs to it; otherwise it succeeds and the tunnel is gone.\<close>

theorem tunnel_delete_guarded:
  assumes "obj_reachable bh lm" and "bihash_ok bh"
    and "ip46_address_is_ip4 lip" and "ip46_address_is_ip4 pip"
    and "l2tvpp_tunnel_find lm pip pp tid = Some i"
    and "l2tvpp_tunnel_add_del slot lm lip pip lp pp tid ptid False = (rv, lm', out)"
  shows "if \<exists>si s. pool_elt (sessions lm) si = Some s \<and> s_tunnel_index s = i
    then rv = VNET_API_ERROR_INSTANCE_IN_USE \<and> lm' = lm
    else rv = RV_OK \<and> l2tvpp_tunnel_find lm' pip pp tid = None \<and> pool_elt (tunnels lm') i = None"
proof -
  note inv = reachable_inv [OF assms(1,2)]
  obtain t where t: "pool_elt (tunnels lm) i = Some t"
    using tunnel_find_Some [OF assms(5)] by blast
  note tunnel_unused_iff [OF inv t]
  moreover have "(rv, lm') = (if t_n_sessions t \<noteq> 0 then (VNET_API_ERROR_INSTANCE_IN_USE, lm)
      else (RV_OK, lm\<lparr>tunnels := pool_put (tunnels lm) i\<rparr>))"
    using assms(3-6) t by (auto simp: l2tvpp_tunnel_add_del_def Let_def split: if_splits)
  ultimately show ?thesis
    using find_after_del [OF inv assms(5)] by (auto simp: pool_elt_put split: if_splits)
qed

lemma ex_main_find: "l2tvpp_tunnel_find ex_main ex_peer 1701 100 = Some 0"
  by (simp add: l2tvpp_tunnel_find_def pool_indices_def ex_main_eq pool_elt_def tunnel_matches_def
      new_tunnel_def)

theorem tunnel_delete_guarded_witness:
  "fst (l2tvpp_tunnel_add_del 1 ex_main ex_local ex_peer 1701 1701 100 200 False) =
     VNET_API_ERROR_INSTANCE_IN_USE"
proof -
  obtain rv lm' out where r: "l2tvpp_tunnel_add_del 1 ex_main ex_local ex_peer 1701 1701 100 200 False =
      (rv, lm', out)"
    by (metis surj_pair)
  have "pool_elt (sessions ex_main) 0 = Some ex_session \<and> s_tunnel_index ex_session = 0"
    by (simp add: ex_main_eq pool_elt_def ex_session_def)
  moreover have "ip46_address_is_ip4 ex_local" "ip46_address_is_ip4 ex_peer"
    by (simp_all add: ex_local_def ex_peer_def ip46_address_is_ip4_def)
  ultimately show ?thesis
    using tunnel_delete_guarded [OF ex_reachable alist_bihash_ok _ _ ex_main_find r]
    by (auto simp: r split: if_splits)
qed

text \<open>Every error return of the three control-plane operations is without effect.\<close>

lemma tunnel_error:
  assumes "l2tvpp_tunnel_add_del slot lm lip pip lp pp tid ptid is_add = (rv, lm', out)" and "rv \<noteq> RV_OK"
  shows "lm' = lm \<and> out = None"
  using assms by (simp add: l2tvpp_tunnel_add_del_def Let_def split: if_splits option.splits; elim conjE; simp)

lemma session_error:
  assumes "l2tvpp_session_add_del bh slot hw sw lm ti sid psid acfc pfc is_add = Some (rv, lm', out, calls)"
    and "rv \<noteq> RV_OK"
  shows "lm' = lm \<and> out = None \<and> calls = []"
  using assms by (auto simp: l2tvpp_session_add_del_def Let_def bind_eq_Some_conv
        split: option.splits if_splits prod.splits)

lemma route_error:
  assumes "l2tvpp_route_add_del bh fi ai lm pfx sw is_add = (rv, lm', calls)" and "rv \<noteq> RV_OK"
  shows "lm' = lm \<and> calls = []"
  using assms by (auto simp: l2tvpp_route_add_del_def Let_def split: if_splits prod.splits)

section \<open>The handoff queue\<close>

text \<open>\<open>vppinfra\<close>: \<open>is_pow2\<close> tests for at most one set bit, \<open>max_log2\<close> rounds the
  logarithm up.\<close>

definition pow2_ok :: "(u32 \<Rightarrow> bool) \<Rightarrow> bool" where
  "pow2_ok is_pow2 \<longleftrightarrow> (\<forall>n. n \<noteq> 0 \<longrightarrow> (is_pow2 n \<longleftrightarrow> (\<exists>k < 32. n = push_bit k 1)))"

definition max_log2_ok :: "(u32 \<Rightarrow> nat) \<Rightarrow> bool" where
  "max_log2_ok max_log2 \<longleftrightarrow>
     (\<forall>n. n \<noteq> 0 \<longrightarrow> unat n \<le> 2 ^ max_log2 n \<and> (\<forall>k. unat n \<le> 2 ^ k \<longrightarrow> max_log2 n \<le> k))"

lemma unat_push_bit_1 [simp]:
  assumes "k < 32"
  shows "unat (2 ^ k :: u32) = 2 ^ k"
proof -
  have "(2 :: nat) ^ k < 2 ^ 32" using assms by (intro power_strict_increasing) simp_all
  then have "unat (of_nat (2 ^ k) :: u32) = 2 ^ k" by (simp only: unat_of_nat) simp
  then show ?thesis by simp
qed

text \<open>The frame-queue depth handed to VPP is legal for every configuration up to
  2\<open>^\<close>31: it is a power of two, at least 9 plus the number of threads and at least the configured
  depth, it is the smallest such power of two, and it is what the state records from then on.\<close>

theorem handoff_queue_depth_legal:
  assumes "pow2_ok is_pow2" and "max_log2_ok max_log2"
    and "unat (handoff_queue_nelts lm) \<le> 2 ^ 31" and "unat n_threads + 9 \<le> 2 ^ 31"
  shows "\<exists>n lm' k. l2tvpp_handoff_queue_nelts is_pow2 max_log2 n_threads lm = Some (n, lm')
    \<and> handoff_queue_nelts lm' = n \<and> unat n = 2 ^ k
    \<and> max (unat (handoff_queue_nelts lm)) (unat n_threads + 9) \<le> unat n
    \<and> (\<forall>j. max (unat (handoff_queue_nelts lm)) (unat n_threads + 9) \<le> 2 ^ j \<longrightarrow> k \<le> j)"
proof -
  define n1 where "n1 = (if handoff_queue_nelts lm < 9 + n_threads then 9 + n_threads
    else handoff_queue_nelts lm)"
  have "unat (9 + n_threads) = unat n_threads + 9"
    using assms(4) by (simp add: unat_word_ariths)
  then have n1: "unat n1 = max (unat (handoff_queue_nelts lm)) (unat n_threads + 9)"
    by (simp add: n1_def word_less_nat_alt)
  have le: "unat n1 \<le> 2 ^ 31" using assms(3,4) n1 by simp
  have "n1 \<noteq> 0" using n1 by (metis add_is_0 le_zero_eq max.cobounded2 unsigned_0 zero_neq_numeral)
  then have log: "unat n1 \<le> 2 ^ max_log2 n1" "\<And>k. unat n1 \<le> 2 ^ k \<Longrightarrow> max_log2 n1 \<le> k"
    and p2: "is_pow2 n1 \<longleftrightarrow> (\<exists>k < 32. n1 = push_bit k 1)"
    using assms(1,2) by (auto simp: pow2_ok_def max_log2_ok_def)
  have m: "max_log2 n1 < 32" using log(2) [OF le] by simp
  define n2 where "n2 = (if is_pow2 n1 then n1 else push_bit (max_log2 n1) 1)"
  have res: "l2tvpp_handoff_queue_nelts is_pow2 max_log2 n_threads lm =
      Some (n2, if n2 \<noteq> handoff_queue_nelts lm then lm\<lparr>handoff_queue_nelts := n2\<rparr> else lm)"
    using m by (simp add: l2tvpp_handoff_queue_nelts_def Let_def n1_def n2_def)
  have "unat n2 = 2 ^ max_log2 n1"
  proof (cases "is_pow2 n1")
    case True
    then obtain k where k: "k < 32" "n1 = push_bit k 1" using p2 by blast
    then have "unat n1 = 2 ^ k" by simp
    with log have "max_log2 n1 = k"
      by (metis le_antisym order_refl power_increasing_iff one_less_numeral_iff semiring_norm(76))
    with True \<open>unat n1 = 2 ^ k\<close> show ?thesis by (simp add: n2_def)
  qed (simp add: n2_def m)
  with res log n1 show ?thesis
    by (intro exI [of _ n2] exI [of _ "max_log2 n1"] exI) auto
qed

text \<open>For larger configured values the rounding shifts an \<open>int\<close> by its width: those are exactly the
  configurations for which the depth is undefined.\<close>

lemma handoff_queue_depth_undefined_iff:
  assumes "pow2_ok is_pow2" and "max_log2_ok max_log2" and "unat n_threads + 9 \<le> 2 ^ 31"
  shows "l2tvpp_handoff_queue_nelts is_pow2 max_log2 n_threads lm = None \<longleftrightarrow> 2 ^ 31 < unat (handoff_queue_nelts lm)"
proof (cases "unat (handoff_queue_nelts lm) \<le> 2 ^ 31")
  case True
  from handoff_queue_depth_legal [OF assms(1,2) True assms(3)] show ?thesis using True by auto
next
  case False
  let ?n = "handoff_queue_nelts lm"
  have "unat (9 + n_threads) = unat n_threads + 9" using assms(3) by (simp add: unat_word_ariths)
  then have min: "\<not> ?n < 9 + n_threads" using False assms(3) by (simp add: word_less_nat_alt)
  have n0: "?n \<noteq> 0" using False by auto
  have lt: "(2 :: nat) ^ 31 < 2 ^ max_log2 ?n"
    using assms(2) n0 False unfolding max_log2_ok_def by (metis le_trans not_le)
  have log: "\<not> max_log2 ?n < 32" using power_less_imp_less_exp [OF _ lt] by simp
  have "\<not> is_pow2 ?n"
  proof
    assume "is_pow2 ?n"
    then obtain k where k: "k < 32" "?n = push_bit k 1" using assms(1) n0 by (auto simp: pow2_ok_def)
    then have "unat ?n = 2 ^ k" by simp
    moreover have "(2 :: nat) ^ k \<le> 2 ^ 31" using k(1) by (intro power_increasing) simp_all
    ultimately show False using False by simp
  qed
  with min log False show ?thesis by (simp add: l2tvpp_handoff_queue_nelts_def Let_def)
qed

text \<open>Functions with the behaviour of the two \<open>vppinfra\<close> helpers.\<close>

definition is_pow2_ref :: "u32 \<Rightarrow> bool" where
  "is_pow2_ref n \<longleftrightarrow> list_ex (\<lambda>k. n = push_bit k 1) [0..<32]"

definition max_log2_ref :: "u32 \<Rightarrow> nat" where
  "max_log2_ref n = length (takeWhile (\<lambda>k. 2 ^ k < unat n) [0..<32])"

lemma pow2_ref_ok: "pow2_ok is_pow2_ref"
  unfolding pow2_ok_def is_pow2_ref_def by (simp add: list_ex_iff Bex_def conj_commute)

lemma max_log2_ref_ok: "max_log2_ok max_log2_ref"
  unfolding max_log2_ok_def
proof (intro allI impI conjI)
  fix n :: u32
  let ?tw = "takeWhile (\<lambda>k. 2 ^ k < unat n) [0..<32]"
  show "unat n \<le> 2 ^ max_log2_ref n"
  proof (cases "length ?tw < 32")
    case True
    then have "\<not> 2 ^ ([0..<32] ! length ?tw) < unat n"
      by (intro nth_length_takeWhile) simp
    with True show ?thesis by (simp add: max_log2_ref_def)
  next
    case False
    moreover have "length ?tw \<le> 32" using length_takeWhile_le [of "\<lambda>k. 2 ^ k < unat n" "[0..<32]"] by simp
    ultimately have "max_log2_ref n = 32" by (simp add: max_log2_ref_def)
    then show ?thesis using unat_u32_less [of n] by simp
  qed
  fix k
  assume k: "unat n \<le> 2 ^ k"
  show "max_log2_ref n \<le> k"
  proof (rule ccontr)
    assume "\<not> max_log2_ref n \<le> k"
    then have lt: "k < length ?tw" by (simp add: max_log2_ref_def)
    moreover have "length ?tw \<le> 32" using length_takeWhile_le [of "\<lambda>k. 2 ^ k < unat n" "[0..<32]"] by simp
    ultimately have "?tw ! k = k" by (simp add: takeWhile_nth)
    with lt have "k \<in> set ?tw" by (metis nth_mem)
    with k show False by (auto dest: set_takeWhileD)
  qed
qed

theorem handoff_queue_depth_legal_witness:
  "\<exists>n lm' k. l2tvpp_handoff_queue_nelts is_pow2_ref max_log2_ref 100 ex_main = Some (n, lm')
    \<and> handoff_queue_nelts lm' = n \<and> unat n = 2 ^ k \<and> 109 \<le> unat n"
proof -
  have "handoff_queue_nelts ex_main = 64"
    by (simp add: ex_main_rest L2TVPP_HANDOFF_QUEUE_NELTS_DEFAULT_def)
  then show ?thesis
    using handoff_queue_depth_legal [OF pow2_ref_ok max_log2_ref_ok, of ex_main 100] by auto
qed

section \<open>The encap adjacency cache\<close>

type_synonym route_op = "u32 \<times> u32 \<times> fib_prefix \<times> u32 \<times> bool"

text \<open>A run of route operations, with the calls into VPP they make.\<close>

fun route_ops :: "'h bihash_8_8 \<Rightarrow> 'h l2tvpp_main \<Rightarrow> route_op list \<Rightarrow> 'h l2tvpp_main \<times> vpp_call list" where
  "route_ops bh lm [] = (lm, [])"
| "route_ops bh lm ((fi, ai, pfx, sw, is_add) # ops) =
     (let (rv, lm1, calls1) = l2tvpp_route_add_del bh fi ai lm pfx sw is_add;
          (lm2, calls2) = route_ops bh lm1 ops
      in (lm2, calls1 @ calls2))"

text \<open>Locks minus unlocks of an adjacency, and the cache entries that point to it.\<close>

fun lock_delta :: "u32 \<Rightarrow> vpp_call \<Rightarrow> int" where
  "lock_delta ai (Adj_nbr_add_or_lock nh sw a) = (if a = ai then 1 else 0)"
| "lock_delta ai (Adj_unlock a) = (if a = ai then - 1 else 0)"
| "lock_delta ai _ = 0"

definition adj_locks :: "vpp_call list \<Rightarrow> u32 \<Rightarrow> int" where
  "adj_locks calls ai = sum_list (map (lock_delta ai) calls)"

definition cached_keys :: "'h bihash_8_8 \<Rightarrow> 'h l2tvpp_main \<Rightarrow> u32 \<Rightarrow> u64 set" where
  "cached_keys bh lm ai = (if encap_adj_init lm
     then {k. \<exists>v. bh_search bh (encap_adj_by_ip4 lm) k = Some v \<and> ucast v = ai} else {})"

lemma adj_locks_append [simp]: "adj_locks (xs @ ys) ai = adj_locks xs ai + adj_locks ys ai"
  by (simp add: adj_locks_def)

lemma cached_keys_init:
  assumes "bihash_ok bh"
  shows "cached_keys bh (l2tvpp_encap_adj_init bh lm) ai = cached_keys bh lm ai"
    and "encap_adj_init (l2tvpp_encap_adj_init bh lm)"
  by (auto simp: cached_keys_def l2tvpp_encap_adj_init_def bihash_okD(1) [OF assms])

lemma encap_adj_cached:
  assumes "bihash_ok bh" and "l2tvpp_encap_adj_add_del bh a lm pfx sw is_add = (lm', calls)"
  shows "int (card (cached_keys bh lm' ai)) \<le> int (card (cached_keys bh lm ai)) + adj_locks calls ai"
proof -
  define lm1 where "lm1 = l2tvpp_encap_adj_init bh lm"
  define k :: u64 where "k = ucast (fp_addr pfx)"
  note init = cached_keys_init [OF assms(1), of lm, folded lm1_def]
  let ?C = "cached_keys bh lm1 ai"
  have ?thesis if skip: "fp_proto pfx \<noteq> FIB_PROTOCOL_IP4 \<or> fp_len pfx \<noteq> 32"
    using assms(2) skip by (simp add: l2tvpp_encap_adj_add_del_def adj_locks_def)
  moreover have ?thesis if v4: "\<not> (fp_proto pfx \<noteq> FIB_PROTOCOL_IP4 \<or> fp_len pfx \<noteq> 32)" and add: is_add
  proof -
    have calls: "calls = [Adj_nbr_add_or_lock (fp_addr pfx) sw a]"
      and lm': "encap_adj_init lm'" "encap_adj_by_ip4 lm' = fst (bh_add bh (encap_adj_by_ip4 lm1) k (ucast a))"
      using assms(2) v4 add init(2)
      by (auto simp: l2tvpp_encap_adj_add_del_def Let_def lm1_def k_def split: prod.splits)
    have "cached_keys bh lm' ai \<subseteq> (if a = ai then insert k ?C else ?C)"
      using init(2) lm' by (auto simp: cached_keys_def bihash_okD(2) [OF assms(1)] split: if_splits)
    then have "card (cached_keys bh lm' ai) \<le> card (if a = ai then insert k ?C else ?C)"
      by (rule card_mono [rotated]) simp
    also have "\<dots> \<le> card ?C + (if a = ai then 1 else 0)" by (simp add: card_insert_if)
    finally show ?thesis by (auto simp: calls adj_locks_def init(1) split: if_splits)
  qed
  moreover have ?thesis if v4: "\<not> (fp_proto pfx \<noteq> FIB_PROTOCOL_IP4 \<or> fp_len pfx \<noteq> 32)" and del: "\<not> is_add"
  proof (cases "bh_search bh (encap_adj_by_ip4 lm1) k")
    case None
    then have "lm' = lm1" "calls = []"
      using assms(2) v4 del by (simp_all add: l2tvpp_encap_adj_add_del_def Let_def lm1_def k_def)
    then show ?thesis by (simp add: init(1) adj_locks_def)
  next
    case (Some v)
    then have calls: "calls = [Adj_unlock (ucast v)]"
      and lm': "encap_adj_init lm'" "encap_adj_by_ip4 lm' = fst (bh_del bh (encap_adj_by_ip4 lm1) k)"
      using assms(2) v4 del init(2)
      by (auto simp: l2tvpp_encap_adj_add_del_def Let_def lm1_def k_def)
    have eq: "cached_keys bh lm' ai = ?C - {k}"
      using init(2) lm' by (auto simp: cached_keys_def bihash_okD(4) [OF assms(1)] split: if_splits)
    have mem: "k \<in> ?C \<longleftrightarrow> ucast v = ai"
      using init(2) Some by (simp add: cached_keys_def)
    have locks: "adj_locks calls ai = (if ucast v = ai then - 1 else 0)"
      by (simp add: calls adj_locks_def)
    show ?thesis
    proof (cases "k \<in> ?C")
      case True
      then have "Suc (card (?C - {k})) = card ?C" by (rule card_Suc_Diff1 [OF finite])
      with True show ?thesis unfolding eq init(1) [symmetric] locks using mem by simp
    next
      case False
      then show ?thesis unfolding eq init(1) [symmetric] locks using mem by simp
    qed
  qed
  ultimately show ?thesis by blast
qed

lemma route_cached:
  assumes "bihash_ok bh" and "l2tvpp_route_add_del bh fi a lm pfx sw is_add = (rv, lm', calls)"
  shows "int (card (cached_keys bh lm' ai)) \<le> int (card (cached_keys bh lm ai)) + adj_locks calls ai"
proof (cases "session_of_sw_if_index lm sw = None")
  case True
  with assms(2) show ?thesis by (simp add: l2tvpp_route_add_del_def adj_locks_def)
next
  case False
  obtain lm1 cs where e: "l2tvpp_encap_adj_add_del bh a lm pfx sw is_add = (lm1, cs)"
    by (metis surj_pair)
  have "l2tvpp_route_add_del bh fi a lm pfx sw is_add =
      (RV_OK, lm1, (if is_add then Fib_table_entry_path_add2 fi pfx sw
         else Fib_table_entry_path_remove2 fi pfx sw) # cs)"
    unfolding l2tvpp_route_add_del_def e Let_def using False by simp
  with assms(2) have "lm' = lm1" "adj_locks calls ai = adj_locks cs ai"
    by (auto simp: adj_locks_def)
  with encap_adj_cached [OF assms(1) e, of ai] show ?thesis by simp
qed

text \<open>A cached adjacency is always locked: over any sequence of route operations
  since start-up, the locks the plugin took on an adjacency minus those it released are at least the
  number of subscriber addresses the encap cache maps to it, so the fast path never hands a packet to
  an adjacency VPP was allowed to free.\<close>

theorem cached_adjacency_locked:
  assumes "bihash_ok bh" and "\<not> encap_adj_init lm" and "route_ops bh lm ops = (lm', calls)"
  shows "int (card (cached_keys bh lm' ai)) \<le> adj_locks calls ai"
proof -
  have "int (card (cached_keys bh lm' ai)) \<le> int (card (cached_keys bh lm ai)) + adj_locks calls ai"
    using assms(3)
  proof (induction ops arbitrary: lm lm' calls)
    case (Cons op ops)
    obtain fi a pfx sw is_add where op: "op = (fi, a, pfx, sw, is_add)" by (cases op)
    obtain rv lm1 c1 where r: "l2tvpp_route_add_del bh fi a lm pfx sw is_add = (rv, lm1, c1)"
      by (metis surj_pair)
    obtain c2 where "route_ops bh lm1 ops = (lm', c2)" "calls = c1 @ c2"
      using Cons.prems by (auto simp: op r split: prod.splits)
    with Cons.IH [of lm1 lm' c2] route_cached [OF assms(1) r, of ai] show ?case by simp
  qed (simp add: adj_locks_def)
  moreover have "cached_keys bh lm ai = {}"
    using assms(2) by (simp add: cached_keys_def)
  ultimately show ?thesis by simp
qed

definition ex_subscriber :: fib_prefix where
  "ex_subscriber = \<lparr>fp_proto = FIB_PROTOCOL_IP4, fp_addr = le32 100 64 0 1, fp_addr6 = 0, fp_len = 32\<rparr>"

lemma ex_main_session_of: "session_of_sw_if_index ex_main 5 = Some 0"
  by (simp add: session_of_sw_if_index_def ex_main_eq)

theorem cached_adjacency_locked_witness:
  "int (card (cached_keys alist_bihash
      (fst (route_ops alist_bihash ex_main [(0, 9, ex_subscriber, 5, True)])) 9))
    \<le> adj_locks (snd (route_ops alist_bihash ex_main [(0, 9, ex_subscriber, 5, True)])) 9"
  using cached_adjacency_locked [OF alist_bihash_ok ex_main_rest(1)] by (metis prod.collapse)

lemma route_add_host:
  assumes "session_of_sw_if_index lm sw \<noteq> None" and "bihash_ok bh"
    and "fp_proto pfx = FIB_PROTOCOL_IP4" and "fp_len pfx = 32"
  shows "l2tvpp_route_add_del bh fi ai lm pfx sw True =
    (RV_OK, (l2tvpp_encap_adj_init bh lm)\<lparr>
        encap_adj_by_ip4 := fst (bh_add bh (encap_adj_by_ip4 (l2tvpp_encap_adj_init bh lm))
          (ucast (fp_addr pfx)) (ucast ai)),
        encap_adj_count := encap_adj_count lm + 1\<rparr>,
     [Fib_table_entry_path_add2 fi pfx sw, Adj_nbr_add_or_lock (fp_addr pfx) sw ai])"
  using assms bihash_okD(3) [OF assms(2)]
  by (simp add: l2tvpp_route_add_del_def l2tvpp_encap_adj_add_del_def Let_def case_prod_beta
      l2tvpp_encap_adj_init_def)

lemma route_del_host:
  assumes "session_of_sw_if_index lm sw \<noteq> None" and "encap_adj_init lm"
    and "bh_search bh (encap_adj_by_ip4 lm) (ucast (fp_addr pfx)) = Some v"
    and "fp_proto pfx = FIB_PROTOCOL_IP4" and "fp_len pfx = 32"
  shows "l2tvpp_route_add_del bh fi ai lm pfx sw False =
    (RV_OK, lm\<lparr>encap_adj_by_ip4 := fst (bh_del bh (encap_adj_by_ip4 lm) (ucast (fp_addr pfx))),
        encap_adj_count := (if encap_adj_count lm \<noteq> 0 then encap_adj_count lm - 1 else 0)\<rparr>,
     [Fib_table_entry_path_remove2 fi pfx sw, Adj_unlock (ucast v)])"
  using assms
  by (simp add: l2tvpp_route_add_del_def l2tvpp_encap_adj_add_del_def l2tvpp_encap_adj_init_def Let_def)

lemma encap_adj_init_simps [simp]:
  "session_index_by_sw_if_index (l2tvpp_encap_adj_init bh lm) = session_index_by_sw_if_index lm"
  "encap_adj_count (l2tvpp_encap_adj_init bh lm) = encap_adj_count lm"
  "encap_adj_init (l2tvpp_encap_adj_init bh lm)"
  by (simp_all add: l2tvpp_encap_adj_init_def)

text \<open>Installing a subscriber's host route twice and removing it once does not
  balance: the second add locks the adjacency and counts again although the cache holds one entry per
  address, so after the removal the cache is empty of the address while the entry count is one too
  high and one lock is never released.\<close>

theorem readd_leaks_adjacency_lock:
  assumes "bihash_ok bh" and "session_of_sw_if_index lm sw \<noteq> None"
    and "fp_proto pfx = FIB_PROTOCOL_IP4" and "fp_len pfx = 32" and "unat (encap_adj_count lm) + 2 < 2 ^ 32"
    and "route_ops bh lm [(fi, ai, pfx, sw, True), (fi, ai, pfx, sw, True), (fi, ai, pfx, sw, False)] =
      (lm', calls)"
  shows "bh_search bh (encap_adj_by_ip4 lm') (ucast (fp_addr pfx)) = None
    \<and> encap_adj_count lm' = encap_adj_count lm + 1 \<and> adj_locks calls ai = 1"
proof -
  define lm1 where "lm1 = fst (snd (l2tvpp_route_add_del bh fi ai lm pfx sw True))"
  define lm2 where "lm2 = fst (snd (l2tvpp_route_add_del bh fi ai lm1 pfx sw True))"
  let ?k = "ucast (fp_addr pfx) :: u64"
  note r1 = route_add_host [OF assms(2,1,3,4), of fi ai]
  have "session_index_by_sw_if_index lm1 = session_index_by_sw_if_index lm" by (simp add: lm1_def r1)
  then have s1: "session_of_sw_if_index lm1 sw \<noteq> None"
    using assms(2) session_of_cong [of lm1 lm sw] by simp
  note r2 = route_add_host [OF s1 assms(1,3,4), of fi ai]
  have c1: "encap_adj_count lm1 = encap_adj_count lm + 1" by (simp add: lm1_def r1)
  have "session_index_by_sw_if_index lm2 = session_index_by_sw_if_index lm1" by (simp add: lm2_def r2)
  then have s2: "session_of_sw_if_index lm2 sw \<noteq> None"
    using s1 session_of_cong [of lm2 lm1 sw] by simp
  have i2: "encap_adj_init lm2" by (simp add: lm2_def r2)
  have c2: "encap_adj_count lm2 = encap_adj_count lm + 2" by (simp add: lm2_def r2 c1)
  have f2: "bh_search bh (encap_adj_by_ip4 lm2) ?k = Some (ucast ai)"
    by (simp add: lm2_def r2 bihash_okD(2) [OF assms(1)])
  note r3 = route_del_host [OF s2 i2 f2 assms(3,4), of fi ai]
  have "unat (encap_adj_count lm + 2) = unat (encap_adj_count lm) + 2"
    using assms(5) by (simp add: unat_word_ariths)
  then have "encap_adj_count lm + 2 \<noteq> 0" by (metis add_is_0 unsigned_0 zero_neq_numeral)
  moreover have "lm' = fst (snd (l2tvpp_route_add_del bh fi ai lm2 pfx sw False))"
    "calls = snd (snd (l2tvpp_route_add_del bh fi ai lm pfx sw True))
      @ snd (snd (l2tvpp_route_add_del bh fi ai lm1 pfx sw True))
      @ snd (snd (l2tvpp_route_add_del bh fi ai lm2 pfx sw False))"
    using assms(6) by (auto simp: lm1_def lm2_def split: prod.splits)
  ultimately show ?thesis
    by (simp add: r1 r2 r3 c2 bihash_okD(4) [OF assms(1)] adj_locks_def)
qed

theorem readd_leaks_adjacency_lock_witness:
  "adj_locks (snd (route_ops alist_bihash ex_main
     [(0, 9, ex_subscriber, 5, True), (0, 9, ex_subscriber, 5, True), (0, 9, ex_subscriber, 5, False)])) 9 = 1"
proof -
  let ?r = "route_ops alist_bihash ex_main
     [(0, 9, ex_subscriber, 5, True), (0, 9, ex_subscriber, 5, True), (0, 9, ex_subscriber, 5, False)]"
  have "?r = (fst ?r, snd ?r)" by simp
  then show ?thesis
    using readd_leaks_adjacency_lock [OF alist_bihash_ok, of ex_main 5 ex_subscriber 0 9 "fst ?r" "snd ?r"]
    by (simp add: ex_main_session_of ex_main_rest ex_subscriber_def del: route_ops.simps)
qed

lemma session_del_run:
  assumes "pool_elt (tunnels lm) ti = Some t" and "pool_elt (sessions lm) si = Some s"
    and "bh_search bh (session_by_key lm) (l2tvpp_session_key (t_local_tid t) sid) = Some (ucast si)"
    and "unat (s_sw_if_index s) < length (session_index_by_sw_if_index lm)"
  obtains lm' calls where
    "l2tvpp_session_add_del bh slot hw sw lm ti sid psid acfc pfc False = Some (RV_OK, lm', None, calls)"
    and "tunnels lm' = pool_set (tunnels lm) ti (t\<lparr>t_n_sessions := t_n_sessions t - 1\<rparr>)"
    and "sessions lm' = pool_put (sessions lm) si"
    and "session_index_by_sw_if_index lm' = (session_index_by_sw_if_index lm)[unat (s_sw_if_index s) := - 1]"
    and "encap_adj_by_ip4 lm' = encap_adj_by_ip4 lm" and "encap_adj_count lm' = encap_adj_count lm"
    and "encap_adj_init lm' = encap_adj_init lm"
  using assms by (simp add: l2tvpp_session_add_del_def l2tvpp_session_del_def Let_def)

text \<open>Deleting a session does not touch the encap adjacency cache, and from then
  on the subscriber's route cannot be withdrawn: a route delete on the session's interface is refused
  with \<open>INVALID_SW_IF_INDEX\<close>, so an entry cached for the session, and its adjacency lock, stay.
  Routes have to be removed before their session.\<close>

theorem session_delete_strands_cache_entry:
  assumes "objects_inv bh lm" and "pool_elt (sessions lm) si = Some s"
    and "pool_elt (tunnels lm) ti = Some t" and "t_local_tid t = s_local_tid s"
  shows "\<exists>lm' calls. l2tvpp_session_add_del bh slot hw sw lm ti (s_local_sid s) psid acfc pfc False =
      Some (RV_OK, lm', None, calls)
    \<and> encap_adj_by_ip4 lm' = encap_adj_by_ip4 lm \<and> encap_adj_count lm' = encap_adj_count lm
    \<and> l2tvpp_route_add_del bh fi ai lm' pfx (s_sw_if_index s) False =
        (VNET_API_ERROR_INVALID_SW_IF_INDEX, lm', [])"
proof -
  have "session_ok bh lm si s" using assms(1,2) by (simp add: objects_inv_def inv_sessions_def)
  then have k: "bh_search bh (session_by_key lm) (l2tvpp_session_key (t_local_tid t) (s_local_sid s)) =
      Some (ucast si)"
    and len: "unat (s_sw_if_index s) < length (session_index_by_sw_if_index lm)"
    using assms(4) by (auto simp: session_ok_def sess_key_def session_of_sw_if_index_def split: if_splits)
  obtain lm' calls where
    r: "l2tvpp_session_add_del bh slot hw sw lm ti (s_local_sid s) psid acfc pfc False =
      Some (RV_OK, lm', None, calls)"
    and vec: "session_index_by_sw_if_index lm' =
      (session_index_by_sw_if_index lm)[unat (s_sw_if_index s) := - 1]"
    and cache: "encap_adj_by_ip4 lm' = encap_adj_by_ip4 lm" "encap_adj_count lm' = encap_adj_count lm"
    using session_del_run [OF assms(3,2) k len] by metis
  have "session_of_sw_if_index lm' (s_sw_if_index s) = None"
    using session_of_clear [OF vec] by simp
  with r cache show ?thesis by (simp add: l2tvpp_route_add_del_def)
qed

theorem session_delete_strands_cache_entry_witness:
  "\<exists>lm' calls. l2tvpp_session_add_del alist_bihash 1 1 1 ex_main 0 1000 0 0 0 False =
      Some (RV_OK, lm', None, calls)
    \<and> l2tvpp_route_add_del alist_bihash 0 9 lm' ex_subscriber 5 False =
        (VNET_API_ERROR_INVALID_SW_IF_INDEX, lm', [])"
proof -
  have "pool_elt (sessions ex_main) 0 = Some ex_session"
    "pool_elt (tunnels ex_main) 0 = Some ((new_tunnel ex_local ex_peer 1701 1701 100 200)\<lparr>t_n_sessions := 1\<rparr>)"
    by (simp_all add: ex_main_eq pool_elt_def)
  from session_delete_strands_cache_entry [OF ex_main_inv this, of 1 1 1 0 0 0 0 9 ex_subscriber]
  show ?thesis by (auto simp: new_tunnel_def ex_session_def)
qed

section \<open>Tunnel ids that are not unique\<close>

text \<open>Tunnels are told apart by peer address and port, sessions only by tunnel
  id and session id: when two tunnels share a local tunnel id, a session of the one can be deleted
  through the other, which leaves the owner's session count too high and wraps the other's count to
  2\<open>^\<close>32 - 1, so that neither tunnel can be deleted any more.\<close>

theorem shared_tunnel_id_corrupts_counts:
  assumes "pool_elt (tunnels lm) own = Some t" and "pool_elt (tunnels lm) oth = Some t'" and "own \<noteq> oth"
    and "t_local_tid t = t_local_tid t'" and "t_n_sessions t = 1" and "t_n_sessions t' = 0"
    and "bh_search bh (session_by_key lm) (l2tvpp_session_key (t_local_tid t) sid) = Some (ucast si)"
    and "pool_elt (sessions lm) si = Some s" and "s_tunnel_index s = own"
    and "unat (s_sw_if_index s) < length (session_index_by_sw_if_index lm)"
  shows "\<exists>lm' calls t1 t2. l2tvpp_session_add_del bh slot hw sw lm oth sid psid acfc pfc False =
      Some (RV_OK, lm', None, calls)
    \<and> pool_elt (sessions lm') si = None
    \<and> pool_elt (tunnels lm') own = Some t1 \<and> t_n_sessions t1 = 1
    \<and> pool_elt (tunnels lm') oth = Some t2 \<and> unat (t_n_sessions t2) = 2 ^ 32 - 1"
proof -
  have "bh_search bh (session_by_key lm) (l2tvpp_session_key (t_local_tid t') sid) = Some (ucast si)"
    using assms(4,7) by simp
  then obtain lm' calls where
    "l2tvpp_session_add_del bh slot hw sw lm oth sid psid acfc pfc False = Some (RV_OK, lm', None, calls)"
    "tunnels lm' = pool_set (tunnels lm) oth (t'\<lparr>t_n_sessions := t_n_sessions t' - 1\<rparr>)"
    "sessions lm' = pool_put (sessions lm) si"
    using session_del_run [OF assms(2,8) _ assms(10)] by metis
  then show ?thesis
    using assms(1,3,5,6) by (simp add: pool_elt_set pool_elt_put unsigned_minus_1_eq_mask mask_eq_exp_minus_1)
qed

definition ex_peer3 :: ip46_address where "ex_peer3 = \<lparr>ip46_pad = 0, ip46_ip4 = le32 10 0 0 3\<rparr>"

theorem shared_tunnel_id_corrupts_counts_witness:
  "\<exists>lm1 lm2 calls t2. l2tvpp_tunnel_add_del 1 ex_main ex_local ex_peer3 1701 1701 100 300 True =
      (RV_OK, lm1, Some 1)
    \<and> l2tvpp_session_add_del alist_bihash 1 1 1 lm1 1 1000 0 0 0 False = Some (RV_OK, lm2, None, calls)
    \<and> pool_elt (tunnels lm2) 1 = Some t2 \<and> unat (t_n_sessions t2) = 2 ^ 32 - 1"
proof -
  have ips: "ex_peer3 \<noteq> ex_peer" "ex_peer \<noteq> ex_peer3"
    by (simp_all add: ex_peer3_def ex_peer_def ip_10_0_0_2_def le32_def)
  define lm1 where "lm1 = ex_main\<lparr>tunnels := pool_set (tunnels ex_main) 1
    (new_tunnel ex_local ex_peer3 1701 1701 100 300)\<rparr>"
  have "l2tvpp_tunnel_find ex_main ex_peer3 1701 100 = None"
    using ips by (simp add: l2tvpp_tunnel_find_def pool_indices_def ex_main_eq pool_elt_def
        tunnel_matches_def new_tunnel_def)
  then have add: "l2tvpp_tunnel_add_del 1 ex_main ex_local ex_peer3 1701 1701 100 300 True =
      (RV_OK, lm1, Some 1)"
    by (simp add: l2tvpp_tunnel_add_del_def lm1_def new_tunnel_def ex_main_rest ex_local_def ex_peer3_def
        ip46_address_is_ip4_def)
  have tuns: "pool_elt (tunnels lm1) 0 =
      Some ((new_tunnel ex_local ex_peer 1701 1701 100 200)\<lparr>t_n_sessions := 1\<rparr>)"
    "pool_elt (tunnels lm1) 1 = Some (new_tunnel ex_local ex_peer3 1701 1701 100 300)"
    by (simp_all add: lm1_def pool_elt_set) (simp add: ex_main_eq pool_elt_def)
  have "bh_search alist_bihash (session_by_key lm1) (l2tvpp_session_key 100 1000) = Some (ucast (0 :: u32))"
    "pool_elt (sessions lm1) 0 = Some ex_session" "s_tunnel_index ex_session = 0"
    "unat (s_sw_if_index ex_session) < length (session_index_by_sw_if_index lm1)"
    by (simp_all add: lm1_def ex_main_eq alist_bihash_def pool_elt_def ex_session_def)
  with shared_tunnel_id_corrupts_counts [OF tuns, of alist_bihash 1000 0 ex_session 1 1 1 0 0 0] add
  show ?thesis by (fastforce simp: new_tunnel_def)
qed

end
