(* ===== verification/Flow_Handoff.thy ===== *)
theory Flow_Handoff
  imports Session_Handoff Objects_Properties
begin

text \<open>
  \<^verbatim>\<open>src/plugin/l2tvpp/flow_handoff.c\<close>: the node \<open>l2tvpp-flow-handoff\<close>.  \<open>l2tvpp_hash_ip\<close>
  builds the 40-byte flow key of an IP packet, \<open>l2tvpp_flow_classify\<close> finds the packet to hash
  (the inner one of L2TPv2 data, the outer one otherwise) and validates the outer headers for the
  fast path, \<open>l2tvpp_flow_handoff_node\<close> chooses a worker and sorts the frame into its three
  output sets.

  \<open>clib_crc32c\<close> is a parameter.  The classifier is written for an arbitrary hash type \<open>'v\<close>: at the
  identity it returns the flow key itself, which is what ``same flow'' means below; a packet for which
  no hash was computed has \<open>None\<close>, and the node then uses the 0 the C variable was initialised with.
  \<open>ip4_header_checksum_is_valid\<close> and \<open>is_pow2\<close> are parameters too.  Positions count from the current
  data of the buffer; \<open>end\<close> is the length of its bytes.
\<close>

section \<open>The flow key\<close>

definition IP_PROTOCOL_TCP :: u8 where "IP_PROTOCOL_TCP = 6"
definition FLOW_IP_PROTOCOL_UDP :: u8 where "FLOW_IP_PROTOCOL_UDP = 17"
definition ETHERNET_TYPE_IP4 :: u16 where "ETHERNET_TYPE_IP4 = 0x0800"
definition ETHERNET_TYPE_IP6 :: u16 where "ETHERNET_TYPE_IP6 = 0x86DD"
definition ETHERNET_TYPE_VLAN :: u16 where "ETHERNET_TYPE_VLAN = 0x8100"

record l2tvpp_flow_key =
  fk_src :: bytes
  fk_dst :: bytes
  fk_ports :: bytes
  fk_proto :: u8

definition flow_key_bytes :: "l2tvpp_flow_key \<Rightarrow> bytes" where
  "flow_key_bytes k = fk_src k @ fk_dst k @ fk_ports k @ [fk_proto k, 0, 0, 0]"

definition ip4_header_bytes :: "u8 \<Rightarrow> nat" where
  "ip4_header_bytes ver_ihl = 4 * unat (ver_ihl AND 0x0f)"

text \<open>Source, destination, protocol and the position of the layer-4 header; \<open>Some None\<close> is the
  return value 0 (truncated or unknown version).\<close>

definition flow_addresses :: "bytes \<Rightarrow> nat \<Rightarrow> (bytes \<times> bytes \<times> u8 \<times> nat) option option" where
  "flow_addresses bs p =
     (if length bs < p + 1 then Some None
      else do {
        b0 \<leftarrow> rd8 bs p;
        if drop_bit 4 b0 = 4 then
          if length bs < p + 20 then Some None
          else do {
            src \<leftarrow> rdn bs (p + 12) 4;
            dst \<leftarrow> rdn bs (p + 16) 4;
            proto \<leftarrow> rd8 bs (p + 9);
            frag \<leftarrow> rd16 bs (p + 6);
            Some (Some (src @ replicate 12 0, dst @ replicate 12 0, proto,
              if frag AND 0x1fff \<noteq> 0 then length bs else p + ip4_header_bytes b0)) }
        else if drop_bit 4 b0 = 6 then
          if length bs < p + 40 then Some None
          else do {
            src \<leftarrow> rdn bs (p + 8) 16;
            dst \<leftarrow> rdn bs (p + 24) 16;
            proto \<leftarrow> rd8 bs (p + 6);
            Some (Some (src, dst, proto, p + 40)) }
        else Some None })"

definition flow_ports :: "bytes \<Rightarrow> u8 \<Rightarrow> nat \<Rightarrow> bytes option" where
  "flow_ports bs proto l4 =
     (if (proto = FLOW_IP_PROTOCOL_UDP \<or> proto = IP_PROTOCOL_TCP) \<and> l4 + 4 \<le> length bs then rdn bs l4 4
      else Some [0, 0, 0, 0])"

definition l2tvpp_hash_ip :: "(bytes \<Rightarrow> 'v) \<Rightarrow> bytes \<Rightarrow> nat \<Rightarrow> 'v option option" where
  "l2tvpp_hash_ip crc bs p = do {
     r \<leftarrow> flow_addresses bs p;
     case r of
       None \<Rightarrow> Some None
     | Some (src, dst, proto, l4) \<Rightarrow> do {
         ports \<leftarrow> flow_ports bs proto l4;
         Some (Some (crc (flow_key_bytes
           \<lparr>fk_src = src, fk_dst = dst, fk_ports = ports, fk_proto = proto\<rparr>))) } }"

definition l2tvpp_is_local_ip4 :: "'h l2tvpp_main \<Rightarrow> u32 \<Rightarrow> bool" where
  "l2tvpp_is_local_ip4 lm addr \<longleftrightarrow> list_ex (\<lambda>a. a = addr) (local_ip4s lm)"

section \<open>The classifier\<close>

datatype flow_kind =
    L2TVPP_FLOW_KIND_LOCAL | L2TVPP_FLOW_KIND_OUTER | L2TVPP_FLOW_KIND_INNER | L2TVPP_FLOW_KIND_FAST

record 'v flow_class =
  fc_kind :: flow_kind
  fc_hash :: "'v option"
  fc_l2tp_offset :: nat
  fc_buffer :: vlib_buffer

definition classified :: "vlib_buffer \<Rightarrow> flow_kind \<Rightarrow> 'v option \<Rightarrow> 'v flow_class" where
  "classified b k h = \<lparr>fc_kind = k, fc_hash = h, fc_l2tp_offset = 0, fc_buffer = b\<rparr>"

text \<open>The label \<open>outer\<close>, and the same decision for an IPv6 packet.\<close>

definition flow_outer :: "(bytes \<Rightarrow> 'v) \<Rightarrow> bool \<Rightarrow> bytes \<Rightarrow> nat \<Rightarrow> (flow_kind \<times> 'v option) option" where
  "flow_outer crc want_hash bs p =
     (if \<not> want_hash then Some (L2TVPP_FLOW_KIND_OUTER, None)
      else do {
        r \<leftarrow> l2tvpp_hash_ip crc bs p;
        Some (case r of None \<Rightarrow> (L2TVPP_FLOW_KIND_LOCAL, None)
              | Some h \<Rightarrow> (L2TVPP_FLOW_KIND_OUTER, Some h)) })"

text \<open>The Ethernet header and one VLAN tag: type, position behind, tagged; \<open>Some None\<close> when
  truncated.\<close>

definition flow_ethernet :: "bytes \<Rightarrow> (u16 \<times> nat \<times> bool) option option" where
  "flow_ethernet bs =
     (if length bs < 14 then Some None
      else do {
        type \<leftarrow> rd16 bs 12;
        if type = ETHERNET_TYPE_VLAN then
          if length bs < 18 then Some None
          else do { inner \<leftarrow> rd16 bs 16; Some (Some (inner, 18, True)) }
        else Some (Some (type, 14, False)) })"

text \<open>From the L2TP header to the inner IP header: \<open>Some None\<close> is \<open>goto outer\<close>.\<close>

definition flow_skip :: "bytes \<Rightarrow> u16 \<Rightarrow> nat \<Rightarrow> nat option option" where
  "flow_skip bs flags cur0 =
     (let cur = (if flags AND L2TVPP_HDR_S \<noteq> 0 then cur0 + 4 else cur0) in
      if flags AND L2TVPP_HDR_O \<noteq> 0 then
        if length bs < cur + 2 then Some None
        else do {
          sz \<leftarrow> rd16 bs cur;
          let cur2 = cur + 2 + unat sz;
          if length bs < cur2 + 4 then Some None else Some (Some cur2) }
      else if length bs < cur + 4 then Some None else Some (Some cur))"

definition flow_ppp :: "bytes \<Rightarrow> nat \<Rightarrow> nat option option" where
  "flow_ppp bs cur0 = do {
     c0 \<leftarrow> rd8 bs cur0;
     cur \<leftarrow> (if c0 = 0xff then do { c1 \<leftarrow> rd8 bs (cur0 + 1); Some (if c1 = 0x03 then cur0 + 2 else cur0) }
            else Some cur0);
     p0 \<leftarrow> rd8 bs cur;
     if p0 AND 1 \<noteq> 0 then
       if p0 \<noteq> ucast PPP_PROTO_IP4 \<and> p0 \<noteq> ucast PPP_PROTO_IP6 then Some None else Some (Some (cur + 1))
     else do {
       pp \<leftarrow> rd16 bs cur;
       if pp \<noteq> PPP_PROTO_IP4 \<and> pp \<noteq> PPP_PROTO_IP6 then Some None else Some (Some (cur + 2)) } }"

text \<open>Everything \<open>ip4-input\<close>, \<open>ip4-lookup\<close> and \<open>ip4-receive\<close> would have checked.\<close>

definition flow_fast_checks ::
  "(bytes \<Rightarrow> bool) \<Rightarrow> 'h l2tvpp_main \<Rightarrow> bytes \<Rightarrow> nat \<Rightarrow> bool \<Rightarrow> bool \<Rightarrow> bool option" where
  "flow_fast_checks csum_valid lm bs p fastpath tagged =
     (if \<not> fastpath \<or> tagged then Some False
      else do {
        vihl \<leftarrow> rd8 bs p;
        len \<leftarrow> rd16 bs (p + 2);
        hdr \<leftarrow> rdn bs p 20;
        dst \<leftarrow> ld32 bs (p + 16);
        Some (vihl = 0x45 \<and> unat len \<le> length bs - p \<and> 20 + 8 + 6 \<le> unat len \<and> csum_valid hdr
              \<and> l2tvpp_is_local_ip4 lm dst) })"

definition record_offsets :: "vlib_buffer \<Rightarrow> nat \<Rightarrow> nat \<Rightarrow> vlib_buffer" where
  "record_offsets b p udp =
     b\<lparr>b_l2_hdr_offset := b_current_data b, b_l3_hdr_offset := b_current_data b + p,
       b_l4_hdr_offset := b_current_data b + udp,
       b_flags := b_flags b \<union> {VNET_BUFFER_F_L2_HDR_OFFSET_VALID, VNET_BUFFER_F_L3_HDR_OFFSET_VALID,
                               VNET_BUFFER_F_L4_HDR_OFFSET_VALID}\<rparr>"

text \<open>The L2TP part, entered with a v2 data header at \<open>l2tp\<close>.\<close>

definition flow_l2tp ::
  "(bytes \<Rightarrow> 'v) \<Rightarrow> vlib_buffer \<Rightarrow> bytes \<Rightarrow> bool \<Rightarrow> bool \<Rightarrow> nat \<Rightarrow> nat \<Rightarrow> nat \<Rightarrow> u16 \<Rightarrow> nat \<Rightarrow> 'v flow_class option" where
  "flow_l2tp crc b bs want_hash fast p udp l2tp flags off =
     (let b1 = (if fast then record_offsets b p udp else b);
          lo = (if fast then l2tp else 0);
          ours = (if fast then L2TVPP_FLOW_KIND_FAST else L2TVPP_FLOW_KIND_INNER);
          result = (\<lambda>(k, h). \<lparr>fc_kind = k, fc_hash = h, fc_l2tp_offset = lo, fc_buffer = b1\<rparr>)
      in if \<not> want_hash then Some (result (ours, None))
         else do {
           c1 \<leftarrow> flow_skip bs flags (l2tp + off);
           case c1 of
             None \<Rightarrow> map_option result (flow_outer crc want_hash bs p)
           | Some cur \<Rightarrow> do {
               c2 \<leftarrow> flow_ppp bs cur;
               case c2 of
                 None \<Rightarrow> map_option result (flow_outer crc want_hash bs p)
               | Some inner \<Rightarrow> do {
                   h \<leftarrow> l2tvpp_hash_ip crc bs inner;
                   case h of
                     Some v \<Rightarrow> Some (result (ours, Some v))
                   | None \<Rightarrow> (if fast then Some (result (L2TVPP_FLOW_KIND_FAST, None))
                              else map_option result (flow_outer crc want_hash bs p)) } } })"

definition flow_ip4 ::
  "(bytes \<Rightarrow> 'v) \<Rightarrow> (bytes \<Rightarrow> bool) \<Rightarrow> 'h l2tvpp_main \<Rightarrow> vlib_buffer \<Rightarrow> bytes \<Rightarrow> bool \<Rightarrow> bool \<Rightarrow> nat \<Rightarrow> bool
     \<Rightarrow> 'v flow_class option" where
  "flow_ip4 crc csum_valid lm b bs fastpath want_hash p tagged =
     (let outer = map_option (\<lambda>(k, h). classified b k h) (flow_outer crc want_hash bs p) in
      if length bs < p + 20 then Some (classified b L2TVPP_FLOW_KIND_LOCAL None)
      else do {
        proto \<leftarrow> rd8 bs (p + 9);
        frag \<leftarrow> rd16 bs (p + 6);
        vihl \<leftarrow> rd8 bs p;
        let udp = p + ip4_header_bytes vihl;
        if proto \<noteq> FLOW_IP_PROTOCOL_UDP \<or> frag AND 0x1fff \<noteq> 0 \<or> frag AND 0x2000 \<noteq> 0 then outer
        else if length bs < udp + 8 then outer
        else do {
          port \<leftarrow> rd16 bs (udp + 2);
          let l2tp = udp + 8;
          if port \<noteq> L2TVPP_UDP_PORT then outer
          else if length bs < l2tp + 6 then outer
          else do {
            rc \<leftarrow> l2tvpp_parse_hdr (drop l2tp bs) (length bs - l2tp);
            case rc of
              L2TVPP_HDR_TOO_SHORT \<Rightarrow> outer
            | L2TVPP_HDR_DATA flags tid sid off \<Rightarrow> do {
                fast \<leftarrow> flow_fast_checks csum_valid lm bs p fastpath tagged;
                flow_l2tp crc b bs want_hash fast p udp l2tp flags off }
            | _ \<Rightarrow> Some (classified b L2TVPP_FLOW_KIND_LOCAL None) } } })"

definition l2tvpp_flow_classify ::
  "(bytes \<Rightarrow> 'v) \<Rightarrow> (bytes \<Rightarrow> bool) \<Rightarrow> 'h l2tvpp_main \<Rightarrow> vlib_buffer \<Rightarrow> bool \<Rightarrow> bool \<Rightarrow> 'v flow_class option" where
  "l2tvpp_flow_classify crc csum_valid lm b fastpath want_hash =
     (let bs = cur_bytes b in do {
        e \<leftarrow> flow_ethernet bs;
        case e of
          None \<Rightarrow> Some (classified b L2TVPP_FLOW_KIND_LOCAL None)
        | Some (type, p, tagged) \<Rightarrow>
            if type = ETHERNET_TYPE_IP4 then flow_ip4 crc csum_valid lm b bs fastpath want_hash p tagged
            else if type = ETHERNET_TYPE_IP6
            then map_option (\<lambda>(k, h). classified b k h) (flow_outer crc want_hash bs p)
            else Some (classified b L2TVPP_FLOW_KIND_LOCAL None) })"

section \<open>The node\<close>

record l2tvpp_flow_handoff_if =
  fi_workers :: "u16 list"
  fi_rr :: u32
  fi_enabled :: bool
  fi_fastpath :: bool
  fi_spray :: bool

record l2tvpp_flow_handoff_main =
  fm_if_data :: "l2tvpp_flow_handoff_if list"
  fm_frame_queue_index :: u32

datatype l2tvpp_flow_handoff_next =
    L2TVPP_FLOW_HANDOFF_NEXT_DROP
  | L2TVPP_FLOW_HANDOFF_NEXT_ETHERNET_INPUT
  | L2TVPP_FLOW_HANDOFF_NEXT_L2TVPP_INPUT

record l2tvpp_flow_handoff_trace =
  ft_sw_if_index :: u32
  ft_hash :: u32
  ft_thread_index :: u16
  ft_kind :: flow_kind

definition flow_nw :: "l2tvpp_flow_handoff_if \<Rightarrow> u32" where
  "flow_nw ifd = of_nat (length (fi_workers ifd))"

definition vec_elt :: "'a list \<Rightarrow> u32 \<Rightarrow> 'a option" where
  "vec_elt v i = (if unat i < length v then Some (v ! unat i) else None)"

text \<open>The thread of one packet and the interface data with its round-robin cursor.\<close>

definition flow_thread ::
  "(u32 \<Rightarrow> bool) \<Rightarrow> l2tvpp_flow_handoff_if \<Rightarrow> u32 \<Rightarrow> flow_kind \<Rightarrow> u32 \<Rightarrow> (u16 \<times> l2tvpp_flow_handoff_if) option" where
  "flow_thread is_pow2 ifd this_thread kind hash =
     (let nw = flow_nw ifd in
      if kind = L2TVPP_FLOW_KIND_LOCAL \<or> nw = 0 then Some (ucast this_thread, ifd)
      else if fi_spray ifd then
        map_option (\<lambda>w. (w, ifd\<lparr>fi_rr := fi_rr ifd + 1\<rparr>)) (vec_elt (fi_workers ifd) (fi_rr ifd mod nw))
      else if nw = 1 then map_option (\<lambda>w. (w, ifd)) (vec_elt (fi_workers ifd) 0)
      else map_option (\<lambda>w. (w, ifd))
        (vec_elt (fi_workers ifd) (if is_pow2 nw then hash AND (nw - 1) else hash mod nw)))"

record flow_loop =
  fl_if_data :: "l2tvpp_flow_handoff_if list"
  fl_local :: "(vlib_buffer \<times> l2tvpp_flow_handoff_next) list"
  fl_eth :: "(vlib_buffer \<times> u16) list"
  fl_l2tp :: "(vlib_buffer \<times> u16) list"
  fl_traces :: "l2tvpp_flow_handoff_trace list"

text \<open>The third part of a turn: the output set, by kind and thread.\<close>

definition flow_sort :: "u32 \<Rightarrow> u16 \<Rightarrow> 'v flow_class \<Rightarrow> flow_loop \<Rightarrow> flow_loop" where
  "flow_sort this_thread thread c st =
     (if fc_kind c = L2TVPP_FLOW_KIND_FAST then
        let b = (vlib_buffer_advance (fc_buffer c) (int (fc_l2tp_offset c)))\<lparr>b_tx := - 1\<rparr> in
        if ucast thread = this_thread
        then st\<lparr>fl_local := fl_local st @ [(b, L2TVPP_FLOW_HANDOFF_NEXT_L2TVPP_INPUT)]\<rparr>
        else st\<lparr>fl_l2tp := fl_l2tp st @ [(b, thread)]\<rparr>
      else if ucast thread = this_thread
      then st\<lparr>fl_local := fl_local st @ [(fc_buffer c, L2TVPP_FLOW_HANDOFF_NEXT_ETHERNET_INPUT)]\<rparr>
      else st\<lparr>fl_eth := fl_eth st @ [(fc_buffer c, thread)]\<rparr>)"

definition flow_want_hash :: "l2tvpp_flow_handoff_if \<Rightarrow> bool" where
  "flow_want_hash ifd \<longleftrightarrow> \<not> fi_spray ifd \<and> 1 < flow_nw ifd"

definition flow_packet ::
  "(bytes \<Rightarrow> u32) \<Rightarrow> (bytes \<Rightarrow> bool) \<Rightarrow> (u32 \<Rightarrow> bool) \<Rightarrow> 'h l2tvpp_main \<Rightarrow> u32 \<Rightarrow> vlib_buffer \<Rightarrow> flow_loop
     \<Rightarrow> flow_loop option" where
  "flow_packet crc csum_valid is_pow2 lm this_thread b st =
     (let sw = b_rx b in do {
        ifd \<leftarrow> vec_elt (fl_if_data st) sw;
        c \<leftarrow> l2tvpp_flow_classify crc csum_valid lm b (fi_fastpath ifd) (flow_want_hash ifd);
        let hash = (case fc_hash c of Some h \<Rightarrow> h | None \<Rightarrow> 0);
        (thread, ifd') \<leftarrow> flow_thread is_pow2 ifd this_thread (fc_kind c) hash;
        let st1 = flow_sort this_thread thread c (st\<lparr>fl_if_data := (fl_if_data st)[unat sw := ifd']\<rparr>);
        Some (if VLIB_BUFFER_IS_TRACED \<in> b_flags (fc_buffer c)
              then st1\<lparr>fl_traces := fl_traces st1 @
                [\<lparr>ft_sw_if_index = sw, ft_hash = hash, ft_thread_index = thread, ft_kind = fc_kind c\<rparr>]\<rparr>
              else st1) })"

fun flow_loop_run ::
  "(bytes \<Rightarrow> u32) \<Rightarrow> (bytes \<Rightarrow> bool) \<Rightarrow> (u32 \<Rightarrow> bool) \<Rightarrow> 'h l2tvpp_main \<Rightarrow> u32 \<Rightarrow> vlib_buffer list \<Rightarrow> flow_loop
     \<Rightarrow> flow_loop option" where
  "flow_loop_run crc csum_valid is_pow2 lm this_thread [] st = Some st"
| "flow_loop_run crc csum_valid is_pow2 lm this_thread (b # bs) st = do {
     st1 \<leftarrow> flow_packet crc csum_valid is_pow2 lm this_thread b st;
     flow_loop_run crc csum_valid is_pow2 lm this_thread bs st1 }"

record flow_effects =
  fe_main :: l2tvpp_flow_handoff_main
  fe_local :: "(vlib_buffer \<times> l2tvpp_flow_handoff_next) list"
  fe_eth :: "u32 \<times> (vlib_buffer \<times> u16) list"
  fe_l2tp :: "u32 \<times> (vlib_buffer \<times> u16) list"
  fe_congestion :: "u32 list"
  fe_traces :: "l2tvpp_flow_handoff_trace list"

text \<open>A frame queue takes some of the buffers; the rest is counted.\<close>

definition flow_congestion ::
  "(u32 \<Rightarrow> (vlib_buffer \<times> u16) list \<Rightarrow> u32) \<Rightarrow> u32 \<Rightarrow> (vlib_buffer \<times> u16) list \<Rightarrow> u32 list" where
  "flow_congestion enqueue queue xs =
     (let n = of_nat (length xs) in
      if n = 0 then []
      else let n_enq = enqueue queue xs in if n_enq < n then [n - n_enq] else [])"

definition l2tvpp_flow_handoff_node ::
  "(bytes \<Rightarrow> u32) \<Rightarrow> (bytes \<Rightarrow> bool) \<Rightarrow> (u32 \<Rightarrow> bool) \<Rightarrow> (u32 \<Rightarrow> (vlib_buffer \<times> u16) list \<Rightarrow> u32) \<Rightarrow> 'h l2tvpp_main
     \<Rightarrow> l2tvpp_flow_handoff_main \<Rightarrow> u32 \<Rightarrow> vlib_buffer list \<Rightarrow> flow_effects option" where
  "l2tvpp_flow_handoff_node crc csum_valid is_pow2 enqueue lm fm this_thread frame =
     map_option (\<lambda>st.
       \<lparr>fe_main = fm\<lparr>fm_if_data := fl_if_data st\<rparr>, fe_local = fl_local st,
        fe_eth = (fm_frame_queue_index fm, fl_eth st),
        fe_l2tp = (handoff_frame_queue_index lm, fl_l2tp st),
        fe_congestion = flow_congestion enqueue (fm_frame_queue_index fm) (fl_eth st)
          @ flow_congestion enqueue (handoff_frame_queue_index lm) (fl_l2tp st),
        fe_traces = fl_traces st\<rparr>)
       (flow_loop_run crc csum_valid is_pow2 lm this_thread frame
          \<lparr>fl_if_data = fm_if_data fm, fl_local = [], fl_eth = [], fl_l2tp = [], fl_traces = []\<rparr>)"

section \<open>Enabling an interface\<close>

text \<open>
  \<open>hardware\<close> tells which interface indices are live hardware interfaces, \<open>bitmap\<close> is the set of
  worker numbers given (\<open>None\<close> for the null pointer) in ascending order, and \<open>fqi\<close> the index
  \<open>vlib_frame_queue_main_init\<close> returns.
\<close>

definition flow_if_zero :: l2tvpp_flow_handoff_if where
  "flow_if_zero = \<lparr>fi_workers = [], fi_rr = 0, fi_enabled = False, fi_fastpath = False, fi_spray = False\<rparr>"

definition flow_queue_init ::
  "(u32 \<Rightarrow> bool) \<Rightarrow> (u32 \<Rightarrow> nat) \<Rightarrow> u32 \<Rightarrow> u32 \<Rightarrow> 'h l2tvpp_main \<Rightarrow> l2tvpp_flow_handoff_main
     \<Rightarrow> ('h l2tvpp_main \<times> l2tvpp_flow_handoff_main \<times> vpp_call list) option" where
  "flow_queue_init is_pow2 max_log2 n_threads fqi lm fm =
     (if fm_frame_queue_index fm = - 1 then do {
        (n, lm1) \<leftarrow> l2tvpp_handoff_queue_nelts is_pow2 max_log2 n_threads lm;
        Some (lm1, fm\<lparr>fm_frame_queue_index := fqi\<rparr>, [Vlib_frame_queue_main_init ''ethernet-input'' n fqi]) }
      else Some (lm, fm, []))"

definition bitmap_last_set :: "nat list \<Rightarrow> nat" where
  "bitmap_last_set bm = (if bm = [] then 2 ^ 64 - 1 else last bm)"

definition l2tvpp_flow_handoff_enable_disable ::
  "(u32 \<Rightarrow> bool) \<Rightarrow> (u32 \<Rightarrow> nat) \<Rightarrow> (u32 \<Rightarrow> bool) \<Rightarrow> u32 \<Rightarrow> u32 \<Rightarrow> u32 \<Rightarrow> 'h l2tvpp_main \<Rightarrow> l2tvpp_flow_handoff_main
     \<Rightarrow> u32 \<Rightarrow> nat list option \<Rightarrow> bool \<Rightarrow> bool \<Rightarrow> bool
     \<Rightarrow> (api_rv \<times> 'h l2tvpp_main \<times> l2tvpp_flow_handoff_main \<times> vpp_call list) option" where
  "l2tvpp_flow_handoff_enable_disable is_pow2 max_log2 hardware n_workers n_threads fqi lm fm
       sw_if_index bitmap fastpath spray enable =
     (if \<not> hardware sw_if_index then Some (VNET_API_ERROR_INVALID_SW_IF_INDEX, lm, fm, [])
      else if enable \<and> (case bitmap of Some bm \<Rightarrow> unat n_workers \<le> bitmap_last_set bm | None \<Rightarrow> False)
      then Some (VNET_API_ERROR_INVALID_WORKER, lm, fm, [])
      else do {
        (lm1, fm1, calls) \<leftarrow> flow_queue_init is_pow2 max_log2 n_threads fqi lm fm;
        let i = unat sw_if_index;
        let ifs = fm_if_data fm1 @ replicate (Suc i - length (fm_if_data fm1)) flow_if_zero;
        let ifd = ifs ! i;
        if fi_enabled ifd = enable \<and> \<not> enable then Some (RV_OK, lm1, fm1\<lparr>fm_if_data := ifs\<rparr>, calls)
        else
          let workers = (case bitmap of Some bm \<Rightarrow> if enable then map (\<lambda>w. of_nat (1 + w)) bm else []
                         | None \<Rightarrow> []);
              ifd' = \<lparr>fi_workers = workers, fi_rr = 0, fi_enabled = enable,
                      fi_fastpath = enable \<and> fastpath, fi_spray = enable \<and> spray\<rparr>;
              feature = (if fi_enabled ifd \<noteq> enable
                         then [Vnet_feature_enable_disable ''l2tvpp-flow-handoff'' sw_if_index enable] else []);
              calls1 = calls @ [Vlib_worker_thread_barrier_sync] @ feature @ [Vlib_worker_thread_barrier_release];
              fm2 = fm1\<lparr>fm_if_data := ifs[i := ifd']\<rparr>
          in if enable
             then (case l2tvpp_set_handoff lm1 0 of (rv, lm2, calls2) \<Rightarrow> Some (RV_OK, lm2, fm2, calls1 @ calls2))
             else Some (RV_OK, lm1, fm2, calls1) })"

end
