(* ===== verification/Flow_Properties.thy ===== *)
theory Flow_Properties
  imports Flow_Handoff
begin

text \<open>
  What \<open>l2tvpp-flow-handoff\<close> guarantees: the classifier is memory safe on every packet, the fast
  path only takes packets whose outer headers pass every check and leaves the buffer as
  \<open>l2tvpp-input\<close> and a later punt need it, the walk to the inner packet is the walk of
  \<open>l2tvpp-input\<close>, flows stay in order, and the chosen workers exist.
\<close>

section \<open>The classifier is defined on every packet\<close>

lemma flow_addresses_defined: "\<exists>r. flow_addresses bs p = Some r"
  by (auto simp: flow_addresses_def rd_simps)

lemma flow_ports_defined: "\<exists>r. flow_ports bs proto l4 = Some r"
  by (auto simp: flow_ports_def rd_simps)

lemma hash_ip_defined: "\<exists>r. l2tvpp_hash_ip crc bs p = Some r"
proof -
  obtain r where r: "flow_addresses bs p = Some r" using flow_addresses_defined by blast
  show ?thesis
  proof (cases r)
    case (Some x)
    obtain src dst proto l4 where x: "x = (src, dst, proto, l4)" by (cases x)
    obtain ports where "flow_ports bs proto l4 = Some ports" using flow_ports_defined by blast
    with r Some x show ?thesis by (simp add: l2tvpp_hash_ip_def)
  qed (simp add: l2tvpp_hash_ip_def r)
qed

lemma flow_outer_defined: "\<exists>r. flow_outer crc want_hash bs p = Some r"
proof -
  obtain r where "l2tvpp_hash_ip crc bs p = Some r" using hash_ip_defined by blast
  then show ?thesis by (simp add: flow_outer_def)
qed

lemma flow_skip_defined: "\<exists>r. flow_skip bs flags cur = Some r"
  by (auto simp: flow_skip_def Let_def rd_simps)

lemma flow_skip_room:
  assumes "flow_skip bs flags cur0 = Some (Some cur)"
  shows "cur + 4 \<le> length bs"
  using assms by (auto simp: flow_skip_def Let_def bind_eq_Some_conv split: if_splits)

lemma flow_ppp_input_ppp:
  assumes "cur + 4 \<le> length bs"
  shows "flow_ppp bs cur = Some (case l2tvpp_input_ppp bs cur of
    Some (ppp, c) \<Rightarrow> if ppp = PPP_PROTO_IP4 \<or> ppp = PPP_PROTO_IP6 then Some c else None | None \<Rightarrow> None)"
proof -
  have byte: "(ucast p0 :: u16) = PPP_PROTO_IP4 \<longleftrightarrow> p0 = ucast PPP_PROTO_IP4"
    "(ucast p0 :: u16) = PPP_PROTO_IP6 \<longleftrightarrow> p0 = ucast PPP_PROTO_IP6" for p0 :: u8
    by (auto simp: PPP_PROTO_IP4_def PPP_PROTO_IP6_def word_unat_eq_iff unat_ucast_widen)
  define cur1 where "cur1 = (if bs ! cur = 0xff \<and> bs ! (cur + 1) = 0x03 then cur + 2 else cur)"
  have in1: "cur1 + 1 < length bs" using assms by (simp add: cur1_def)
  have l: "l2tvpp_input_ppp bs cur = Some (if bs ! cur1 AND 1 \<noteq> 0 then (ucast (bs ! cur1), cur1 + 1)
      else (be16 (bs ! cur1) (bs ! (cur1 + 1)), cur1 + 2))"
    using input_ppp_eq [OF assms] by (simp add: cur1_def Let_def)
  have "(if bs ! cur = 0xff then do { c1 \<leftarrow> rd8 bs (cur + 1); Some (if c1 = 0x03 then cur + 2 else cur) }
      else Some cur) = Some cur1"
    using assms by (auto simp: cur1_def rd_simps)
  then have "flow_ppp bs cur = (if bs ! cur1 AND 1 \<noteq> 0
      then if bs ! cur1 \<noteq> ucast PPP_PROTO_IP4 \<and> bs ! cur1 \<noteq> ucast PPP_PROTO_IP6 then Some None
           else Some (Some (cur1 + 1))
      else if be16 (bs ! cur1) (bs ! (cur1 + 1)) \<noteq> PPP_PROTO_IP4
             \<and> be16 (bs ! cur1) (bs ! (cur1 + 1)) \<noteq> PPP_PROTO_IP6 then Some None else Some (Some (cur1 + 2)))"
    using assms in1 by (simp add: flow_ppp_def rd_simps)
  then show ?thesis by (simp add: l byte)
qed

lemma flow_ppp_Some:
  assumes "cur + 4 \<le> length bs" and "flow_ppp bs cur = Some (Some inner)"
  obtains ppp where "l2tvpp_input_ppp bs cur = Some (ppp, inner)" and "ppp = PPP_PROTO_IP4 \<or> ppp = PPP_PROTO_IP6"
  using flow_ppp_input_ppp [OF assms(1)] assms(2) by (auto split: option.splits if_splits prod.splits)

lemma flow_ppp_defined:
  assumes "cur + 4 \<le> length bs"
  shows "\<exists>r. flow_ppp bs cur = Some r"
  using flow_ppp_input_ppp [OF assms] by blast

lemma flow_l2tp_defined: "\<exists>c. flow_l2tp crc b bs want_hash fast p udp l2tp flags off = Some c"
proof -
  obtain o1 where o1: "flow_outer crc want_hash bs p = Some o1" using flow_outer_defined by blast
  obtain c1 where c1: "flow_skip bs flags (l2tp + off) = Some c1" using flow_skip_defined by blast
  show ?thesis
  proof (cases "want_hash \<and> c1 \<noteq> None")
    case True
    then obtain cur where cur: "c1 = Some cur" by blast
    obtain c2 where c2: "flow_ppp bs cur = Some c2"
      using flow_ppp_defined [OF flow_skip_room] c1 cur by blast
    show ?thesis
    proof (cases c2)
      case None
      with True c1 c2 o1 cur show ?thesis by (simp add: flow_l2tp_def Let_def)
    next
      case (Some inner)
      obtain h where h: "l2tvpp_hash_ip crc bs inner = Some h" using hash_ip_defined by blast
      show ?thesis
        using True c1 c2 o1 cur Some h by (cases h) (simp_all add: flow_l2tp_def Let_def)
    qed
  next
    case False
    with c1 o1 show ?thesis by (auto simp: flow_l2tp_def Let_def)
  qed
qed

lemma fast_checks_defined:
  assumes "p + 20 \<le> length bs"
  shows "\<exists>r. flow_fast_checks csum_valid lm bs p fastpath tagged = Some r"
  using assms by (auto simp: flow_fast_checks_def rd_simps)

lemma flow_ip4_defined: "\<exists>c. flow_ip4 crc csum_valid lm b bs fastpath want_hash p tagged = Some c"
proof (cases "length bs < p + 20")
  case True
  then show ?thesis by (simp add: flow_ip4_def)
next
  case False
  then have p20: "p + 20 \<le> length bs" by simp
  obtain o1 where o1: "flow_outer crc want_hash bs p = Some o1" using flow_outer_defined by blast
  define udp where "udp = p + ip4_header_bytes (bs ! p)"
  obtain fast where fast: "flow_fast_checks csum_valid lm bs p fastpath tagged = Some fast"
    using fast_checks_defined [OF p20] by blast
  obtain rc where rc: "l2tvpp_parse_hdr (drop (udp + 8) bs) (length bs - (udp + 8)) = Some rc"
    using parse_hdr_no_fault [of "length bs - (udp + 8)" "drop (udp + 8) bs"] by auto
  have reads: "rd8 bs (p + 9) = Some (bs ! (p + 9))" "rd8 bs p = Some (bs ! p)"
    "rd16 bs (p + 6) = Some (be16 (bs ! (p + 6)) (bs ! (p + 6 + 1)))"
    using p20 by (simp_all add: rd_simps)
  show ?thesis
  proof (cases "udp + 8 \<le> length bs")
    case True
    then have "rd16 bs (udp + 2) = Some (be16 (bs ! (udp + 2)) (bs ! (udp + 2 + 1)))"
      by (simp add: rd_simps)
    then show ?thesis
      using p20 rc o1 fast flow_l2tp_defined
      by (cases rc) (auto simp: flow_ip4_def Let_def reads udp_def [symmetric])
  next
    case False
    then show ?thesis
      using p20 o1 by (simp add: flow_ip4_def Let_def reads udp_def [symmetric])
  qed
qed

lemma flow_ethernet_defined: "\<exists>r. flow_ethernet bs = Some r"
  by (auto simp: flow_ethernet_def rd_simps)

lemma classify_defined: "\<exists>c. l2tvpp_flow_classify crc csum_valid lm b fastpath want_hash = Some c"
proof -
  obtain r where r: "flow_ethernet (cur_bytes b) = Some r" using flow_ethernet_defined by blast
  show ?thesis
    using r flow_ip4_defined flow_outer_defined [of crc want_hash "cur_bytes b"]
    by (cases r) (auto simp: l2tvpp_flow_classify_def Let_def)
qed

section \<open>The hash is a function of the flow key\<close>

definition map_class :: "('a \<Rightarrow> 'b) \<Rightarrow> 'a flow_class \<Rightarrow> 'b flow_class" where
  "map_class f c = \<lparr>fc_kind = fc_kind c, fc_hash = map_option f (fc_hash c),
     fc_l2tp_offset = fc_l2tp_offset c, fc_buffer = fc_buffer c\<rparr>"

lemma hash_ip_map: "l2tvpp_hash_ip (\<lambda>k. f (crc k)) bs p = map_option (map_option f) (l2tvpp_hash_ip crc bs p)"
proof -
  obtain r where r: "flow_addresses bs p = Some r" using flow_addresses_defined by blast
  show ?thesis
  proof (cases r)
    case (Some x)
    obtain src dst proto l4 where x: "x = (src, dst, proto, l4)" by (cases x)
    obtain ports where "flow_ports bs proto l4 = Some ports" using flow_ports_defined by blast
    with r Some x show ?thesis by (simp add: l2tvpp_hash_ip_def)
  qed (simp add: l2tvpp_hash_ip_def r)
qed

lemma flow_outer_map:
  "flow_outer (\<lambda>k. f (crc k)) want_hash bs p =
     map_option (\<lambda>(k, h). (k, map_option f h)) (flow_outer crc want_hash bs p)"
proof -
  obtain r where "l2tvpp_hash_ip crc bs p = Some r" using hash_ip_defined by blast
  then show ?thesis by (cases r) (simp_all add: flow_outer_def hash_ip_map)
qed

lemma map_class_classified [simp]: "map_class f (classified b k h) = classified b k (map_option f h)"
  by (simp add: map_class_def classified_def)

lemma flow_l2tp_map:
  "flow_l2tp (\<lambda>k. f (crc k)) b bs want_hash fast p udp l2tp flags off =
     map_option (map_class f) (flow_l2tp crc b bs want_hash fast p udp l2tp flags off)"
proof -
  obtain k h where o1: "flow_outer crc want_hash bs p = Some (k, h)"
    using flow_outer_defined [of crc want_hash bs p] by auto
  obtain c1 where c1: "flow_skip bs flags (l2tp + off) = Some c1" using flow_skip_defined by blast
  show ?thesis
  proof (cases "want_hash \<and> c1 \<noteq> None")
    case True
    then obtain cur where cur: "c1 = Some cur" by blast
    obtain c2 where c2: "flow_ppp bs cur = Some c2"
      using flow_ppp_defined [OF flow_skip_room] c1 cur by blast
    show ?thesis
    proof (cases c2)
      case None
      with True c1 c2 o1 cur show ?thesis
        by (simp add: flow_l2tp_def Let_def flow_outer_map map_class_def)
    next
      case (Some inner)
      obtain v where v: "l2tvpp_hash_ip crc bs inner = Some v" using hash_ip_defined by blast
      show ?thesis
        using True c1 c2 o1 cur Some v
        by (cases v) (simp_all add: flow_l2tp_def Let_def flow_outer_map hash_ip_map map_class_def)
    qed
  next
    case False
    with c1 o1 show ?thesis by (auto simp: flow_l2tp_def Let_def flow_outer_map map_class_def)
  qed
qed

lemma flow_ip4_map:
  "flow_ip4 (\<lambda>k. f (crc k)) csum_valid lm b bs fastpath want_hash p tagged =
     map_option (map_class f) (flow_ip4 crc csum_valid lm b bs fastpath want_hash p tagged)"
proof -
  obtain k h where o1: "flow_outer crc want_hash bs p = Some (k, h)"
    using flow_outer_defined [of crc want_hash bs p] by auto
  have outer: "map_option (\<lambda>(k, h). classified b k h) (flow_outer (\<lambda>k. f (crc k)) want_hash bs p) =
      map_option (map_class f) (map_option (\<lambda>(k, h). classified b k h) (flow_outer crc want_hash bs p))"
    by (simp add: flow_outer_map o1)
  show ?thesis
    unfolding flow_ip4_def Let_def outer flow_l2tp_map
    by (auto split: Option.bind_splits l2tvpp_hdr_rc.splits)
qed

lemma classify_map:
  "l2tvpp_flow_classify (\<lambda>k. f (crc k)) csum_valid lm b fastpath want_hash =
     map_option (map_class f) (l2tvpp_flow_classify crc csum_valid lm b fastpath want_hash)"
proof -
  obtain r where r: "flow_ethernet (cur_bytes b) = Some r" using flow_ethernet_defined by blast
  show ?thesis
  proof (cases r)
    case (Some x)
    obtain type p tagged where x: "x = (type, p, tagged)" by (cases x)
    obtain k h where o1: "flow_outer crc want_hash (cur_bytes b) p = Some (k, h)"
      using flow_outer_defined [of crc want_hash "cur_bytes b" p] by auto
    show ?thesis
      using r Some x o1 by (simp add: l2tvpp_flow_classify_def Let_def flow_ip4_map flow_outer_map)
  qed (simp add: l2tvpp_flow_classify_def r)
qed

section \<open>The fast path\<close>

lemma flow_outer_not_fast:
  assumes "flow_outer crc want_hash bs p = Some (k, h)"
  shows "k \<noteq> L2TVPP_FLOW_KIND_FAST" and "k \<noteq> L2TVPP_FLOW_KIND_INNER"
  using assms by (auto simp: flow_outer_def bind_eq_Some_conv split: if_splits option.splits)

lemma flow_l2tp_fast:
  assumes "flow_l2tp crc b bs want_hash fast p udp l2tp flags off = Some c"
    and "fc_kind c = L2TVPP_FLOW_KIND_FAST"
  shows "fast \<and> fc_l2tp_offset c = l2tp \<and> fc_buffer c = record_offsets b p udp"
proof -
  have "fast"
    using assms flow_outer_not_fast [of crc want_hash bs p]
    by (auto simp: flow_l2tp_def Let_def bind_eq_Some_conv split: if_splits option.splits)
  moreover have "fc_l2tp_offset c = (if fast then l2tp else 0)"
    "fc_buffer c = (if fast then record_offsets b p udp else b)"
    using assms(1) by (auto simp: flow_l2tp_def Let_def bind_eq_Some_conv split: if_splits option.splits)
  ultimately show ?thesis by simp
qed

text \<open>What the fast path has verified of the outer headers at \<open>p\<close>.\<close>

definition outer_checks :: "(bytes \<Rightarrow> bool) \<Rightarrow> 'h l2tvpp_main \<Rightarrow> bytes \<Rightarrow> nat \<Rightarrow> bool" where
  "outer_checks csum_valid lm bs p \<longleftrightarrow>
     rd8 bs p = Some 0x45 \<and> rd8 bs (p + 9) = Some 17 \<and> csum_valid (take 20 (drop p bs))
     \<and> (\<exists>frag. rd16 bs (p + 6) = Some frag \<and> frag AND 0x3fff = 0)
     \<and> (\<exists>len. rd16 bs (p + 2) = Some len \<and> unat len \<le> length bs - p \<and> 34 \<le> unat len)
     \<and> (\<exists>dst. ld32 bs (p + 16) = Some dst \<and> dst \<in> set (local_ip4s lm))
     \<and> rd16 bs (p + 22) = Some L2TVPP_UDP_PORT
     \<and> (\<exists>f tid sid off. l2tvpp_parse_hdr (drop (p + 28) bs) (length bs - (p + 28)) =
          Some (L2TVPP_HDR_DATA f tid sid off))"

lemma frag_bits: "frag AND 0x1fff = 0 \<Longrightarrow> frag AND 0x2000 = 0 \<Longrightarrow> frag AND 0x3fff = (0 :: u16)"
proof -
  assume a: "frag AND 0x1fff = 0" "frag AND 0x2000 = 0"
  have "frag AND 0x3fff = (frag AND 0x1fff) OR (frag AND 0x2000)"
    by (simp flip: bit.conj_disj_distrib)
  with a show "frag AND 0x3fff = 0" by simp
qed

text \<open>A packet of kind \<open>FAST\<close> or \<open>INNER\<close> is UDP, unfragmented, to port 1701, with a data header;
  \<open>udp\<close> is the position of its UDP header.\<close>

lemma flow_ip4_data:
  assumes "flow_ip4 crc csum_valid lm b bs fastpath want_hash p tagged = Some c"
    and "fc_kind c = L2TVPP_FLOW_KIND_FAST \<or> fc_kind c = L2TVPP_FLOW_KIND_INNER"
  obtains vihl frag udp fast flags tid sid off where
    "rd8 bs (p + 9) = Some FLOW_IP_PROTOCOL_UDP" and "rd16 bs (p + 6) = Some frag"
    and "frag AND 0x1fff = 0" and "frag AND 0x2000 = 0"
    and "rd8 bs p = Some vihl" and "udp = p + ip4_header_bytes vihl"
    and "rd16 bs (udp + 2) = Some L2TVPP_UDP_PORT"
    and "l2tvpp_parse_hdr (drop (udp + 8) bs) (length bs - (udp + 8)) = Some (L2TVPP_HDR_DATA flags tid sid off)"
    and "flow_fast_checks csum_valid lm bs p fastpath tagged = Some fast"
    and "flow_l2tp crc b bs want_hash fast p udp (udp + 8) flags off = Some c"
proof -
  have no: "map_option (\<lambda>(k, h). classified b k h) (flow_outer crc want_hash bs p) \<noteq> Some c"
    using assms(2) flow_outer_not_fast [of crc want_hash bs p] by (auto simp: classified_def)
  have no': "c \<noteq> classified b L2TVPP_FLOW_KIND_LOCAL None"
    using assms(2) by (auto simp: classified_def)
  obtain proto frag vihl port rc where
    r: "rd8 bs (p + 9) = Some proto" "rd16 bs (p + 6) = Some frag" "rd8 bs p = Some vihl"
    and chk: "\<not> (proto \<noteq> FLOW_IP_PROTOCOL_UDP \<or> frag AND 0x1fff \<noteq> 0 \<or> frag AND 0x2000 \<noteq> 0)"
    and port: "rd16 bs (p + ip4_header_bytes vihl + 2) = Some port" "port = L2TVPP_UDP_PORT"
    and rc: "l2tvpp_parse_hdr (drop (p + ip4_header_bytes vihl + 8) bs)
      (length bs - (p + ip4_header_bytes vihl + 8)) = Some rc"
    and rest: "(case rc of
              L2TVPP_HDR_TOO_SHORT \<Rightarrow> map_option (\<lambda>(k, h). classified b k h) (flow_outer crc want_hash bs p)
            | L2TVPP_HDR_DATA flags tid sid off \<Rightarrow> do {
                fast \<leftarrow> flow_fast_checks csum_valid lm bs p fastpath tagged;
                flow_l2tp crc b bs want_hash fast p (p + ip4_header_bytes vihl)
                  (p + ip4_header_bytes vihl + 8) flags off }
            | _ \<Rightarrow> Some (classified b L2TVPP_FLOW_KIND_LOCAL None)) = Some c"
    using assms(1) no no'
    by (auto simp: flow_ip4_def Let_def bind_eq_Some_conv split: if_splits)
  obtain flags tid sid off fast where "rc = L2TVPP_HDR_DATA flags tid sid off"
    and "flow_fast_checks csum_valid lm bs p fastpath tagged = Some fast"
    and "flow_l2tp crc b bs want_hash fast p (p + ip4_header_bytes vihl)
      (p + ip4_header_bytes vihl + 8) flags off = Some c"
    using rest no no' by (auto simp: bind_eq_Some_conv split: l2tvpp_hdr_rc.splits)
  moreover have "proto = FLOW_IP_PROTOCOL_UDP" "frag AND 0x1fff = 0" "frag AND 0x2000 = 0"
    using chk by simp_all
  ultimately show thesis
    using r port rc by (intro that) (simp_all only:)
qed

lemma flow_ip4_fast:
  assumes "flow_ip4 crc csum_valid lm b bs fastpath want_hash p tagged = Some c"
    and "fc_kind c = L2TVPP_FLOW_KIND_FAST"
  shows "fastpath \<and> \<not> tagged \<and> fc_l2tp_offset c = p + 28 \<and> fc_buffer c = record_offsets b p (p + 20)
    \<and> outer_checks csum_valid lm bs p"
proof -
  obtain vihl frag udp fast flags tid sid off where
    r: "rd8 bs (p + 9) = Some FLOW_IP_PROTOCOL_UDP" "rd16 bs (p + 6) = Some frag"
      "frag AND 0x1fff = 0" "frag AND 0x2000 = 0" "rd8 bs p = Some vihl"
    and udp: "udp = p + ip4_header_bytes vihl" and port: "rd16 bs (udp + 2) = Some L2TVPP_UDP_PORT"
    and rc: "l2tvpp_parse_hdr (drop (udp + 8) bs) (length bs - (udp + 8)) =
      Some (L2TVPP_HDR_DATA flags tid sid off)"
    and fast: "flow_fast_checks csum_valid lm bs p fastpath tagged = Some fast"
    and l2tp: "flow_l2tp crc b bs want_hash fast p udp (udp + 8) flags off = Some c"
    by (rule flow_ip4_data [OF assms(1) disjI1 [OF assms(2)]])
  note fl = flow_l2tp_fast [OF l2tp assms(2)]
  obtain len hdr dst where f: "fastpath" "\<not> tagged" "vihl = 0x45" "rd16 bs (p + 2) = Some len"
    "rdn bs p 20 = Some hdr" "ld32 bs (p + 16) = Some dst" "unat len \<le> length bs - p" "34 \<le> unat len"
    "csum_valid hdr" "l2tvpp_is_local_ip4 lm dst"
    using fast fl r(5) by (auto simp: flow_fast_checks_def bind_eq_Some_conv split: if_splits)
  have udp20: "udp = p + 20" by (simp add: udp f(3) ip4_header_bytes_def)
  have "dst \<in> set (local_ip4s lm)" using f(10) by (auto simp: l2tvpp_is_local_ip4_def list_ex_iff)
  moreover have "hdr = take 20 (drop p bs)" using f(5) by (simp add: rdn_def split: if_splits)
  moreover have "rd16 bs (p + 22) = Some L2TVPP_UDP_PORT" using port udp20 by (simp add: add.commute)
  moreover have "frag AND 0x3fff = 0" by (rule frag_bits [OF r(3,4)])
  ultimately show ?thesis
    using fl r rc f udp20 by (auto simp: outer_checks_def FLOW_IP_PROTOCOL_UDP_def add.assoc)
qed

lemma classify_fast:
  assumes "l2tvpp_flow_classify crc csum_valid lm b fastpath want_hash = Some c"
    and "fc_kind c = L2TVPP_FLOW_KIND_FAST"
  shows "fastpath \<and> fc_l2tp_offset c = 42 \<and> fc_buffer c = record_offsets b 14 34
    \<and> rd16 (cur_bytes b) 12 = Some ETHERNET_TYPE_IP4 \<and> outer_checks csum_valid lm (cur_bytes b) 14"
proof -
  obtain r where r: "flow_ethernet (cur_bytes b) = Some r" using flow_ethernet_defined by blast
  with assms obtain type p tagged where e: "flow_ethernet (cur_bytes b) = Some (Some (type, p, tagged))"
    by (cases r) (auto simp: l2tvpp_flow_classify_def classified_def)
  have "type = ETHERNET_TYPE_IP4"
    using assms e flow_outer_not_fast(1) [of crc want_hash "cur_bytes b" p]
    by (auto simp: l2tvpp_flow_classify_def classified_def Let_def split: if_splits)
  then have "flow_ip4 crc csum_valid lm b (cur_bytes b) fastpath want_hash p tagged = Some c"
    using assms e by (simp add: l2tvpp_flow_classify_def)
  note f = flow_ip4_fast [OF this assms(2)]
  then have "p = 14" "rd16 (cur_bytes b) 12 = Some type"
    using e by (auto simp: flow_ethernet_def bind_eq_Some_conv split: if_splits)
  with f \<open>type = ETHERNET_TYPE_IP4\<close> show ?thesis by simp
qed

text \<open>The buffer the node hands to \<open>l2tvpp-input\<close>.\<close>

definition fast_buffer :: "'v flow_class \<Rightarrow> vlib_buffer" where
  "fast_buffer c = (vlib_buffer_advance (fc_buffer c) (int (fc_l2tp_offset c)))\<lparr>b_tx := - 1\<rparr>"

lemma record_offsets_simps [simp]:
  "wf_buffer (record_offsets b p udp) = wf_buffer b" "cur_bytes (record_offsets b p udp) = cur_bytes b"
  "b_current_length (record_offsets b p udp) = b_current_length b"
  "b_current_data (record_offsets b p udp) = b_current_data b" "b_rx (record_offsets b p udp) = b_rx b"
  "b_mem (record_offsets b p udp) = b_mem b" "b_l3_hdr_offset (record_offsets b p udp) = b_current_data b + p"
  "b_rest_length (record_offsets b p udp) = b_rest_length b"
  by (simp_all add: record_offsets_def wf_buffer_def cur_bytes_def)

lemma parse_data_length:
  assumes "l2tvpp_parse_hdr (drop n bs) (length bs - n) = Some (L2TVPP_HDR_DATA f tid sid off)"
  shows "n + 6 \<le> length bs"
  using parse_hdr_data_off [OF assms] by simp

lemma fast_buffer_facts:
  assumes "wf_buffer b" and "l2tvpp_flow_classify crc csum_valid lm b fastpath want_hash = Some c"
    and "fc_kind c = L2TVPP_FLOW_KIND_FAST"
  shows "wf_buffer (fast_buffer c)" and "cur_bytes (fast_buffer c) = drop 42 (cur_bytes b)"
    and "b_l3_hdr_offset (fast_buffer c) = b_current_data b + 14"
    and "b_current_data (fast_buffer c) = b_current_data b + 42"
    and "b_current_length (fast_buffer c) + 42 = b_current_length b" and "b_mem (fast_buffer c) = b_mem b"
    and "\<exists>f tid sid off. l2tvpp_parse_hdr (drop 42 (cur_bytes b)) (b_current_length (fast_buffer c)) =
      Some (L2TVPP_HDR_DATA f tid sid off)"
proof -
  note cf = classify_fast [OF assms(2,3)]
  then obtain f tid sid off where p: "l2tvpp_parse_hdr (drop 42 (cur_bytes b)) (length (cur_bytes b) - 42) =
      Some (L2TVPP_HDR_DATA f tid sid off)"
    by (auto simp: outer_checks_def)
  have len: "42 \<le> b_current_length b"
    using parse_data_length [OF p] assms(1) by simp
  have fb: "fast_buffer c = (vlib_buffer_advance (record_offsets b 14 34) (int 42))\<lparr>b_tx := - 1\<rparr>"
    using cf by (simp add: fast_buffer_def)
  have adv: "wf_buffer (vlib_buffer_advance (record_offsets b 14 34) (int 42))"
    "cur_bytes (vlib_buffer_advance (record_offsets b 14 34) (int 42)) = drop 42 (cur_bytes b)"
    using cur_bytes_advance [of "record_offsets b 14 34" 42] assms(1) len by simp_all
  show "wf_buffer (fast_buffer c)" "cur_bytes (fast_buffer c) = drop 42 (cur_bytes b)"
    using adv by (simp_all add: fb wf_buffer_def)
  show "b_l3_hdr_offset (fast_buffer c) = b_current_data b + 14"
    by (simp add: fb vlib_buffer_advance_def)
  show "b_current_data (fast_buffer c) = b_current_data b + 42" "b_mem (fast_buffer c) = b_mem b"
    by (simp_all add: fb vlib_buffer_advance_def)
  show cl: "b_current_length (fast_buffer c) + 42 = b_current_length b"
    using len by (simp add: fb vlib_buffer_advance_def)
  then have "b_current_length (fast_buffer c) = length (cur_bytes b) - 42" using assms(1) by simp
  with p show "\<exists>f tid sid off. l2tvpp_parse_hdr (drop 42 (cur_bytes b)) (b_current_length (fast_buffer c)) =
      Some (L2TVPP_HDR_DATA f tid sid off)" by auto
qed

section \<open>Example frames\<close>

text \<open>An Ethernet frame of the example tunnel with a data packet of the example session: a
  60-byte IPv4 datagram whose PPP payload is protocol \<open>proto\<close> with a 22-byte body.\<close>

definition ex_ip_inner :: bytes where
  "ex_ip_inner = [0x45, 0, 0, 22, 0, 0, 0, 0, 64, 1, 0, 0, 100, 64, 0, 1, 8, 8, 8, 8, 8, 0]"

definition ex_eth_frame :: "u16 \<Rightarrow> bytes" where
  "ex_eth_frame proto = [2, 0, 0, 0, 0, 1, 2, 0, 0, 0, 0, 2, 8, 0,
     0x45, 0, 0, 60, 0, 0, 0, 0, 64, 17, 0, 0, 10, 0, 0, 2, 10, 0, 0, 1,
     0x06, 0xa5, 0x06, 0xa5, 0, 40, 0, 0, 0, 2, 0, 100, 0x03, 0xe8, 0xff, 0x03] @ put16 proto @ ex_ip_inner"

lemma ex_frame_bytes:
  "length (ex_eth_frame proto) = 74" "rd8 (ex_eth_frame proto) 23 = Some 17"
  "rd16 (ex_eth_frame proto) 20 = Some 0" "rd8 (ex_eth_frame proto) 14 = Some 0x45"
  "rd16 (ex_eth_frame proto) 36 = Some 1701"
  by (simp_all add: ex_eth_frame_def ex_ip_inner_def put16_def rd16_def rd8_def be16_def)

lemma ex_frame_parse:
  "l2tvpp_parse_hdr (drop 42 (ex_eth_frame proto)) 32 = Some (L2TVPP_HDR_DATA 2 100 1000 6)"
  by (simp add: l2tvpp_parse_hdr_def ex_eth_frame_def ex_ip_inner_def put16_def rd16_def rd8_def be16_def
      hdr_consts)

lemma ex_frame_classify:
  "l2tvpp_flow_classify crc (\<lambda>h. True) ex_main (ex_buffer (ex_eth_frame proto)) True want_hash =
     flow_l2tp crc (ex_buffer (ex_eth_frame proto)) (ex_eth_frame proto) want_hash True 14 34 42 2 6"
proof -
  have eth: "flow_ethernet (ex_eth_frame proto) = Some (Some (ETHERNET_TYPE_IP4, 14, False))"
    by (simp add: flow_ethernet_def ex_eth_frame_def rd16_def rd8_def be16_def ETHERNET_TYPE_IP4_def
        ETHERNET_TYPE_VLAN_def)
  have fast: "flow_fast_checks (\<lambda>h. True) ex_main (ex_eth_frame proto) 14 True False = Some True"
    by (simp add: flow_fast_checks_def ex_eth_frame_def ex_ip_inner_def put16_def rd16_def rd8_def rdn_def
        be16_def ld32_def l2tvpp_is_local_ip4_def ex_main_rest ip_10_0_0_1_def)
  show ?thesis
    by (simp add: l2tvpp_flow_classify_def eth flow_ip4_def ex_frame_bytes ip4_header_bytes_def
        FLOW_IP_PROTOCOL_UDP_def L2TVPP_UDP_PORT_def ex_frame_parse fast Let_def)
qed

lemma ex_fast_class:
  "\<exists>c. l2tvpp_flow_classify (\<lambda>k. 7 :: u32) (\<lambda>h. True) ex_main (ex_buffer (ex_eth_frame PPP_PROTO_IP4)) True True = Some c
    \<and> fc_kind c = L2TVPP_FLOW_KIND_FAST \<and> fc_hash c = Some 7"
proof -
  let ?bs = "ex_eth_frame PPP_PROTO_IP4"
  have skip: "flow_skip ?bs 2 48 = Some (Some 48)"
    by (simp add: flow_skip_def ex_frame_bytes hdr_consts)
  have ppp: "flow_ppp ?bs 48 = Some (Some 52)"
    by (simp add: flow_ppp_def ex_eth_frame_def ex_ip_inner_def put16_def rd16_def rd8_def be16_def PPP_PROTO_IP4_def
        PPP_PROTO_IP6_def)
  have hash: "l2tvpp_hash_ip (\<lambda>k. 7 :: u32) ?bs 52 = Some (Some 7)"
    by (simp add: l2tvpp_hash_ip_def flow_addresses_def flow_ports_def ex_eth_frame_def ex_ip_inner_def put16_def
        rd16_def rd8_def rdn_def be16_def FLOW_IP_PROTOCOL_UDP_def IP_PROTOCOL_TCP_def)
  show ?thesis by (simp add: ex_frame_classify flow_l2tp_def Let_def skip ppp hash)
qed

lemma ex_frame_fast_buffer:
  assumes "l2tvpp_flow_classify crc (\<lambda>h. True) ex_main (ex_buffer (ex_eth_frame proto)) True want_hash = Some c"
    and "fc_kind c = L2TVPP_FLOW_KIND_FAST"
  shows "wf_buffer (fast_buffer c)" and "cur_bytes (fast_buffer c) = drop 42 (ex_eth_frame proto)"
    and "b_current_length (fast_buffer c) = 32"
  using fast_buffer_facts(1,2,5) [OF ex_buffer_simps(1) assms] by (simp_all add: ex_frame_bytes)

lemma ex_lcp_punted:
  "\<exists>c r. l2tvpp_flow_classify crc (\<lambda>h. True) ex_main (ex_buffer (ex_eth_frame 0xc021)) True False = Some c
    \<and> fc_kind c = L2TVPP_FLOW_KIND_FAST \<and> node_packet alist_bihash ex_main (fast_buffer c) = Some r
    \<and> ir_next r = L2TVPP_INPUT_NEXT_PUNT"
proof -
  obtain c where c: "l2tvpp_flow_classify crc (\<lambda>h. True) ex_main (ex_buffer (ex_eth_frame 0xc021)) True False = Some c"
    "fc_kind c = L2TVPP_FLOW_KIND_FAST"
    by (simp add: ex_frame_classify flow_l2tp_def)
  note fb = ex_frame_fast_buffer [OF c]
  have "l2tvpp_input_skip (drop 42 (ex_eth_frame 0xc021)) 32 2 6 = Some (Walk_to 6 DECAP)"
    by (simp add: l2tvpp_input_skip_def hdr_consts)
  moreover have "l2tvpp_input_ppp (drop 42 (ex_eth_frame 0xc021)) 6 = Some (0xc021, 10)"
    by (simp add: input_ppp_defs ex_eth_frame_def ex_ip_inner_def put16_def rd16_def rd8_def be16_def)
  moreover have "bh_search alist_bihash (session_by_key ex_main) (l2tvpp_session_key 100 1000) = Some 0"
    by (simp add: ex_main_eq alist_bihash_def)
  ultimately have "\<exists>r. node_packet alist_bihash ex_main (fast_buffer c) = Some r
      \<and> ir_next r = L2TVPP_INPUT_NEXT_PUNT"
    by (simp add: l2tvpp_input_packet_def fb ex_frame_parse PPP_PROTO_IP4_def PPP_PROTO_IP6_def result_simps)
  with c show ?thesis by blast
qed

section \<open>Properties of the fast path\<close>

text \<open>The fast path is sound: a packet is taken straight to \<open>l2tvpp-input\<close> only
  when fast path is on for its interface and it is an untagged IPv4 packet without options, not a
  fragment, with a valid header checksum, a total length inside the frame and large enough, addressed
  to one of our tunnel endpoints, UDP to port 1701, with an L2TPv2 data header; and the buffer is then
  handed over exactly at that header, 42 bytes in, with the IP header recorded 14 bytes in.\<close>

theorem fast_path_sound:
  assumes "wf_buffer b" and "l2tvpp_flow_classify crc csum_valid lm b fastpath want_hash = Some c"
    and "fc_kind c = L2TVPP_FLOW_KIND_FAST"
  shows "fastpath \<and> rd16 (cur_bytes b) 12 = Some ETHERNET_TYPE_IP4
    \<and> outer_checks csum_valid lm (cur_bytes b) 14
    \<and> cur_bytes (fast_buffer c) = drop 42 (cur_bytes b)
    \<and> b_l3_hdr_offset (fast_buffer c) = b_current_data b + 14"
  using classify_fast [OF assms(2,3)] fast_buffer_facts [OF assms] by simp

theorem fast_path_sound_witness:
  "\<exists>c. l2tvpp_flow_classify (\<lambda>k. 7 :: u32) (\<lambda>h. True) ex_main (ex_buffer (ex_eth_frame PPP_PROTO_IP4)) True True = Some c
    \<and> outer_checks (\<lambda>h. True) ex_main (ex_eth_frame PPP_PROTO_IP4) 14
    \<and> cur_bytes (fast_buffer c) = drop 42 (ex_eth_frame PPP_PROTO_IP4)"
proof -
  obtain c where c: "l2tvpp_flow_classify (\<lambda>k. 7 :: u32) (\<lambda>h. True) ex_main (ex_buffer (ex_eth_frame PPP_PROTO_IP4))
      True True = Some c" "fc_kind c = L2TVPP_FLOW_KIND_FAST"
    using ex_fast_class by blast
  then show ?thesis using fast_path_sound [OF ex_buffer_simps(1) c] by auto
qed

text \<open>Claim C36: (functional) fast path and punt compose: a packet the fast path took and that
  \<open>l2tvpp-input\<close> then punts (no such session, PPP control) leaves as the original IP packet, that is
  the received frame without its 14-byte Ethernet header.\<close>

theorem fast_path_punt_restores:
  assumes "objects_inv bh lm" and "wf_buffer b"
    and "l2tvpp_flow_classify crc csum_valid lm b fastpath want_hash = Some c"
    and "fc_kind c = L2TVPP_FLOW_KIND_FAST"
    and "l2tvpp_input_packet (inner_ip4_no_checksum lm) (bh_search bh (session_by_key lm))
      (pool_elt (sessions lm)) (fast_buffer c) = Some r"
    and "ir_next r = L2TVPP_INPUT_NEXT_PUNT"
  shows "cur_bytes (ir_buffer r) = drop 14 (cur_bytes b)"
proof -
  note fb = fast_buffer_facts [OF assms(2-4)]
  obtain err si tid sid ppp where r: "r = input_punt (fast_buffer c) err si tid sid ppp"
    by (rule node_packet_cases [OF assms(1) fb(1) assms(5)])
      (use assms(6) in \<open>auto simp: input_drop_def input_decap_def Let_def delivered_def\<close>)
  have "b_current_data (ir_buffer r) = b_current_data b + 14"
    "b_current_length (ir_buffer r) = b_current_length b - 14"
    "b_mem (ir_buffer r) = b_mem b"
    using fb(3-6) by (simp_all add: r result_simps l2tvpp_rewind_to_ip_def vlib_buffer_advance_def)
  then show ?thesis by (simp add: cur_bytes_def drop_take add.commute)
qed

theorem fast_path_punt_restores_witness:
  "\<exists>c r. l2tvpp_flow_classify (\<lambda>k. 0 :: u32) (\<lambda>h. True) ex_main (ex_buffer (ex_eth_frame 0xc021)) True False = Some c
    \<and> node_packet alist_bihash ex_main (fast_buffer c) = Some r
    \<and> cur_bytes (ir_buffer r) = drop 14 (ex_eth_frame 0xc021)"
proof -
  obtain c r where c: "l2tvpp_flow_classify (\<lambda>k. 0 :: u32) (\<lambda>h. True) ex_main (ex_buffer (ex_eth_frame 0xc021))
      True False = Some c" "fc_kind c = L2TVPP_FLOW_KIND_FAST"
    and r: "node_packet alist_bihash ex_main (fast_buffer c) = Some r" "ir_next r = L2TVPP_INPUT_NEXT_PUNT"
    using ex_lcp_punted by blast
  then show ?thesis
    using fast_path_punt_restores [OF ex_main_inv ex_buffer_simps(1) c r] by auto
qed

section \<open>The flow hashed is the packet delivered\<close>

lemma flow_addresses_drop:
  assumes "k \<le> length bs"
  shows "flow_addresses bs k =
    map_option (map_option (\<lambda>(s, d, pr, l4). (s, d, pr, k + l4))) (flow_addresses (drop k bs) 0)"
  using assms
  by (auto simp: flow_addresses_def rd8_drop rd16_drop rdn_drop rd_simps ac_simps)

lemma flow_ports_drop:
  assumes "k \<le> length bs"
  shows "flow_ports bs proto (k + l4) = flow_ports (drop k bs) proto l4"
  using assms by (auto simp: flow_ports_def rdn_drop rd_simps ac_simps)

lemma hash_ip_drop:
  assumes "k \<le> length bs"
  shows "l2tvpp_hash_ip crc bs k = l2tvpp_hash_ip crc (drop k bs) 0"
proof -
  obtain r where r: "flow_addresses (drop k bs) 0 = Some r" using flow_addresses_defined by blast
  show ?thesis
    by (cases r) (auto simp: l2tvpp_hash_ip_def flow_addresses_drop [OF assms] r
        flow_ports_drop [OF assms])
qed

lemma flow_skip_input_skip:
  assumes "k \<le> length bs" and "flow_skip bs flags (k + off) = Some (Some cur)"
  shows "\<exists>err. l2tvpp_input_skip (drop k bs) (length bs - k) flags off = Some (Walk_to (cur - k) err)
    \<and> k \<le> cur"
proof (cases "flags AND L2TVPP_HDR_O \<noteq> 0")
  case True
  define c1 where "c1 = (if flags AND L2TVPP_HDR_S \<noteq> 0 then off + 4 else off)"
  from True assms(2) obtain sz where sz: "rd16 bs (k + c1) = Some sz" "cur = k + c1 + 2 + unat sz"
    "cur + 4 \<le> length bs"
    by (cases "flags AND L2TVPP_HDR_S \<noteq> 0")
      (auto simp: flow_skip_def Let_def bind_eq_Some_conv c1_def add.assoc split: if_splits)
  then have "rd16 (drop k bs) c1 = Some sz" "\<not> length bs - k < c1 + 2"
    "\<not> length bs - k < c1 + 2 + unat sz + 4" "cur - k = c1 + 2 + unat sz" "k \<le> cur"
    by (simp_all add: rd16_drop)
  with True show ?thesis by (simp add: l2tvpp_input_skip_def Let_def c1_def [symmetric])
next
  case False
  with assms show ?thesis
    by (auto simp: flow_skip_def l2tvpp_input_skip_def Let_def split: if_splits)
qed

lemma flow_l2tp_hashed:
  assumes "flow_l2tp crc b bs True fast p udp l2tp flags off = Some c"
    and "fc_kind c = L2TVPP_FLOW_KIND_FAST \<or> fc_kind c = L2TVPP_FLOW_KIND_INNER"
  obtains cur inner where "flow_skip bs flags (l2tp + off) = Some (Some cur)"
    and "flow_ppp bs cur = Some (Some inner)" and "l2tvpp_hash_ip crc bs inner = Some (fc_hash c)"
proof -
  have no: "map_option (\<lambda>(k, h). \<lparr>fc_kind = k, fc_hash = h, fc_l2tp_offset = lo, fc_buffer = b1\<rparr>)
      (flow_outer crc True bs p) \<noteq> Some c" for lo b1
    using assms(2) flow_outer_not_fast [of crc True bs p] by auto
  show thesis
    using assms(1) no that
    by (auto simp: flow_l2tp_def Let_def bind_eq_Some_conv split: if_splits option.splits)
qed

lemma flow_l2tp_offset:
  assumes "flow_l2tp crc b bs want_hash fast p udp l2tp flags off = Some c"
    and "fc_kind c = L2TVPP_FLOW_KIND_FAST"
  shows "fc_l2tp_offset c = l2tp"
  using flow_l2tp_fast [OF assms] by simp

lemma classify_fast_walk:
  assumes "l2tvpp_flow_classify crc csum_valid lm b fastpath True = Some c"
    and "fc_kind c = L2TVPP_FLOW_KIND_FAST"
  obtains flags tid sid off cur inner where
    "l2tvpp_parse_hdr (drop 42 (cur_bytes b)) (length (cur_bytes b) - 42) =
      Some (L2TVPP_HDR_DATA flags tid sid off)"
    and "flow_skip (cur_bytes b) flags (42 + off) = Some (Some cur)"
    and "flow_ppp (cur_bytes b) cur = Some (Some inner)"
    and "l2tvpp_hash_ip crc (cur_bytes b) inner = Some (fc_hash c)"
proof -
  have "flow_ip4 crc csum_valid lm b (cur_bytes b) fastpath True 14 False = Some c"
  proof -
    obtain r where r: "flow_ethernet (cur_bytes b) = Some r" using flow_ethernet_defined by blast
    with assms(1,2) obtain type p tagged where e: "flow_ethernet (cur_bytes b) = Some (Some (type, p, tagged))"
      by (cases r) (auto simp: l2tvpp_flow_classify_def classified_def)
    have "rd16 (cur_bytes b) 12 = Some ETHERNET_TYPE_IP4" using classify_fast [OF assms(1,2)] by simp
    then have "type = ETHERNET_TYPE_IP4" "p = 14" "tagged = False"
      using e by (auto simp: flow_ethernet_def ETHERNET_TYPE_IP4_def ETHERNET_TYPE_VLAN_def split: if_splits)
    with assms(1) e show ?thesis by (simp add: l2tvpp_flow_classify_def)
  qed
  then obtain fast udp flags tid sid off where
    p: "l2tvpp_parse_hdr (drop (udp + 8) (cur_bytes b)) (length (cur_bytes b) - (udp + 8)) =
      Some (L2TVPP_HDR_DATA flags tid sid off)"
    and l: "flow_l2tp crc b (cur_bytes b) True fast 14 udp (udp + 8) flags off = Some c"
    by (rule flow_ip4_data [OF _ disjI1 [OF assms(2)]])
  have u: "udp + 8 = 42" using flow_l2tp_offset [OF l assms(2)] classify_fast [OF assms(1,2)] by simp
  obtain cur inner where "flow_skip (cur_bytes b) flags (udp + 8 + off) = Some (Some cur)"
    and "flow_ppp (cur_bytes b) cur = Some (Some inner)"
    and "l2tvpp_hash_ip crc (cur_bytes b) inner = Some (fc_hash c)"
    by (rule flow_l2tp_hashed [OF l disjI1 [OF assms(2)]])
  with p show thesis unfolding u by (rule that)
qed

text \<open>Claim C21: (equivalence) classifier and decapsulation agree on the inner packet: when a packet the
  fast path took with a computed hash is later delivered by \<open>l2tvpp-input\<close>, the hash that chose its
  worker is the flow hash of exactly the inner IP packet delivered, whatever optional L2TP fields and
  PPP framing stood in front of it.\<close>

theorem flow_hash_of_delivered_packet:
  assumes "objects_inv bh lm" and "wf_buffer b"
    and "l2tvpp_flow_classify crc csum_valid lm b fastpath True = Some c"
    and "fc_kind c = L2TVPP_FLOW_KIND_FAST" and "fc_hash c = Some h"
    and "l2tvpp_input_packet (inner_ip4_no_checksum lm) (bh_search bh (session_by_key lm))
      (pool_elt (sessions lm)) (fast_buffer c) = Some r"
    and "delivered (ir_next r)"
  shows "l2tvpp_hash_ip crc (cur_bytes (ir_buffer r)) 0 = Some (Some h)"
proof -
  let ?bs = "cur_bytes b"
  note fb = fast_buffer_facts [OF assms(2-4)]
  have len: "b_current_length (fast_buffer c) = length ?bs - 42" using fb(5) assms(2) by simp
  obtain flags tid sid off cur inner where
    p: "l2tvpp_parse_hdr (drop 42 ?bs) (length ?bs - 42) = Some (L2TVPP_HDR_DATA flags tid sid off)"
    and sk: "flow_skip ?bs flags (42 + off) = Some (Some cur)" and pp: "flow_ppp ?bs cur = Some (Some inner)"
    and h: "l2tvpp_hash_ip crc ?bs inner = Some (fc_hash c)"
    by (rule classify_fast_walk [OF assms(3,4)])
  have l42: "42 \<le> length ?bs" using parse_data_length [OF p] by simp
  obtain err where w: "l2tvpp_input_skip (drop 42 ?bs) (length ?bs - 42) flags off = Some (Walk_to (cur - 42) err)"
    and c42: "42 \<le> cur"
    using flow_skip_input_skip [OF l42 sk] by blast
  note room = flow_skip_room [OF sk]
  obtain ppp where ip: "l2tvpp_input_ppp ?bs cur = Some (ppp, inner)" "ppp = PPP_PROTO_IP4 \<or> ppp = PPP_PROTO_IP6"
    by (rule flow_ppp_Some [OF room pp])
  have inner: "cur < inner" "inner \<le> length ?bs"
    using input_ppp_defined [OF room] ip(1) room by (metis le_trans option.inject prod.inject)+
  have split: "?bs = take 42 ?bs @ drop 42 ?bs" "length (take 42 ?bs) = 42" using l42 by simp_all
  have ip': "l2tvpp_input_ppp (drop 42 ?bs) (cur - 42) = Some (ppp, inner - 42)"
  proof -
    have "l2tvpp_input_ppp ?bs cur =
        map_option (\<lambda>(p, c). (p, 42 + c)) (l2tvpp_input_ppp (drop 42 ?bs) (cur - 42))"
      using input_ppp_shift [of "take 42 ?bs" "drop 42 ?bs" "cur - 42"] c42
      by (simp only: split(1) [symmetric] split(2)) simp
    with ip(1) show ?thesis by auto
  qed
  have "ir_buffer r = (vlib_buffer_advance (fast_buffer c) (int (inner - 42)))\<lparr>b_rx := b_rx (ir_buffer r), b_tx := - 1\<rparr>"
    using assms(6,7) p w ip' ip(2)
    by (auto simp: l2tvpp_input_packet_def fb(2) len result_simps delivered_def bind_eq_Some_conv
        split: option.splits if_splits)
  then have "cur_bytes (ir_buffer r) = cur_bytes (vlib_buffer_advance (fast_buffer c) (int (inner - 42)))"
    by (metis cur_bytes_updates(1,2))
  also have "\<dots> = drop inner ?bs"
    using cur_bytes_advance(1) [OF fb(1), of "inner - 42"] len inner c42 by (simp add: fb(2))
  finally show ?thesis using hash_ip_drop [OF inner(2), of crc] h assms(5) by simp
qed

theorem flow_hash_of_delivered_packet_witness:
  "\<exists>c r. l2tvpp_flow_classify (\<lambda>k. 7 :: u32) (\<lambda>h. True) ex_main (ex_buffer (ex_eth_frame PPP_PROTO_IP4)) True True = Some c
    \<and> node_packet alist_bihash ex_main (fast_buffer c) = Some r
    \<and> l2tvpp_hash_ip (\<lambda>k. 7 :: u32) (cur_bytes (ir_buffer r)) 0 = Some (Some 7)"
proof -
  obtain c where c: "l2tvpp_flow_classify (\<lambda>k. 7 :: u32) (\<lambda>h. True) ex_main (ex_buffer (ex_eth_frame PPP_PROTO_IP4))
      True True = Some c" "fc_kind c = L2TVPP_FLOW_KIND_FAST" "fc_hash c = Some 7"
    using ex_fast_class by blast
  define h where "h = \<lparr>rh_length = None, rh_priority = False, rh_tid = 100, rh_sid = 1000, rh_seq = None,
    rh_offset = None\<rparr>"
  note fb = fast_buffer_facts [OF ex_buffer_simps(1) c(1,2)]
  have "cur_bytes (fast_buffer c) = rfc_encode h @ ppp_encode False False PPP_PROTO_IP4 @ ex_ip_inner"
    using fb(2) by (simp add: ex_eth_frame_def h_def rfc_encode_def rfc_fixed_def rfc_optional_def
        rfc_flags_def ppp_encode_def put16_def)
  then obtain r where r: "node_packet alist_bihash ex_main (fast_buffer c) = Some r" "delivered (ir_next r)"
    using packet_rfc [OF ex_main_inv fb(1), of h ex_ip_inner False False PPP_PROTO_IP4 0 ex_session]
    by (auto simp: h_def rfc_offset_ok_def ex_ip_inner_def ex_session_live ex_session_def result_simps
        input_next_def delivered_def)
  show ?thesis
    using flow_hash_of_delivered_packet [OF ex_main_inv ex_buffer_simps(1) c r] c(1) r(1) by blast
qed

text \<open>PPP control traffic leaves the fast path when there is more than one worker:
  a tunnel packet whose PPP protocol is neither IPv4 nor IPv6 (LCP, for example) is classified for the
  fast path when no hash is wanted, but is not when one is; it then takes the \<open>ethernet-input\<close> path,
  hashed by its outer addresses.\<close>

theorem non_ip_ppp_leaves_fast_path:
  assumes "l2tvpp_flow_classify crc csum_valid lm b fastpath False = Some c1"
    and "fc_kind c1 = L2TVPP_FLOW_KIND_FAST"
    and "l2tvpp_parse_hdr (drop 42 (cur_bytes b)) (length (cur_bytes b) - 42) =
      Some (L2TVPP_HDR_DATA flags tid sid off)"
    and "flow_skip (cur_bytes b) flags (42 + off) = Some (Some cur)"
    and "flow_ppp (cur_bytes b) cur = Some None"
  shows "\<exists>c2. l2tvpp_flow_classify crc csum_valid lm b fastpath True = Some c2
    \<and> fc_kind c2 \<noteq> L2TVPP_FLOW_KIND_FAST"
proof -
  obtain c2 where c2: "l2tvpp_flow_classify crc csum_valid lm b fastpath True = Some c2"
    using classify_defined by blast
  moreover have "fc_kind c2 \<noteq> L2TVPP_FLOW_KIND_FAST"
  proof
    assume "fc_kind c2 = L2TVPP_FLOW_KIND_FAST"
    then show False
      by (rule classify_fast_walk [OF c2]) (use assms(3-5) in auto)
  qed
  ultimately show ?thesis by blast
qed

theorem non_ip_ppp_leaves_fast_path_witness:
  "\<exists>c1 c2. l2tvpp_flow_classify (\<lambda>k. 7 :: u32) (\<lambda>h. True) ex_main (ex_buffer (ex_eth_frame 0xc021)) True False = Some c1
    \<and> fc_kind c1 = L2TVPP_FLOW_KIND_FAST
    \<and> l2tvpp_flow_classify (\<lambda>k. 7 :: u32) (\<lambda>h. True) ex_main (ex_buffer (ex_eth_frame 0xc021)) True True = Some c2
    \<and> fc_kind c2 \<noteq> L2TVPP_FLOW_KIND_FAST"
proof -
  let ?b = "ex_buffer (ex_eth_frame 0xc021)"
  obtain c1 where c1: "l2tvpp_flow_classify (\<lambda>k. 7 :: u32) (\<lambda>h. True) ex_main ?b True False = Some c1"
    "fc_kind c1 = L2TVPP_FLOW_KIND_FAST"
    by (simp add: ex_frame_classify flow_l2tp_def)
  have "l2tvpp_parse_hdr (drop 42 (cur_bytes ?b)) (length (cur_bytes ?b) - 42) =
      Some (L2TVPP_HDR_DATA 2 100 1000 6)"
    "flow_skip (cur_bytes ?b) 2 (42 + 6) = Some (Some 48)" "flow_ppp (cur_bytes ?b) 48 = Some None"
    by (simp add: ex_frame_bytes ex_frame_parse, simp add: flow_skip_def ex_frame_bytes hdr_consts,
        simp add: flow_ppp_def ex_eth_frame_def ex_ip_inner_def put16_def rd16_def rd8_def be16_def
          PPP_PROTO_IP4_def PPP_PROTO_IP6_def)
  from non_ip_ppp_leaves_fast_path [OF c1 this] c1 show ?thesis by blast
qed

end
