(* ===== verification/Flow_Dispatch.thy ===== *)
theory Flow_Dispatch
  imports Flow_Properties "HOL-Library.Multiset"
begin

text \<open>
  The node level of \<open>l2tvpp-flow-handoff\<close>: the worker chosen for a packet, the three output sets of
  a frame against a specification without the loop, and what enabling an interface sets up.  The order
  of flows is in \<open>Upstream\<close>.
\<close>

section \<open>The worker of a packet\<close>

definition workers_ok :: "l2tvpp_flow_handoff_if \<Rightarrow> bool" where
  "workers_ok ifd \<longleftrightarrow> length (fi_workers ifd) < 2 ^ 32"

lemma unat_flow_nw [simp]: "workers_ok ifd \<Longrightarrow> unat (flow_nw ifd) = length (fi_workers ifd)"
  by (simp add: workers_ok_def flow_nw_def unat_of_nat)

lemma and_pow2_mod:
  assumes "pow2_ok is_pow2" and "is_pow2 n" and "n \<noteq> 0"
  shows "hash AND (n - 1) = hash mod (n :: u32)"
proof -
  obtain k where k: "k < 32" "n = push_bit k 1"
    using assms unfolding pow2_ok_def by blast
  then have "hash AND (n - 1) = take_bit k hash"
    by (simp add: take_bit_eq_mask mask_eq_exp_minus_1)
  also have "\<dots> = hash mod n"
    using k by (simp add: take_bit_eq_mod)
  finally show ?thesis .
qed

lemma vec_elt_mod:
  assumes "workers_ok ifd" and "fi_workers ifd \<noteq> []"
  shows "vec_elt (fi_workers ifd) (x mod flow_nw ifd) =
    Some (fi_workers ifd ! (unat x mod length (fi_workers ifd)))"
proof -
  have "unat (x mod flow_nw ifd) = unat x mod length (fi_workers ifd)"
    using assms(1) by (simp add: unat_mod)
  then show ?thesis using assms(2) by (simp add: vec_elt_def)
qed

text \<open>The choice of worker, on every branch.\<close>

lemma flow_thread_eq:
  assumes "workers_ok ifd" and "pow2_ok is_pow2"
  shows "flow_thread is_pow2 ifd this_thread kind hash = Some
    (if kind = L2TVPP_FLOW_KIND_LOCAL \<or> fi_workers ifd = [] then (ucast this_thread, ifd)
     else if fi_spray ifd
     then (fi_workers ifd ! (unat (fi_rr ifd) mod length (fi_workers ifd)), ifd\<lparr>fi_rr := fi_rr ifd + 1\<rparr>)
     else (fi_workers ifd ! (unat hash mod length (fi_workers ifd)), ifd))"
proof (cases "kind = L2TVPP_FLOW_KIND_LOCAL \<or> fi_workers ifd = []")
  case True
  then show ?thesis by (auto simp: flow_thread_def Let_def flow_nw_def)
next
  case False
  then have ne: "fi_workers ifd \<noteq> []" by simp
  then have nz: "flow_nw ifd \<noteq> 0"
    using unat_flow_nw [OF assms(1)] by (metis length_0_conv unsigned_0)
  have idx: "(if is_pow2 (flow_nw ifd) then hash AND (flow_nw ifd - 1) else hash mod flow_nw ifd) =
      hash mod flow_nw ifd"
    using and_pow2_mod [OF assms(2) _ nz] by simp
  have one: "length (fi_workers ifd) = 1" if "flow_nw ifd = 1"
    using unat_flow_nw [OF assms(1)] that by simp
  have w0: "vec_elt (fi_workers ifd) 0 = Some (fi_workers ifd ! 0)"
    using ne by (simp add: vec_elt_def)
  show ?thesis
    unfolding flow_thread_def Let_def idx vec_elt_mod [OF assms(1) ne] w0
    using False nz one by simp
qed

text \<open>Which worker handles a packet: one that is not hashable, or on an
  interface without workers, stays on the receiving thread; otherwise it goes to worker number (hash
  modulo the number of workers) of the configured list, whether the code masks (power-of-two lists) or
  divides, and in spray mode to the next worker in turn, the cursor advancing by one.  The index is
  always inside the list.\<close>

theorem flow_worker_selection:
  assumes "length (fi_workers ifd) < 2 ^ 32" and "pow2_ok is_pow2"
  shows "\<exists>w ifd'. flow_thread is_pow2 ifd this_thread kind hash = Some (w, ifd')
    \<and> (if kind = L2TVPP_FLOW_KIND_LOCAL \<or> fi_workers ifd = [] then w = ucast this_thread \<and> ifd' = ifd
       else w \<in> set (fi_workers ifd)
         \<and> (if fi_spray ifd then w = fi_workers ifd ! (unat (fi_rr ifd) mod length (fi_workers ifd))
              \<and> ifd' = ifd\<lparr>fi_rr := fi_rr ifd + 1\<rparr>
            else w = fi_workers ifd ! (unat hash mod length (fi_workers ifd)) \<and> ifd' = ifd))"
  using flow_thread_eq [of ifd is_pow2 this_thread kind hash] assms by (auto simp: workers_ok_def)

theorem flow_worker_selection_witness:
  "\<exists>w ifd'. flow_thread is_pow2_ref \<lparr>fi_workers = [1, 2, 3], fi_rr = 0, fi_enabled = True, fi_fastpath = True,
      fi_spray = False\<rparr> 0 L2TVPP_FLOW_KIND_INNER 7 = Some (w, ifd') \<and> w = 2"
  using flow_worker_selection [OF _ pow2_ref_ok, of "\<lparr>fi_workers = [1, 2, 3], fi_rr = 0, fi_enabled = True,
      fi_fastpath = True, fi_spray = False\<rparr>" 0 L2TVPP_FLOW_KIND_INNER 7]
  by auto

section \<open>Frames\<close>

definition ifs_ok :: "l2tvpp_flow_handoff_if list \<Rightarrow> vlib_buffer list \<Rightarrow> bool" where
  "ifs_ok ifs frame \<longleftrightarrow> (\<forall>ifd \<in> set ifs. workers_ok ifd) \<and> (\<forall>b \<in> set frame. unat (b_rx b) < length ifs)"

text \<open>
  Specification of a frame without the loop.  The class of a packet depends on the mode of its
  interface only (\<open>flow_class_of\<close>); in spray mode its worker depends on how many packets of the same
  interface that leave by a worker came before it in the frame (\<open>flow_turn\<close>, \<open>pre\<close> being those packets),
  otherwise on its hash (\<open>flow_worker\<close>).  \<open>flow_outs\<close> lists class and worker packet by packet, and
  \<open>flow_cursors\<close> the interfaces once \<open>pre\<close> has gone through.
\<close>

definition flow_ifd :: "l2tvpp_flow_handoff_main \<Rightarrow> vlib_buffer \<Rightarrow> l2tvpp_flow_handoff_if" where
  "flow_ifd fm b = fm_if_data fm ! unat (b_rx b)"

definition flow_class_of ::
  "(bytes \<Rightarrow> 'v) \<Rightarrow> (bytes \<Rightarrow> bool) \<Rightarrow> 'h l2tvpp_main \<Rightarrow> l2tvpp_flow_handoff_main \<Rightarrow> vlib_buffer \<Rightarrow> 'v flow_class" where
  "flow_class_of crc csum_valid lm fm b =
     the (l2tvpp_flow_classify crc csum_valid lm b (fi_fastpath (flow_ifd fm b)) (flow_want_hash (flow_ifd fm b)))"

lemma flow_class_of_eq:
  "l2tvpp_flow_classify crc csum_valid lm b (fi_fastpath (flow_ifd fm b)) (flow_want_hash (flow_ifd fm b)) =
     Some (flow_class_of crc csum_valid lm fm b)"
  using classify_defined [of crc csum_valid lm b "fi_fastpath (flow_ifd fm b)" "flow_want_hash (flow_ifd fm b)"]
  by (auto simp: flow_class_of_def)

definition flow_turn :: "(vlib_buffer \<Rightarrow> 'v flow_class) \<Rightarrow> vlib_buffer list \<Rightarrow> nat \<Rightarrow> nat" where
  "flow_turn cls pre i = length (filter (\<lambda>b. unat (b_rx b) = i \<and> fc_kind (cls b) \<noteq> L2TVPP_FLOW_KIND_LOCAL) pre)"

definition flow_worker ::
  "(vlib_buffer \<Rightarrow> u32 flow_class) \<Rightarrow> l2tvpp_flow_handoff_main \<Rightarrow> u32 \<Rightarrow> vlib_buffer list \<Rightarrow> vlib_buffer \<Rightarrow> u16" where
  "flow_worker cls fm this_thread pre b =
     (let ifd = flow_ifd fm b; ws = fi_workers ifd in
      if fc_kind (cls b) = L2TVPP_FLOW_KIND_LOCAL \<or> ws = [] then ucast this_thread
      else if fi_spray ifd
      then ws ! (unat (fi_rr ifd + of_nat (flow_turn cls pre (unat (b_rx b)))) mod length ws)
      else ws ! (unat (case fc_hash (cls b) of Some h \<Rightarrow> h | None \<Rightarrow> 0) mod length ws))"

fun flow_outs ::
  "(vlib_buffer \<Rightarrow> u32 flow_class) \<Rightarrow> l2tvpp_flow_handoff_main \<Rightarrow> u32 \<Rightarrow> vlib_buffer list \<Rightarrow> vlib_buffer list
     \<Rightarrow> (u32 flow_class \<times> u16) list" where
  "flow_outs cls fm this_thread pre [] = []"
| "flow_outs cls fm this_thread pre (b # bs) =
     (cls b, flow_worker cls fm this_thread pre b) # flow_outs cls fm this_thread (pre @ [b]) bs"

lemma flow_outs_append:
  "flow_outs cls fm this_thread pre (xs @ ys) =
     flow_outs cls fm this_thread pre xs @ flow_outs cls fm this_thread (pre @ xs) ys"
  by (induction xs arbitrary: pre) auto

lemma flow_outs_classes: "map fst (flow_outs cls fm this_thread pre frame) = map cls frame"
  by (induction frame arbitrary: pre) auto

definition flow_cursors ::
  "(vlib_buffer \<Rightarrow> 'v flow_class) \<Rightarrow> l2tvpp_flow_handoff_main \<Rightarrow> vlib_buffer list \<Rightarrow> l2tvpp_flow_handoff_if list" where
  "flow_cursors cls fm pre =
     map (\<lambda>i. let ifd = fm_if_data fm ! i in
            if fi_spray ifd \<and> fi_workers ifd \<noteq> [] then ifd\<lparr>fi_rr := fi_rr ifd + of_nat (flow_turn cls pre i)\<rparr> else ifd)
       [0..<length (fm_if_data fm)]"

lemma length_flow_cursors [simp]: "length (flow_cursors cls fm pre) = length (fm_if_data fm)"
  by (simp add: flow_cursors_def)

lemma flow_cursors_Nil [simp]: "flow_cursors cls fm [] = fm_if_data fm"
  by (intro nth_equalityI) (simp_all add: flow_cursors_def Let_def flow_turn_def)

lemma flow_cursors_nth:
  assumes "i < length (fm_if_data fm)"
  shows "fi_workers (flow_cursors cls fm pre ! i) = fi_workers (fm_if_data fm ! i)"
    and "fi_spray (flow_cursors cls fm pre ! i) = fi_spray (fm_if_data fm ! i)"
    and "fi_fastpath (flow_cursors cls fm pre ! i) = fi_fastpath (fm_if_data fm ! i)"
    and "flow_want_hash (flow_cursors cls fm pre ! i) = flow_want_hash (fm_if_data fm ! i)"
    and "fi_rr (flow_cursors cls fm pre ! i) = (if fi_spray (fm_if_data fm ! i) \<and> fi_workers (fm_if_data fm ! i) \<noteq> []
       then fi_rr (fm_if_data fm ! i) + of_nat (flow_turn cls pre i) else fi_rr (fm_if_data fm ! i))"
  using assms by (simp_all add: flow_cursors_def Let_def flow_want_hash_def flow_nw_def)

lemma flow_cursors_step:
  assumes "unat (b_rx b) < length (fm_if_data fm)"
    and "ifd' = (if fc_kind (cls b) \<noteq> L2TVPP_FLOW_KIND_LOCAL \<and> fi_workers (flow_ifd fm b) \<noteq> [] \<and> fi_spray (flow_ifd fm b)
      then (flow_cursors cls fm pre ! unat (b_rx b))\<lparr>fi_rr := fi_rr (flow_cursors cls fm pre ! unat (b_rx b)) + 1\<rparr>
      else flow_cursors cls fm pre ! unat (b_rx b))"
  shows "(flow_cursors cls fm pre)[unat (b_rx b) := ifd'] = flow_cursors cls fm (pre @ [b])"
proof (rule nth_equalityI)
  fix i
  assume "i < length ((flow_cursors cls fm pre)[unat (b_rx b) := ifd'])"
  then have i: "i < length (fm_if_data fm)" by simp
  have turn: "flow_turn cls (pre @ [b]) i = flow_turn cls pre i +
      (if unat (b_rx b) = i \<and> fc_kind (cls b) \<noteq> L2TVPP_FLOW_KIND_LOCAL then 1 else 0)" for i
    by (simp add: flow_turn_def)
  show "(flow_cursors cls fm pre)[unat (b_rx b) := ifd'] ! i = flow_cursors cls fm (pre @ [b]) ! i"
  proof (cases "i = unat (b_rx b)")
    case True
    then show ?thesis
      using i by (auto simp: assms(2) turn flow_cursors_def Let_def flow_ifd_def add_ac)
  next
    case False
    then show ?thesis using i by (simp add: flow_cursors_def Let_def turn)
  qed
qed simp

lemma flow_packet_spec:
  fixes crc csum_valid lm fm
  defines "cls \<equiv> flow_class_of crc csum_valid lm fm"
  assumes "ifs_ok (fm_if_data fm) (b # bs)" and "pow2_ok is_pow2" and "fl_if_data st = flow_cursors cls fm pre"
  shows "\<exists>tr. flow_packet crc csum_valid is_pow2 lm this_thread b st =
    Some ((flow_sort this_thread (flow_worker cls fm this_thread pre b) (cls b)
      (st\<lparr>fl_if_data := flow_cursors cls fm (pre @ [b])\<rparr>))\<lparr>fl_traces := tr\<rparr>)"
proof -
  let ?i = "unat (b_rx b)" and ?c = "cls b"
  let ?ifd = "flow_cursors cls fm pre ! ?i"
  let ?h = "case fc_hash ?c of Some h \<Rightarrow> h | None \<Rightarrow> 0"
  have i: "?i < length (fm_if_data fm)" and ok: "workers_ok (flow_ifd fm b)"
    using assms(2) by (simp_all add: ifs_ok_def flow_ifd_def)
  note cur = flow_cursors_nth [OF i, of cls pre, folded flow_ifd_def]
  have ok': "workers_ok ?ifd" using ok by (simp add: workers_ok_def cur)
  have c: "l2tvpp_flow_classify crc csum_valid lm b (fi_fastpath ?ifd) (flow_want_hash ?ifd) = Some ?c"
    using flow_class_of_eq [of crc csum_valid lm b fm] unfolding cur by (simp only: cls_def)
  define ifd' where "ifd' = (if fc_kind ?c \<noteq> L2TVPP_FLOW_KIND_LOCAL \<and> fi_workers (flow_ifd fm b) \<noteq> []
      \<and> fi_spray (flow_ifd fm b) then ?ifd\<lparr>fi_rr := fi_rr ?ifd + 1\<rparr> else ?ifd)"
  have t: "flow_thread is_pow2 ?ifd this_thread (fc_kind ?c) ?h = Some (flow_worker cls fm this_thread pre b, ifd')"
    unfolding flow_thread_eq [OF ok' assms(3)] by (auto simp: flow_worker_def Let_def cur ifd'_def)
  have elt: "vec_elt (fl_if_data st) (b_rx b) = Some ?ifd" using i by (simp add: assms(4) vec_elt_def)
  have st: "st\<lparr>fl_if_data := (fl_if_data st)[?i := ifd']\<rparr> = st\<lparr>fl_if_data := flow_cursors cls fm (pre @ [b])\<rparr>"
    using flow_cursors_step [OF i ifd'_def] by (simp add: assms(4))
  let ?st = "flow_sort this_thread (flow_worker cls fm this_thread pre b) ?c
    (st\<lparr>fl_if_data := flow_cursors cls fm (pre @ [b])\<rparr>)"
  show ?thesis
  proof (cases "VLIB_BUFFER_IS_TRACED \<in> b_flags (fc_buffer ?c)")
    case True
    then show ?thesis using c t elt st by (auto simp: flow_packet_def Let_def)
  next
    case False
    then have "flow_packet crc csum_valid is_pow2 lm this_thread b st = Some ?st"
      using c t elt st by (simp add: flow_packet_def Let_def)
    then show ?thesis by (intro exI [of _ "fl_traces ?st"]) simp
  qed
qed

text \<open>Where a packet goes, from its class and worker.\<close>

definition is_fast :: "'v flow_class \<Rightarrow> bool" where
  "is_fast c \<longleftrightarrow> fc_kind c = L2TVPP_FLOW_KIND_FAST"

definition flow_out_buffer :: "'v flow_class \<Rightarrow> vlib_buffer" where
  "flow_out_buffer c = (if is_fast c then fast_buffer c else fc_buffer c)"

definition flow_out_next :: "'v flow_class \<Rightarrow> l2tvpp_flow_handoff_next" where
  "flow_out_next c = (if is_fast c then L2TVPP_FLOW_HANDOFF_NEXT_L2TVPP_INPUT else L2TVPP_FLOW_HANDOFF_NEXT_ETHERNET_INPUT)"

definition outs_local :: "u32 \<Rightarrow> (u32 flow_class \<times> u16) list \<Rightarrow> (vlib_buffer \<times> l2tvpp_flow_handoff_next) list" where
  "outs_local this_thread outs =
     map (\<lambda>(c, w). (flow_out_buffer c, flow_out_next c)) (filter (\<lambda>(c, w). ucast w = this_thread) outs)"

definition outs_eth :: "u32 \<Rightarrow> (u32 flow_class \<times> u16) list \<Rightarrow> (vlib_buffer \<times> u16) list" where
  "outs_eth this_thread outs =
     map (\<lambda>(c, w). (fc_buffer c, w)) (filter (\<lambda>(c, w). \<not> is_fast c \<and> ucast w \<noteq> this_thread) outs)"

definition outs_l2tp :: "u32 \<Rightarrow> (u32 flow_class \<times> u16) list \<Rightarrow> (vlib_buffer \<times> u16) list" where
  "outs_l2tp this_thread outs =
     map (\<lambda>(c, w). (fast_buffer c, w)) (filter (\<lambda>(c, w). is_fast c \<and> ucast w \<noteq> this_thread) outs)"

lemmas outs_defs = outs_local_def outs_eth_def outs_l2tp_def

lemma outs_append:
  "outs_local this_thread (xs @ ys) = outs_local this_thread xs @ outs_local this_thread ys"
  "outs_eth this_thread (xs @ ys) = outs_eth this_thread xs @ outs_eth this_thread ys"
  "outs_l2tp this_thread (xs @ ys) = outs_l2tp this_thread xs @ outs_l2tp this_thread ys"
  by (simp_all add: outs_defs)

text \<open>The three lists partition the packets.\<close>

lemma outs_partition:
  "mset (map fst (outs_local this_thread outs)) + mset (map fst (outs_eth this_thread outs))
     + mset (map fst (outs_l2tp this_thread outs)) = mset (map (flow_out_buffer \<circ> fst) outs)"
  by (induction outs) (auto simp: outs_defs flow_out_buffer_def)

lemma outs_length:
  "length (outs_local this_thread outs) + length (outs_eth this_thread outs) + length (outs_l2tp this_thread outs)
     = length outs"
  using arg_cong [OF outs_partition [of this_thread outs], of size] by simp

lemma flow_loop_spec:
  fixes crc csum_valid lm fm
  defines "cls \<equiv> flow_class_of crc csum_valid lm fm"
  assumes "pow2_ok is_pow2" and "ifs_ok (fm_if_data fm) frame" and "fl_if_data st = flow_cursors cls fm pre"
  shows "\<exists>st'. flow_loop_run crc csum_valid is_pow2 lm this_thread frame st = Some st'
    \<and> fl_if_data st' = flow_cursors cls fm (pre @ frame)
    \<and> fl_local st' = fl_local st @ outs_local this_thread (flow_outs cls fm this_thread pre frame)
    \<and> fl_eth st' = fl_eth st @ outs_eth this_thread (flow_outs cls fm this_thread pre frame)
    \<and> fl_l2tp st' = fl_l2tp st @ outs_l2tp this_thread (flow_outs cls fm this_thread pre frame)"
  using assms(3,4)
proof (induction frame arbitrary: st pre)
  case (Cons b frame)
  let ?w = "flow_worker cls fm this_thread pre b"
  obtain tr where p: "flow_packet crc csum_valid is_pow2 lm this_thread b st =
      Some ((flow_sort this_thread ?w (cls b) (st\<lparr>fl_if_data := flow_cursors cls fm (pre @ [b])\<rparr>))\<lparr>fl_traces := tr\<rparr>)"
    using flow_packet_spec [OF Cons.prems(1) assms(2) Cons.prems(2) [unfolded cls_def]] unfolding cls_def by blast
  define st1 where "st1 = (flow_sort this_thread ?w (cls b) (st\<lparr>fl_if_data := flow_cursors cls fm (pre @ [b])\<rparr>))\<lparr>fl_traces := tr\<rparr>"
  have "ifs_ok (fm_if_data fm) frame" "fl_if_data st1 = flow_cursors cls fm (pre @ [b])"
    using Cons.prems by (simp_all add: ifs_ok_def st1_def flow_sort_def Let_def)
  from Cons.IH [OF this] obtain st' where
    st': "flow_loop_run crc csum_valid is_pow2 lm this_thread frame st1 = Some st'"
    "fl_if_data st' = flow_cursors cls fm (pre @ b # frame)"
    "fl_local st' = fl_local st1 @ outs_local this_thread (flow_outs cls fm this_thread (pre @ [b]) frame)"
    "fl_eth st' = fl_eth st1 @ outs_eth this_thread (flow_outs cls fm this_thread (pre @ [b]) frame)"
    "fl_l2tp st' = fl_l2tp st1 @ outs_l2tp this_thread (flow_outs cls fm this_thread (pre @ [b]) frame)"
    by auto
  have "flow_loop_run crc csum_valid is_pow2 lm this_thread (b # frame) st = Some st'"
    using p st' by (simp add: st1_def)
  moreover have "fl_local st1 = fl_local st @ outs_local this_thread [(cls b, ?w)]"
    "fl_eth st1 = fl_eth st @ outs_eth this_thread [(cls b, ?w)]"
    "fl_l2tp st1 = fl_l2tp st @ outs_l2tp this_thread [(cls b, ?w)]"
    by (simp_all add: st1_def flow_sort_def Let_def outs_defs is_fast_def fast_buffer_def flow_out_buffer_def flow_out_next_def)
  ultimately show ?case
    using st' outs_append [of this_thread "[(cls b, ?w)]" "flow_outs cls fm this_thread (pre @ [b]) frame"]
    by simp
qed (simp add: outs_defs)

text \<open>The node, from the specification of its frame.\<close>

lemma flow_node_spec:
  fixes crc csum_valid lm fm this_thread frame
  defines "outs \<equiv> flow_outs (flow_class_of crc csum_valid lm fm) fm this_thread [] frame"
  assumes "pow2_ok is_pow2" and "ifs_ok (fm_if_data fm) frame"
  obtains eff where "l2tvpp_flow_handoff_node crc csum_valid is_pow2 enqueue lm fm this_thread frame = Some eff"
    and "fe_main eff = fm\<lparr>fm_if_data := flow_cursors (flow_class_of crc csum_valid lm fm) fm frame\<rparr>"
    and "fe_local eff = outs_local this_thread outs"
    and "fe_eth eff = (fm_frame_queue_index fm, outs_eth this_thread outs)"
    and "fe_l2tp eff = (handoff_frame_queue_index lm, outs_l2tp this_thread outs)"
    and "fe_congestion eff = flow_congestion enqueue (fm_frame_queue_index fm) (outs_eth this_thread outs)
      @ flow_congestion enqueue (handoff_frame_queue_index lm) (outs_l2tp this_thread outs)"
proof -
  let ?st = "\<lparr>fl_if_data = fm_if_data fm, fl_local = [], fl_eth = [], fl_l2tp = [], fl_traces = []\<rparr>"
  obtain st' where st': "flow_loop_run crc csum_valid is_pow2 lm this_thread frame ?st = Some st'"
    "fl_if_data st' = flow_cursors (flow_class_of crc csum_valid lm fm) fm frame"
    "fl_local st' = outs_local this_thread outs" "fl_eth st' = outs_eth this_thread outs"
    "fl_l2tp st' = outs_l2tp this_thread outs"
    using flow_loop_spec [OF assms(2,3), of ?st crc csum_valid lm "[]" this_thread] unfolding outs_def by auto
  let ?eff = "\<lparr>fe_main = fm\<lparr>fm_if_data := fl_if_data st'\<rparr>, fe_local = fl_local st',
    fe_eth = (fm_frame_queue_index fm, fl_eth st'), fe_l2tp = (handoff_frame_queue_index lm, fl_l2tp st'),
    fe_congestion = flow_congestion enqueue (fm_frame_queue_index fm) (fl_eth st')
      @ flow_congestion enqueue (handoff_frame_queue_index lm) (fl_l2tp st'), fe_traces = fl_traces st'\<rparr>"
  have "l2tvpp_flow_handoff_node crc csum_valid is_pow2 enqueue lm fm this_thread frame = Some ?eff"
    by (simp add: l2tvpp_flow_handoff_node_def st'(1))
  from that [OF this] show thesis by (simp add: st')
qed

text \<open>What a queue did not take is counted.\<close>

lemma flow_congestion_sum:
  assumes "length xs < 2 ^ 32" and "unat (enqueue q xs) \<le> length xs"
  shows "sum_list (map unat (flow_congestion enqueue q xs)) + (if xs = [] then 0 else unat (enqueue q xs)) = length xs"
proof -
  have n: "unat (of_nat (length xs) :: u32) = length xs" using assms(1) by (simp add: unat_of_nat)
  have "unat ((of_nat (length xs) :: u32) - enqueue q xs) = length xs - unat (enqueue q xs)"
    using assms(2) n by (subst unat_sub) (simp_all add: word_le_nat_alt)
  moreover have "(of_nat (length xs) :: u32) = 0 \<longleftrightarrow> xs = []" using n by (auto simp: word_unat_eq_iff)
  ultimately show ?thesis using assms(2) n by (auto simp: flow_congestion_def Let_def word_less_nat_alt)
qed

text \<open>Every buffer is in one output, and taken or counted.\<close>

lemma outs_account:
  fixes cls :: "vlib_buffer \<Rightarrow> u32 flow_class" and fm this_thread frame
  defines "outs \<equiv> flow_outs cls fm this_thread [] frame"
  assumes "length frame < 2 ^ 32" and "\<forall>q xs. unat (enqueue q xs) \<le> length xs"
  shows "mset (map fst (outs_local this_thread outs)) + mset (map fst (outs_eth this_thread outs))
      + mset (map fst (outs_l2tp this_thread outs)) = mset (map (flow_out_buffer \<circ> cls) frame)"
    and "length (outs_local this_thread outs) + length (outs_eth this_thread outs) + length (outs_l2tp this_thread outs)
      = length frame"
    and "sum_list (map unat (flow_congestion enqueue q (outs_eth this_thread outs)))
      + (if outs_eth this_thread outs = [] then 0 else unat (enqueue q (outs_eth this_thread outs)))
      = length (outs_eth this_thread outs)"
    and "sum_list (map unat (flow_congestion enqueue q (outs_l2tp this_thread outs)))
      + (if outs_l2tp this_thread outs = [] then 0 else unat (enqueue q (outs_l2tp this_thread outs)))
      = length (outs_l2tp this_thread outs)"
proof -
  have "map (flow_out_buffer \<circ> fst) outs = map (flow_out_buffer \<circ> cls) frame"
    using flow_outs_classes [of cls fm this_thread "[]" frame] unfolding outs_def by (metis map_map)
  then show "mset (map fst (outs_local this_thread outs)) + mset (map fst (outs_eth this_thread outs))
      + mset (map fst (outs_l2tp this_thread outs)) = mset (map (flow_out_buffer \<circ> cls) frame)"
    using outs_partition [of this_thread outs] by simp
  have "length outs = length frame"
    using flow_outs_classes [of cls fm this_thread "[]" frame] unfolding outs_def by (metis length_map)
  then show len: "length (outs_local this_thread outs) + length (outs_eth this_thread outs)
      + length (outs_l2tp this_thread outs) = length frame"
    using outs_length [of this_thread outs] by simp
  then have "length (outs_eth this_thread outs) < 2 ^ 32" "length (outs_l2tp this_thread outs) < 2 ^ 32"
    using assms(2) by simp_all
  from this [THEN flow_congestion_sum [where enqueue = enqueue], OF assms(3) [rule_format]]
  show "sum_list (map unat (flow_congestion enqueue q (outs_eth this_thread outs)))
      + (if outs_eth this_thread outs = [] then 0 else unat (enqueue q (outs_eth this_thread outs)))
      = length (outs_eth this_thread outs)"
    "sum_list (map unat (flow_congestion enqueue q (outs_l2tp this_thread outs)))
      + (if outs_l2tp this_thread outs = [] then 0 else unat (enqueue q (outs_l2tp this_thread outs)))
      = length (outs_l2tp this_thread outs)" by blast+
qed

text \<open>Claim C35: (equivalence) the flow-handoff node sorts a frame exactly: on any frame received on
  configured interfaces it runs to the end, and its three outputs are the packets of the frame, each once
  and in arrival order, chosen packet by packet without the loop: those whose worker is the receiving
  thread stay (fast-path packets towards \<open>l2tvpp-input\<close>, the others towards \<open>ethernet-input\<close>), the other
  fast-path packets go through the session queue and all others through the flow queue, with the
  worker chosen for each: by hash, or in spray mode the next in turn among the packets of its interface.
  The round-robin cursors end where that count says, and the packets the two queues take and the
  congestion counts add up to the packets sent to them.\<close>

theorem flow_handoff_sorts_frame:
  assumes "\<forall>ifd \<in> set (fm_if_data fm). length (fi_workers ifd) < 2 ^ 32"
    and "\<forall>b \<in> set frame. unat (b_rx b) < length (fm_if_data fm)" and "pow2_ok is_pow2"
    and "length frame < 2 ^ 32" and "\<forall>q xs. unat (enqueue q xs) \<le> length xs"
  shows "\<exists>eff. l2tvpp_flow_handoff_node crc csum_valid is_pow2 enqueue lm fm this_thread frame = Some eff
    \<and> (let cls = flow_class_of crc csum_valid lm fm; outs = flow_outs cls fm this_thread [] frame;
           taken = (\<lambda>q xs. if xs = [] then 0 else unat (enqueue q xs))
       in fe_local eff = outs_local this_thread outs
        \<and> fe_eth eff = (fm_frame_queue_index fm, outs_eth this_thread outs)
        \<and> fe_l2tp eff = (handoff_frame_queue_index lm, outs_l2tp this_thread outs)
        \<and> mset (map fst (fe_local eff)) + mset (map fst (snd (fe_eth eff))) + mset (map fst (snd (fe_l2tp eff)))
            = mset (map (flow_out_buffer \<circ> cls) frame)
        \<and> fe_main eff = fm\<lparr>fm_if_data := flow_cursors cls fm frame\<rparr>
        \<and> taken (fst (fe_eth eff)) (snd (fe_eth eff)) + taken (fst (fe_l2tp eff)) (snd (fe_l2tp eff))
            + sum_list (map unat (fe_congestion eff)) = length (snd (fe_eth eff)) + length (snd (fe_l2tp eff)))"
proof -
  let ?cls = "flow_class_of crc csum_valid lm fm"
  let ?outs = "flow_outs ?cls fm this_thread [] frame"
  have ok: "ifs_ok (fm_if_data fm) frame" using assms(1,2) by (simp add: ifs_ok_def workers_ok_def)
  obtain eff where eff: "l2tvpp_flow_handoff_node crc csum_valid is_pow2 enqueue lm fm this_thread frame = Some eff"
    "fe_main eff = fm\<lparr>fm_if_data := flow_cursors ?cls fm frame\<rparr>" "fe_local eff = outs_local this_thread ?outs"
    "fe_eth eff = (fm_frame_queue_index fm, outs_eth this_thread ?outs)"
    "fe_l2tp eff = (handoff_frame_queue_index lm, outs_l2tp this_thread ?outs)"
    "fe_congestion eff = flow_congestion enqueue (fm_frame_queue_index fm) (outs_eth this_thread ?outs)
      @ flow_congestion enqueue (handoff_frame_queue_index lm) (outs_l2tp this_thread ?outs)"
    by (rule flow_node_spec [OF assms(3) ok])
  note acc = outs_account [OF assms(4,5), where cls = ?cls and fm = fm and this_thread = this_thread]
  show ?thesis
    using eff acc(1) acc(3) [of "fm_frame_queue_index fm"] acc(4) [of "handoff_frame_queue_index lm"]
    by (intro exI [of _ eff]) (auto simp: Let_def)
qed

definition ex_flow_if :: l2tvpp_flow_handoff_if where
  "ex_flow_if = \<lparr>fi_workers = [1, 2, 3], fi_rr = 0, fi_enabled = True, fi_fastpath = True, fi_spray = False\<rparr>"

definition ex_flow_main :: l2tvpp_flow_handoff_main where
  "ex_flow_main = \<lparr>fm_if_data = [flow_if_zero, ex_flow_if], fm_frame_queue_index = 3\<rparr>"

lemma ex_buffer_rx [simp]: "b_rx (ex_buffer p) = 1"
  by (simp add: ex_buffer_def)

theorem flow_handoff_sorts_frame_witness:
  "\<exists>eff. l2tvpp_flow_handoff_node (\<lambda>k. 7) (\<lambda>h. True) is_pow2_ref (\<lambda>q xs. 0) ex_main ex_flow_main 1
      [ex_buffer (ex_eth_frame PPP_PROTO_IP4), ex_buffer []] = Some eff
    \<and> mset (map fst (fe_local eff)) + mset (map fst (snd (fe_eth eff))) + mset (map fst (snd (fe_l2tp eff)))
        = mset (map (flow_out_buffer \<circ> flow_class_of (\<lambda>k. 7 :: u32) (\<lambda>h. True) ex_main ex_flow_main)
            [ex_buffer (ex_eth_frame PPP_PROTO_IP4), ex_buffer []])"
proof -
  let ?frame = "[ex_buffer (ex_eth_frame PPP_PROTO_IP4), ex_buffer []]"
  have "\<forall>ifd \<in> set (fm_if_data ex_flow_main). length (fi_workers ifd) < 2 ^ 32"
    "\<forall>b \<in> set ?frame. unat (b_rx b) < length (fm_if_data ex_flow_main)"
    by (simp_all add: ex_flow_main_def ex_flow_if_def flow_if_zero_def)
  from flow_handoff_sorts_frame [OF this pow2_ref_ok, of "\<lambda>q xs. 0" "\<lambda>k. 7" "\<lambda>h. True" ex_main 1]
  show ?thesis unfolding Let_def by (simp del: flow_outs.simps list.map mset.simps) blast
qed

section \<open>Enabling an interface\<close>

text \<open>A worker bitmap lists worker numbers in ascending order.\<close>

lemma sorted_last_bound:
  assumes "sorted bm" and "bm \<noteq> []" and "last bm < n" and "w \<in> set bm"
  shows "w < (n :: nat)"
proof -
  have "w \<le> last bm"
    using assms(1,2,4) by (metis last_in_set last_conv_nth length_greater_0_conv in_set_conv_nth
        sorted_nth_mono One_nat_def Suc_diff_1 less_Suc_eq_le diff_less zero_less_one)
  with assms(3) show ?thesis by simp
qed

lemma set_handoff_off: "\<exists>lm' calls. l2tvpp_set_handoff lm 0 = (RV_OK, lm', calls) \<and> \<not> handoff_enabled lm'
    \<and> local_ip4s lm' = local_ip4s lm"
  by (auto simp: l2tvpp_set_handoff_def Let_def)

text \<open>Enabling flow handoff on a hardware interface with a list of workers sets
  up exactly that: the interface's worker threads are the numbers given plus one, every one of them an
  existing worker thread, fast path and spray as requested, the round-robin cursor at zero; no other
  interface changes; and session handoff is off afterwards, so that no packet is handed off twice.\<close>

theorem flow_handoff_enable_sets_up:
  assumes "sorted bm" and "bm \<noteq> []" and "last bm < unat n_workers" and "unat n_workers < 65536"
    and "hardware sw" and "fm_frame_queue_index fm \<noteq> - 1"
  shows "\<exists>lm' fm' calls ifd.
    l2tvpp_flow_handoff_enable_disable is_pow2 max_log2 hardware n_workers n_threads fqi lm fm sw (Some bm)
        fastpath spray True = Some (RV_OK, lm', fm', calls)
    \<and> \<not> handoff_enabled lm'
    \<and> vec_elt (fm_if_data fm') sw = Some ifd \<and> fi_enabled ifd \<and> fi_fastpath ifd = fastpath
    \<and> fi_spray ifd = spray \<and> fi_rr ifd = 0 \<and> map unat (fi_workers ifd) = map Suc bm
    \<and> (\<forall>w \<in> set (fi_workers ifd). 1 \<le> unat w \<and> unat w \<le> unat n_workers)
    \<and> (\<forall>i. i \<noteq> sw \<and> unat i < length (fm_if_data fm) \<longrightarrow> vec_elt (fm_if_data fm') i = vec_elt (fm_if_data fm) i)"
proof -
  define i where "i = unat sw"
  define ifs where "ifs = fm_if_data fm @ replicate (Suc i - length (fm_if_data fm)) flow_if_zero"
  define ifd where "ifd = \<lparr>fi_workers = map (\<lambda>w. of_nat (1 + w)) bm, fi_rr = 0, fi_enabled = True,
    fi_fastpath = fastpath, fi_spray = spray\<rparr>"
  obtain lm' calls where h: "l2tvpp_set_handoff lm 0 = (RV_OK, lm', calls)" "\<not> handoff_enabled lm'"
    using set_handoff_off by blast
  have bnd: "w < unat n_workers" if "w \<in> set bm" for w
    by (rule sorted_last_bound [OF assms(1-3) that])
  have w: "unat (of_nat (1 + w) :: u16) = Suc w" if "w \<in> set bm" for w
    using bnd [OF that] assms(4) by (simp only: unat_of_nat) simp
  have "\<exists>cs. l2tvpp_flow_handoff_enable_disable is_pow2 max_log2 hardware n_workers n_threads fqi lm fm sw
      (Some bm) fastpath spray True = Some (RV_OK, lm', fm\<lparr>fm_if_data := ifs[i := ifd]\<rparr>, cs)"
    using assms(2,3,5,6) h(1)
    by (simp add: l2tvpp_flow_handoff_enable_disable_def flow_queue_init_def bitmap_last_set_def Let_def
        ifs_def ifd_def i_def)
  moreover have "vec_elt (ifs[i := ifd]) sw = Some ifd"
    by (simp add: vec_elt_def ifs_def i_def)
  moreover have "map unat (fi_workers ifd) = map Suc bm"
    using w by (simp add: ifd_def comp_def)
  moreover have "1 \<le> unat x \<and> unat x \<le> unat n_workers" if "x \<in> set (fi_workers ifd)" for x
    using that w bnd by (fastforce simp: ifd_def)
  moreover have "vec_elt (ifs[i := ifd]) j = vec_elt (fm_if_data fm) j"
    if "j \<noteq> sw" "unat j < length (fm_if_data fm)" for j
    using that by (auto simp: vec_elt_def ifs_def i_def nth_append word_unat_eq_iff)
  moreover have "fi_enabled ifd" "fi_fastpath ifd = fastpath" "fi_spray ifd = spray" "fi_rr ifd = 0"
    by (simp_all add: ifd_def)
  ultimately show ?thesis using h(2) by fastforce
qed

theorem flow_handoff_enable_sets_up_witness:
  "\<exists>lm' fm' calls ifd.
    l2tvpp_flow_handoff_enable_disable is_pow2_ref max_log2_ref (\<lambda>i. i < 4) 4 5 3 ex_main ex_flow_main 2
        (Some [0, 2]) True False True = Some (RV_OK, lm', fm', calls)
    \<and> vec_elt (fm_if_data fm') 2 = Some ifd \<and> map unat (fi_workers ifd) = [1, 3]"
  using flow_handoff_enable_sets_up [where bm = "[0, 2]" and n_workers = 4 and hardware = "\<lambda>i. i < 4"
      and sw = 2 and fm = ex_flow_main and ?is_pow2.0 = is_pow2_ref and ?max_log2.0 = max_log2_ref
      and n_threads = 5 and fqi = 3 and lm = ex_main and fastpath = True and spray = False]
  by (fastforce simp: ex_flow_main_def)

end
