(* ===== verification/Api_Handlers.thy ===== *)
theory Api_Handlers
  imports Objects_Properties
begin

text \<open>
  \<^verbatim>\<open>src/plugin/l2tvpp/l2tvpp_api.c\<close>: the handlers of the binary API.  A message carries its
  integers in network order; the handlers swap them, call the operations of \<open>L2tvpp_Objects\<close> and
  reply.  \<open>ip_address_decode\<close>, \<open>ip_address_encode\<close> and \<open>ip_prefix_decode\<close> are VPP's and
  parameters, as are the registration of the client (without one no reply is sent) and the interface
  counters.  The return code of a reply is the \<open>api_rv\<close> itself.
\<close>

section \<open>Byte order\<close>

text \<open>\<open>clib_net_to_host\<close> and \<open>clib_host_to_net\<close> on the little-endian host.\<close>

definition swap16 :: "u16 \<Rightarrow> u16" where
  "swap16 x = le16 (ucast (drop_bit 8 x)) (ucast x)"

definition swap32 :: "u32 \<Rightarrow> u32" where
  "swap32 x = le32 (ucast (drop_bit 24 x)) (ucast (drop_bit 16 x)) (ucast (drop_bit 8 x)) (ucast x)"

definition swap64 :: "u64 \<Rightarrow> u64" where
  "swap64 x = push_bit 32 (ucast (swap32 (ucast x))) OR ucast (swap32 (ucast (drop_bit 32 x)))"

section \<open>Messages\<close>

record 'a msg_tunnel_add_del =
  mt_client_index :: u32
  mt_context :: u32
  mt_is_add :: bool
  mt_local_ip :: 'a
  mt_peer_ip :: 'a
  mt_local_port :: u16
  mt_peer_port :: u16
  mt_local_tid :: u16
  mt_peer_tid :: u16

record msg_session_add_del =
  ms_client_index :: u32
  ms_context :: u32
  ms_is_add :: bool
  ms_tunnel_index :: u32
  ms_local_sid :: u16
  ms_peer_sid :: u16
  ms_acfc :: u8
  ms_pfc :: u8

record 'p msg_route_add_del =
  mr_client_index :: u32
  mr_context :: u32
  mr_is_add :: bool
  mr_prefix :: 'p
  mr_sw_if_index :: u32

record msg_set_handoff =
  mh_client_index :: u32
  mh_context :: u32
  mh_enable :: u8

record msg_dump =
  md_client_index :: u32
  md_context :: u32
  md_index :: u32

text \<open>A reply, with the index it carries where there is one.\<close>

record api_reply =
  ar_context :: u32
  ar_retval :: api_rv
  ar_index :: "u32 option"

record 'a tunnel_details =
  td_context :: u32
  td_tunnel_index :: u32
  td_local_ip :: 'a
  td_peer_ip :: 'a
  td_local_port :: u16
  td_peer_port :: u16
  td_local_tid :: u16
  td_peer_tid :: u16
  td_n_sessions :: u32

record session_details =
  sd_context :: u32
  sd_sw_if_index :: u32
  sd_tunnel_index :: u32
  sd_local_sid :: u16
  sd_peer_sid :: u16
  sd_acfc :: u8
  sd_pfc :: u8
  sd_rx_packets :: u64
  sd_rx_bytes :: u64
  sd_tx_packets :: u64
  sd_tx_bytes :: u64

section \<open>Handlers\<close>

definition api_reply_to :: "(u32 \<Rightarrow> bool) \<Rightarrow> u32 \<Rightarrow> u32 \<Rightarrow> api_rv \<Rightarrow> u32 option \<Rightarrow> api_reply option" where
  "api_reply_to registered client context rv index =
     (if registered client then Some \<lparr>ar_context = context, ar_retval = rv, ar_index = index\<rparr> else None)"

definition vl_api_l2tvpp_tunnel_add_del_t_handler ::
  "('a \<Rightarrow> ip46_address) \<Rightarrow> (u32 \<Rightarrow> bool) \<Rightarrow> u32 \<Rightarrow> 'h l2tvpp_main \<Rightarrow> 'a msg_tunnel_add_del
     \<Rightarrow> 'h l2tvpp_main \<times> api_reply option" where
  "vl_api_l2tvpp_tunnel_add_del_t_handler decode registered slot lm mp =
     (let (rv, lm', out) = l2tvpp_tunnel_add_del slot lm (decode (mt_local_ip mp)) (decode (mt_peer_ip mp))
            (swap16 (mt_local_port mp)) (swap16 (mt_peer_port mp))
            (swap16 (mt_local_tid mp)) (swap16 (mt_peer_tid mp)) (mt_is_add mp);
          tunnel_index = (case out of None \<Rightarrow> - 1 | Some i \<Rightarrow> i)
      in (lm', api_reply_to registered (mt_client_index mp) (mt_context mp) rv (Some (swap32 tunnel_index))))"

definition vl_api_l2tvpp_session_add_del_t_handler ::
  "'h bihash_8_8 \<Rightarrow> (u32 \<Rightarrow> bool) \<Rightarrow> u32 \<Rightarrow> u32 \<Rightarrow> u32 \<Rightarrow> 'h l2tvpp_main \<Rightarrow> msg_session_add_del
     \<Rightarrow> ('h l2tvpp_main \<times> api_reply option \<times> vpp_call list) option" where
  "vl_api_l2tvpp_session_add_del_t_handler bh registered slot hw sw lm mp = do {
     (rv, lm', out, calls) \<leftarrow> l2tvpp_session_add_del bh slot hw sw lm (swap32 (ms_tunnel_index mp))
        (swap16 (ms_local_sid mp)) (swap16 (ms_peer_sid mp)) (ms_acfc mp) (ms_pfc mp) (ms_is_add mp);
     let sw_if_index = (case out of None \<Rightarrow> - 1 | Some i \<Rightarrow> i);
     Some (lm', api_reply_to registered (ms_client_index mp) (ms_context mp) rv (Some (swap32 sw_if_index)), calls) }"

definition vl_api_l2tvpp_route_add_del_t_handler ::
  "'h bihash_8_8 \<Rightarrow> ('p \<Rightarrow> fib_prefix) \<Rightarrow> (u32 \<Rightarrow> bool) \<Rightarrow> u32 \<Rightarrow> u32 \<Rightarrow> 'h l2tvpp_main \<Rightarrow> 'p msg_route_add_del
     \<Rightarrow> 'h l2tvpp_main \<times> api_reply option \<times> vpp_call list" where
  "vl_api_l2tvpp_route_add_del_t_handler bh prefix_decode registered fib_index ai lm mp =
     (let (rv, lm', calls) = l2tvpp_route_add_del bh fib_index ai lm (prefix_decode (mr_prefix mp))
            (swap32 (mr_sw_if_index mp)) (mr_is_add mp)
      in (lm', api_reply_to registered (mr_client_index mp) (mr_context mp) rv None, calls))"

definition vl_api_l2tvpp_set_handoff_t_handler ::
  "(u32 \<Rightarrow> bool) \<Rightarrow> 'h l2tvpp_main \<Rightarrow> msg_set_handoff \<Rightarrow> 'h l2tvpp_main \<times> api_reply option \<times> vpp_call list" where
  "vl_api_l2tvpp_set_handoff_t_handler registered lm mp =
     (let (rv, lm', calls) = l2tvpp_set_handoff lm (mh_enable mp)
      in (lm', api_reply_to registered (mh_client_index mp) (mh_context mp) rv None, calls))"

definition send_tunnel_details :: "(ip46_address \<Rightarrow> 'a) \<Rightarrow> u32 \<Rightarrow> u32 \<Rightarrow> l2tvpp_tunnel \<Rightarrow> 'a tunnel_details" where
  "send_tunnel_details encode context i t =
     \<lparr>td_context = context, td_tunnel_index = swap32 i, td_local_ip = encode (t_local_ip t),
      td_peer_ip = encode (t_peer_ip t), td_local_port = swap16 (t_local_port t),
      td_peer_port = swap16 (t_peer_port t), td_local_tid = swap16 (t_local_tid t),
      td_peer_tid = swap16 (t_peer_tid t), td_n_sessions = swap32 (t_n_sessions t)\<rparr>"

definition vl_api_l2tvpp_tunnel_dump_t_handler ::
  "(ip46_address \<Rightarrow> 'a) \<Rightarrow> (u32 \<Rightarrow> bool) \<Rightarrow> 'h l2tvpp_main \<Rightarrow> msg_dump \<Rightarrow> 'a tunnel_details list" where
  "vl_api_l2tvpp_tunnel_dump_t_handler encode registered lm mp =
     (let ti = swap32 (md_index mp) in
      if \<not> registered (md_client_index mp) then []
      else if ti = - 1 then
        map (\<lambda>i. send_tunnel_details encode (md_context mp) i (the (pool_elt (tunnels lm) i)))
          (pool_indices (tunnels lm))
      else (case pool_elt (tunnels lm) ti of
          None \<Rightarrow> []
        | Some t \<Rightarrow> [send_tunnel_details encode (md_context mp) ti t]))"

text \<open>\<open>rx\<close> and \<open>tx\<close> are the combined counters of an interface (packets, bytes).\<close>

definition send_session_details ::
  "(u32 \<Rightarrow> u64 \<times> u64) \<Rightarrow> (u32 \<Rightarrow> u64 \<times> u64) \<Rightarrow> u32 \<Rightarrow> l2tvpp_session \<Rightarrow> session_details" where
  "send_session_details rx tx context s =
     \<lparr>sd_context = context, sd_sw_if_index = swap32 (s_sw_if_index s),
      sd_tunnel_index = swap32 (s_tunnel_index s), sd_local_sid = swap16 (s_local_sid s),
      sd_peer_sid = swap16 (s_peer_sid s), sd_acfc = s_acfc s, sd_pfc = s_pfc s,
      sd_rx_packets = swap64 (fst (rx (s_sw_if_index s))), sd_rx_bytes = swap64 (snd (rx (s_sw_if_index s))),
      sd_tx_packets = swap64 (fst (tx (s_sw_if_index s))), sd_tx_bytes = swap64 (snd (tx (s_sw_if_index s)))\<rparr>"

definition vl_api_l2tvpp_session_dump_t_handler ::
  "(u32 \<Rightarrow> u64 \<times> u64) \<Rightarrow> (u32 \<Rightarrow> u64 \<times> u64) \<Rightarrow> (u32 \<Rightarrow> bool) \<Rightarrow> 'h l2tvpp_main \<Rightarrow> msg_dump
     \<Rightarrow> session_details list" where
  "vl_api_l2tvpp_session_dump_t_handler rx tx registered lm mp =
     (let sw_if_index = swap32 (md_index mp) in
      if \<not> registered (md_client_index mp) then []
      else map (send_session_details rx tx (md_context mp))
        (filter (\<lambda>s. sw_if_index = - 1 \<or> s_sw_if_index s = sw_if_index)
          (map (\<lambda>i. the (pool_elt (sessions lm) i)) (pool_indices (sessions lm)))))"

section \<open>Byte order round trips\<close>

lemma swap16_swap16 [simp]: "swap16 (swap16 x) = x"
  by (rule bit_word_eqI) (auto simp: swap16_def le16_def be16_def bit_simps)

lemma swap32_bytes:
  "ucast (drop_bit 24 (swap32 x)) = (ucast x :: u8)" "ucast (drop_bit 16 (swap32 x)) = (ucast (drop_bit 8 x) :: u8)"
  "ucast (drop_bit 8 (swap32 x)) = (ucast (drop_bit 16 x) :: u8)" "ucast (swap32 x) = (ucast (drop_bit 24 x) :: u8)"
  by (auto intro!: bit_word_eqI simp: swap32_def le32_def bit_simps)

lemma swap32_swap32 [simp]: "swap32 (swap32 x) = x"
  unfolding swap32_def [of "swap32 x"] swap32_bytes by (rule le32_st32)

lemma swap32_minus_1 [simp]: "swap32 (- 1) = - 1"
  by (rule bit_word_eqI) (auto simp: swap32_def le32_def bit_simps)

lemma swap32_eq_iff: "swap32 x = swap32 y \<longleftrightarrow> x = y"
  by (metis swap32_swap32)

section \<open>Dumps\<close>

lemma distinct_pool_indices:
  assumes "length p \<le> 2 ^ 32"
  shows "distinct (pool_indices p)"
proof -
  have "inj_on (of_nat :: nat \<Rightarrow> u32) (set [0..<length p])"
  proof (rule inj_onI)
    fix i j
    assume "i \<in> set [0..<length p]" "j \<in> set [0..<length p]" "(of_nat i :: u32) = of_nat j"
    then have "i < 2 ^ 32" "j < 2 ^ 32" "unat (of_nat i :: u32) = unat (of_nat j :: u32)" using assms by simp_all
    then show "i = j" by (simp add: unat_of_nat)
  qed
  then show ?thesis by (simp add: pool_indices_def distinct_map)
qed

lemma filter_unique: "distinct xs \<Longrightarrow> x \<in> set xs \<Longrightarrow> (\<And>y. y \<in> set xs \<Longrightarrow> P y \<longleftrightarrow> y = x) \<Longrightarrow> filter P xs = [x]"
proof (induction xs)
  case (Cons z xs)
  show ?case
  proof (cases "z = x")
    case True
    then have "filter P xs = []" using Cons.prems by (auto simp: filter_empty_conv)
    then show ?thesis using True Cons.prems by simp
  next
    case False
    then show ?thesis using Cons by auto
  qed
qed simp

text \<open>The sessions a dump visits for an interface.\<close>

lemma dump_one:
  assumes "length p \<le> 2 ^ 32" and "pool_elt p si = Some s" and "s_sw_if_index s = sw"
    and "\<And>i s'. pool_elt p i = Some s' \<Longrightarrow> s_sw_if_index s' = sw \<Longrightarrow> i = si"
  shows "filter (\<lambda>s. s_sw_if_index s = sw) (map (\<lambda>i. the (pool_elt p i)) (pool_indices p)) = [s]"
proof -
  have "filter (\<lambda>i. s_sw_if_index (the (pool_elt p i)) = sw) (pool_indices p) = [si]"
  proof (rule filter_unique [OF distinct_pool_indices [OF assms(1)]])
    show "si \<in> set (pool_indices p)" using assms(2) by (simp add: set_pool_indices)
    fix i
    assume "i \<in> set (pool_indices p)"
    then obtain s' where "pool_elt p i = Some s'" by (auto simp: set_pool_indices)
    then show "s_sw_if_index (the (pool_elt p i)) = sw \<longleftrightarrow> i = si"
      using assms(2,3) assms(4) [of i s'] by auto
  qed
  then show ?thesis using assms(2) by (simp add: filter_map comp_def)
qed

lemma dump_none:
  assumes "\<And>i s. pool_elt p i = Some s \<Longrightarrow> s_sw_if_index s \<noteq> sw"
  shows "filter (\<lambda>s. s_sw_if_index s = sw) (map (\<lambda>i. the (pool_elt p i)) (pool_indices p)) = []"
  using assms by (auto simp: filter_empty_conv set_pool_indices)

lemma length_pool_set: "length p \<le> 2 ^ 32 \<Longrightarrow> length (pool_set p i x) \<le> 2 ^ 32"
  using unat_u32_less [of i] by (simp add: pool_set_def)

text \<open>Claim C25: (roundtrip) a session created through the API reads back through the API: after a
  successful add, a dump of the interface index in the reply returns exactly one record, with the
  tunnel index, session ids and compression flags of the request in the byte order they were sent; a
  delete with the same request then succeeds, after which the dump of that interface is empty.\<close>

theorem api_session_lifecycle:
  assumes inv: "objects_inv bh lm" and slot: "pool_is_free_index (sessions lm) slot" "slot \<noteq> - 1"
    and sw: "session_of_sw_if_index lm sw = None" "sw \<noteq> - 1" and len: "length (sessions lm) \<le> 2 ^ 32"
    and reg: "registered (ms_client_index mp)" and add: "ms_is_add mp"
    and res: "vl_api_l2tvpp_session_add_del_t_handler bh registered slot hw sw lm mp = Some (lm1, Some rep, calls)"
    and ok: "ar_retval rep = RV_OK"
  shows "\<exists>idx d lm2 rep2 calls2. ar_index rep = Some idx
    \<and> vl_api_l2tvpp_session_dump_t_handler rx tx registered lm1
        \<lparr>md_client_index = ms_client_index mp, md_context = ctx, md_index = idx\<rparr> = [d]
    \<and> sd_sw_if_index d = idx \<and> sd_tunnel_index d = ms_tunnel_index mp \<and> sd_local_sid d = ms_local_sid mp
    \<and> sd_peer_sid d = ms_peer_sid mp \<and> sd_acfc d = ms_acfc mp \<and> sd_pfc d = ms_pfc mp
    \<and> vl_api_l2tvpp_session_add_del_t_handler bh registered slot' hw' sw' lm1 (mp\<lparr>ms_is_add := False\<rparr>) =
        Some (lm2, Some rep2, calls2) \<and> ar_retval rep2 = RV_OK
    \<and> vl_api_l2tvpp_session_dump_t_handler rx tx registered lm2
        \<lparr>md_client_index = ms_client_index mp, md_context = ctx, md_index = idx\<rparr> = []"
proof -
  let ?ti = "swap32 (ms_tunnel_index mp)" and ?sid = "swap16 (ms_local_sid mp)"
  have "\<exists>out. l2tvpp_session_add_del bh slot hw sw lm ?ti ?sid (swap16 (ms_peer_sid mp)) (ms_acfc mp) (ms_pfc mp) True =
      Some (RV_OK, lm1, out, calls) \<and> ar_index rep = Some (swap32 (case out of None \<Rightarrow> - 1 | Some i \<Rightarrow> i))"
    using res ok reg add
    by (auto simp: vl_api_l2tvpp_session_add_del_t_handler_def bind_eq_Some_conv api_reply_to_def)
  then obtain out t where t: "pool_elt (tunnels lm) ?ti = Some t"
    and k: "bh_search bh (session_by_key lm) (l2tvpp_session_key (t_local_tid t) ?sid) = None"
    and a: "l2tvpp_session_add bh slot hw sw lm ?ti t ?sid (swap16 (ms_peer_sid mp)) (ms_acfc mp) (ms_pfc mp) = (lm1, calls)"
    and idx: "ar_index rep = Some (swap32 sw)"
    by (auto simp: l2tvpp_session_add_del_def Let_def split: option.splits prod.splits)
  define s where "s = \<lparr>s_tunnel_index = ?ti, s_local_tid = t_local_tid t, s_local_sid = ?sid,
    s_peer_sid = swap16 (ms_peer_sid mp), s_acfc = ms_acfc mp, s_pfc = ms_pfc mp, s_sw_if_index = sw,
    s_hw_if_index = hw, s_encap_ip_csum0 = 0\<rparr>"
  have free: "pool_elt (sessions lm) slot = None" using slot(1) by (simp add: pool_is_free_index_def)
  have lm1: "sessions lm1 = pool_set (sessions lm) slot s"
    using a by (auto simp: l2tvpp_session_add_def Let_def s_def)
  have other: "s_sw_if_index s' \<noteq> sw" if "pool_elt (sessions lm) i = Some s'" for i s'
    using inv that sw(1) by (auto simp: objects_inv_def inv_sessions_def session_ok_def)
  have d1: "filter (\<lambda>s. s_sw_if_index s = sw) (map (\<lambda>i. the (pool_elt (sessions lm1) i)) (pool_indices (sessions lm1))) = [s]"
    unfolding lm1
  proof (rule dump_one [of _ slot])
    show "length (pool_set (sessions lm) slot s) \<le> 2 ^ 32" by (rule length_pool_set [OF len])
  qed (auto simp: pool_elt_set s_def dest: other split: if_splits)
  have "bihash_ok bh" using inv by (simp add: objects_inv_def)
  then obtain lm2 calls2 where
    del: "l2tvpp_session_add_del bh slot' hw' sw' lm1 ?ti ?sid (swap16 (ms_peer_sid mp)) (ms_acfc mp) (ms_pfc mp) False =
      Some (RV_OK, lm2, None, calls2)" and same: "same_objects bh lm lm2"
    by (rule session_add_then_del [OF _ t free slot(2) sw(1) k a])
  have d2: "filter (\<lambda>s. s_sw_if_index s = sw) (map (\<lambda>i. the (pool_elt (sessions lm2) i)) (pool_indices (sessions lm2))) = []"
    using same other by (intro dump_none) (simp add: same_objects_def)
  show ?thesis
    using idx del reg sw(2)
    by (simp add: vl_api_l2tvpp_session_dump_t_handler_def d1 d2 send_session_details_def s_def
        vl_api_l2tvpp_session_add_del_t_handler_def api_reply_to_def)
qed

definition ex_session_msg :: msg_session_add_del where
  "ex_session_msg = \<lparr>ms_client_index = 1, ms_context = 7, ms_is_add = True, ms_tunnel_index = swap32 0,
     ms_local_sid = swap16 1000, ms_peer_sid = swap16 2000, ms_acfc = 0, ms_pfc = 0\<rparr>"

theorem api_session_lifecycle_witness:
  "\<exists>lm1 rep calls d. vl_api_l2tvpp_session_add_del_t_handler alist_bihash (\<lambda>c. c = 1) 0 7 5 ex_tunnel ex_session_msg =
      Some (lm1, Some rep, calls)
    \<and> vl_api_l2tvpp_session_dump_t_handler (\<lambda>i. (0, 0)) (\<lambda>i. (0, 0)) (\<lambda>c. c = 1) lm1
        \<lparr>md_client_index = 1, md_context = 8, md_index = swap32 5\<rparr> = [d]
    \<and> sd_local_sid d = swap16 1000"
proof -
  obtain calls where "l2tvpp_session_add_del alist_bihash 0 7 5 ex_tunnel 0 1000 2000 0 0 True =
      Some (RV_OK, ex_main, Some 5, calls)"
    using ex_main_eq(1) by blast
  then have h: "vl_api_l2tvpp_session_add_del_t_handler alist_bihash (\<lambda>c. c = 1) 0 7 5 ex_tunnel ex_session_msg =
      Some (ex_main, Some \<lparr>ar_context = 7, ar_retval = RV_OK, ar_index = Some (swap32 5)\<rparr>, calls)"
    by (simp add: vl_api_l2tvpp_session_add_del_t_handler_def ex_session_msg_def api_reply_to_def)
  have "pool_is_free_index (sessions ex_tunnel) 0" "(0 :: u32) \<noteq> - 1"
    "session_of_sw_if_index ex_tunnel 5 = None" "(5 :: u32) \<noteq> - 1" "length (sessions ex_tunnel) \<le> 2 ^ 32"
    by (simp_all add: pool_is_free_index_def pool_elt_def session_of_sw_if_index_def ex_tunnel_eq)
  note life = api_session_lifecycle [OF ex_tunnel_inv this _ _ h, where rx = "\<lambda>i. (0, 0)" and tx = "\<lambda>i. (0, 0)"
      and ctx = 8 and slot' = 1 and hw' = 1 and sw' = 1]
  have "ms_client_index ex_session_msg = 1" "ms_is_add ex_session_msg" "ms_local_sid ex_session_msg = swap16 1000"
    by (simp_all add: ex_session_msg_def)
  with life h show ?thesis by auto
qed

end
