(* ===== verification/Encap_Fastpath.thy ===== *)
theory Encap_Fastpath
  imports Flow_Handoff
begin

text \<open>
  \<^verbatim>\<open>src/plugin/l2tvpp/encap_fastpath.c\<close>: the node \<open>l2tvpp-encap-fastpath\<close>, which takes plain
  IPv4 packets for a cached subscriber address from the uplink straight to the session's midchain
  adjacency, and the switch that enables it on an interface.
\<close>

section \<open>The node\<close>

datatype l2tvpp_encap_fp_next =
    L2TVPP_ENCAP_FP_NEXT_ETHERNET_INPUT
  | L2TVPP_ENCAP_FP_NEXT_IP4_MIDCHAIN

record l2tvpp_encap_fp_trace =
  et_dst :: u32
  et_adj_index :: u32
  et_hit :: bool

text \<open>\<open>Some None\<close> is the return value 0; otherwise the destination and the bytes of layer 2.\<close>

definition l2tvpp_encap_peek_dst :: "bytes \<Rightarrow> (u32 \<times> nat) option option" where
  "l2tvpp_encap_peek_dst bs =
     (if length bs < 14 then Some None
      else do {
        type \<leftarrow> rd16 bs 12;
        if type = ETHERNET_TYPE_VLAN then Some None
        else if type \<noteq> ETHERNET_TYPE_IP4 then Some None
        else if length bs < 14 + 20 then Some None
        else do {
          vihl \<leftarrow> rd8 bs 14;
          if vihl \<noteq> 0x45 then Some None
          else do {
            frag \<leftarrow> rd16 bs (14 + 6);
            if frag AND 0x1fff \<noteq> 0 \<or> frag AND 0x2000 \<noteq> 0 then Some None
            else do { dst \<leftarrow> ld32 bs (14 + 16); Some (Some (dst, 14)) } } } })"

record encap_fp_result =
  er_buffer :: vlib_buffer
  er_next :: l2tvpp_encap_fp_next
  er_trace :: l2tvpp_encap_fp_trace

definition encap_fp_miss :: "vlib_buffer \<Rightarrow> u32 \<Rightarrow> encap_fp_result" where
  "encap_fp_miss b dst = \<lparr>er_buffer = b, er_next = L2TVPP_ENCAP_FP_NEXT_ETHERNET_INPUT,
     er_trace = \<lparr>et_dst = dst, et_adj_index = - 1, et_hit = False\<rparr>\<rparr>"

definition encap_fp_packet :: "'h bihash_8_8 \<Rightarrow> 'h l2tvpp_main \<Rightarrow> vlib_buffer \<Rightarrow> encap_fp_result option" where
  "encap_fp_packet bh lm b =
     (if \<not> encap_adj_init lm then Some (encap_fp_miss b 0)
      else do {
        r \<leftarrow> l2tvpp_encap_peek_dst (cur_bytes b);
        case r of
          None \<Rightarrow> Some (encap_fp_miss b 0)
        | Some (dst, l2_len) \<Rightarrow>
            (case bh_search bh (encap_adj_by_ip4 lm) (ucast dst) of
               None \<Rightarrow> Some (encap_fp_miss b dst)
             | Some v \<Rightarrow>
                 Some \<lparr>er_buffer = (vlib_buffer_advance b (int l2_len))\<lparr>b_adj_tx := ucast v\<rparr>,
                       er_next = L2TVPP_ENCAP_FP_NEXT_IP4_MIDCHAIN,
                       er_trace = \<lparr>et_dst = dst, et_adj_index = ucast v, et_hit = True\<rparr>\<rparr>) })"

fun encap_fp_loop :: "'h bihash_8_8 \<Rightarrow> 'h l2tvpp_main \<Rightarrow> vlib_buffer list \<Rightarrow> encap_fp_result list option" where
  "encap_fp_loop bh lm [] = Some []"
| "encap_fp_loop bh lm (b # bs) = do {
     r \<leftarrow> encap_fp_packet bh lm b;
     rs \<leftarrow> encap_fp_loop bh lm bs;
     Some (r # rs) }"

record encap_fp_effects =
  ee_out :: "(vlib_buffer \<times> l2tvpp_encap_fp_next) list"
  ee_traces :: "l2tvpp_encap_fp_trace list"

definition l2tvpp_encap_fastpath_node ::
  "'h bihash_8_8 \<Rightarrow> 'h l2tvpp_main \<Rightarrow> vlib_buffer list \<Rightarrow> encap_fp_effects option" where
  "l2tvpp_encap_fastpath_node bh lm frame =
     map_option (\<lambda>rs.
       \<lparr>ee_out = map (\<lambda>r. (er_buffer r, er_next r)) rs,
        ee_traces = map er_trace (filter (\<lambda>r. VLIB_BUFFER_IS_TRACED \<in> b_flags (er_buffer r)) rs)\<rparr>)
       (encap_fp_loop bh lm frame)"

section \<open>The switch\<close>

text \<open>\<open>enabled\<close> is the bitmap as a predicate; \<open>hardware\<close> as in the flow handoff.\<close>

definition l2tvpp_encap_fastpath_enable_disable ::
  "(u32 \<Rightarrow> bool) \<Rightarrow> u32 set \<Rightarrow> u32 \<Rightarrow> u8 \<Rightarrow> api_rv \<times> u32 set \<times> vpp_call list" where
  "l2tvpp_encap_fastpath_enable_disable hardware enabled sw_if_index enable =
     (if \<not> hardware sw_if_index then (VNET_API_ERROR_INVALID_SW_IF_INDEX, enabled, [])
      else
        let e = (enable \<noteq> 0) in
        if (sw_if_index \<in> enabled) = e then (RV_OK, enabled, [])
        else (RV_OK, if e then insert sw_if_index enabled else enabled - {sw_if_index},
              [Vnet_feature_enable_disable ''l2tvpp-encap-fastpath'' sw_if_index e]))"

section \<open>Lemmas\<close>

lemma peek_dst_defined: "\<exists>r. l2tvpp_encap_peek_dst bs = Some r"
  by (auto simp: l2tvpp_encap_peek_dst_def rd_simps)

lemma encap_fp_packet_defined: "\<exists>r. encap_fp_packet bh lm b = Some r"
proof -
  obtain r where r: "l2tvpp_encap_peek_dst (cur_bytes b) = Some r" using peek_dst_defined by blast
  show ?thesis
    by (cases r) (auto simp: encap_fp_packet_def r split: option.split)
qed

text \<open>What makes a packet eligible.\<close>

definition encap_eligible :: "bytes \<Rightarrow> u32 \<Rightarrow> bool" where
  "encap_eligible bs dst \<longleftrightarrow> 34 \<le> length bs \<and> rd16 bs 12 = Some ETHERNET_TYPE_IP4 \<and> rd8 bs 14 = Some 0x45
     \<and> (\<exists>frag. rd16 bs 20 = Some frag \<and> frag AND 0x3fff = 0) \<and> ld32 bs 30 = Some dst"

lemma frag_bits_iff: "frag AND 0x3fff = (0 :: u16) \<longleftrightarrow> frag AND 0x1fff = 0 \<and> frag AND 0x2000 = 0"
proof -
  have eq: "frag AND 0x3fff = (frag AND 0x1fff) OR (frag AND 0x2000)"
    by (simp flip: bit.conj_disj_distrib)
  have "x OR y = 0 \<longleftrightarrow> x = 0 \<and> y = 0" for x y :: u16
    by (auto simp: bit_eq_iff bit_simps)
  then show ?thesis by (simp only: eq)
qed

lemma peek_dst_iff:
  "l2tvpp_encap_peek_dst bs = Some (Some (dst, l2)) \<longleftrightarrow> l2 = 14 \<and> encap_eligible bs dst"
  by (auto simp: l2tvpp_encap_peek_dst_def encap_eligible_def bind_eq_Some_conv frag_bits_iff
      ETHERNET_TYPE_IP4_def ETHERNET_TYPE_VLAN_def split: if_splits)

text \<open>The outcome for one packet: a hit exactly for an eligible packet to a cached address.\<close>

lemma encap_fp_packet_cases:
  obtains (hit) dst v where "encap_adj_init lm" and "encap_eligible (cur_bytes b) dst"
      and "bh_search bh (encap_adj_by_ip4 lm) (ucast dst) = Some v"
      and "encap_fp_packet bh lm b = Some \<lparr>er_buffer = (vlib_buffer_advance b 14)\<lparr>b_adj_tx := ucast v\<rparr>,
        er_next = L2TVPP_ENCAP_FP_NEXT_IP4_MIDCHAIN,
        er_trace = \<lparr>et_dst = dst, et_adj_index = ucast v, et_hit = True\<rparr>\<rparr>"
  | (miss) dst where "encap_fp_packet bh lm b = Some (encap_fp_miss b dst)"
      and "\<And>d v. encap_adj_init lm \<Longrightarrow> encap_eligible (cur_bytes b) d \<Longrightarrow>
        bh_search bh (encap_adj_by_ip4 lm) (ucast d) \<noteq> Some v"
proof -
  obtain r where r: "l2tvpp_encap_peek_dst (cur_bytes b) = Some r" using peek_dst_defined by blast
  have el: "r = Some (d, l2) \<longleftrightarrow> l2 = 14 \<and> encap_eligible (cur_bytes b) d" for d l2
    using peek_dst_iff [of "cur_bytes b" d l2] r by simp
  show thesis
  proof (cases "encap_adj_init lm \<and> r \<noteq> None")
    case False
    have "\<not> encap_eligible (cur_bytes b) d" if "encap_adj_init lm" for d
      using False that el [of d 14] by simp
    moreover have "encap_fp_packet bh lm b = Some (encap_fp_miss b 0)"
      using False by (cases r) (auto simp: encap_fp_packet_def r)
    ultimately show ?thesis by (intro miss [of 0]) blast+
  next
    case True
    then obtain dst l2 where d: "r = Some (dst, l2)" by auto
    note e = el [THEN iffD1, OF d]
    have uniq: "d = dst" if "encap_eligible (cur_bytes b) d" for d
      using e that by (simp add: encap_eligible_def)
    show ?thesis
    proof (cases "bh_search bh (encap_adj_by_ip4 lm) (ucast dst)")
      case None
      then show ?thesis
        using True r d uniq by (intro miss [of dst]) (auto simp: encap_fp_packet_def)
    next
      case (Some v)
      then show ?thesis
        using True r d e by (intro hit [of dst v]) (simp_all add: encap_fp_packet_def)
    qed
  qed
qed

section \<open>The cache follows the routes\<close>

text \<open>The specification of the fast path: the destination of an untagged IPv4 packet without options
  that is not a fragment, and a table from subscriber addresses to adjacencies.\<close>

definition plain_ip4_dst :: "bytes \<Rightarrow> u32 option" where
  "plain_ip4_dst bs =
     (if 34 \<le> length bs \<and> bs ! 12 = 0x08 \<and> bs ! 13 = 0 \<and> bs ! 14 = 0x45
         \<and> bs ! 20 AND 0x3f = 0 \<and> bs ! 21 = 0
      then Some (le32 (bs ! 30) (bs ! 31) (bs ! 32) (bs ! 33)) else None)"

definition encap_fastpath_spec :: "(u32 \<rightharpoonup> u32) \<Rightarrow> vlib_buffer \<Rightarrow> vlib_buffer \<times> l2tvpp_encap_fp_next" where
  "encap_fastpath_spec routes b =
     (case Option.bind (plain_ip4_dst (cur_bytes b)) routes of
        Some ai \<Rightarrow> ((vlib_buffer_advance b 14)\<lparr>b_adj_tx := ai\<rparr>, L2TVPP_ENCAP_FP_NEXT_IP4_MIDCHAIN)
      | None \<Rightarrow> (b, L2TVPP_ENCAP_FP_NEXT_ETHERNET_INPUT))"

text \<open>The table a sequence of route operations describes: the last accepted one on a host route
  decides.\<close>

fun host_routes :: "'h l2tvpp_main \<Rightarrow> (u32 \<rightharpoonup> u32) \<Rightarrow> route_op list \<Rightarrow> (u32 \<rightharpoonup> u32)" where
  "host_routes lm m [] = m"
| "host_routes lm m ((fi, ai, pfx, sw, is_add) # ops) =
     host_routes lm
       (if session_of_sw_if_index lm sw = None \<or> fp_proto pfx \<noteq> FIB_PROTOCOL_IP4 \<or> fp_len pfx \<noteq> 32 then m
        else if is_add then m(fp_addr pfx \<mapsto> ai) else m(fp_addr pfx := None)) ops"

text \<open>The abstraction of the cache.\<close>

definition encap_routes :: "'h bihash_8_8 \<Rightarrow> 'h l2tvpp_main \<Rightarrow> (u32 \<rightharpoonup> u32)" where
  "encap_routes bh lm d =
     (if encap_adj_init lm then map_option ucast (bh_search bh (encap_adj_by_ip4 lm) (ucast d)) else None)"

lemma encap_routes_init: "bihash_ok bh \<Longrightarrow> encap_routes bh (l2tvpp_encap_adj_init bh lm) = encap_routes bh lm"
  by (auto simp: encap_routes_def l2tvpp_encap_adj_init_def bihash_okD(1))

lemma ucast_u32_u64_eq_iff: "(ucast (a :: u32) :: u64) = ucast b \<longleftrightarrow> a = b"
  by (metis ucast_u32_u64_u32)

lemma encap_routes_upd:
  assumes "bihash_ok bh" and "encap_adj_init lm" and "encap_adj_init lm'"
  shows "encap_adj_by_ip4 lm' = fst (bh_add bh (encap_adj_by_ip4 lm) (ucast k) (ucast ai)) \<Longrightarrow>
      encap_routes bh lm' = (encap_routes bh lm)(k \<mapsto> ai)"
    and "encap_adj_by_ip4 lm' = fst (bh_del bh (encap_adj_by_ip4 lm) (ucast k)) \<Longrightarrow>
      encap_routes bh lm' = (encap_routes bh lm)(k := None)"
  using assms by (auto simp: encap_routes_def bihash_okD ucast_u32_u64_eq_iff)

text \<open>One route operation on the concrete state is one update of the abstract table.\<close>

lemma route_refines:
  assumes "bihash_ok bh" and "l2tvpp_route_add_del bh fi ai lm pfx sw is_add = (rv, lm', calls)"
  shows "encap_routes bh lm' = host_routes lm (encap_routes bh lm) [(fi, ai, pfx, sw, is_add)]"
proof (cases "session_of_sw_if_index lm sw = None \<or> fp_proto pfx \<noteq> FIB_PROTOCOL_IP4 \<or> fp_len pfx \<noteq> 32")
  case True
  then show ?thesis
    using assms(2) by (auto simp: l2tvpp_route_add_del_def l2tvpp_encap_adj_add_del_def Let_def split: if_splits)
next
  case False
  define lm1 where "lm1 = l2tvpp_encap_adj_init bh lm"
  have i: "encap_adj_init lm1" "encap_routes bh lm1 = encap_routes bh lm"
    by (simp_all add: lm1_def encap_routes_init [OF assms(1)])
  show ?thesis
  proof (cases is_add)
    case True
    then have "encap_adj_by_ip4 lm' = fst (bh_add bh (encap_adj_by_ip4 lm1) (ucast (fp_addr pfx)) (ucast ai))"
      "encap_adj_init lm'"
      using False assms(2) route_add_host [OF _ assms(1), of lm sw pfx fi ai] by (auto simp: lm1_def)
    with encap_routes_upd(1) [OF assms(1) i(1)] i(2) False True show ?thesis by auto
  next
    case del: False
    show ?thesis
    proof (cases "bh_search bh (encap_adj_by_ip4 lm1) (ucast (fp_addr pfx))")
      case None
      then have "lm' = lm1"
        using assms(2) False del
        by (auto simp: l2tvpp_route_add_del_def l2tvpp_encap_adj_add_del_def Let_def lm1_def)
      moreover have "encap_routes bh lm1 (fp_addr pfx) = None" using None by (simp add: encap_routes_def)
      ultimately show ?thesis using False del i(2) by (auto simp: fun_upd_idem)
    next
      case (Some v)
      then have "encap_adj_by_ip4 lm' = fst (bh_del bh (encap_adj_by_ip4 lm1) (ucast (fp_addr pfx)))"
        "encap_adj_init lm'"
        using assms(2) False del
        by (auto simp: l2tvpp_route_add_del_def l2tvpp_encap_adj_add_del_def Let_def lm1_def)
      with encap_routes_upd(2) [OF assms(1) i(1)] i(2) False del show ?thesis by auto
    qed
  qed
qed

lemma host_routes_cong:
  "session_index_by_sw_if_index lm1 = session_index_by_sw_if_index lm \<Longrightarrow>
     host_routes lm1 m ops = host_routes lm m ops"
proof (induction ops arbitrary: m)
  case (Cons op ops)
  then show ?case by (cases op) (simp add: session_of_cong [of lm1 lm] del: fun_upd_apply)
qed simp

lemma route_ops_refine:
  assumes "bihash_ok bh" and "route_ops bh lm ops = (lm', calls)"
  shows "encap_routes bh lm' = host_routes lm (encap_routes bh lm) ops"
  using assms(2)
proof (induction ops arbitrary: lm calls)
  case (Cons op ops)
  obtain fi ai pfx sw is_add where op: "op = (fi, ai, pfx, sw, is_add)" by (cases op) auto
  obtain rv lm1 c1 where r: "l2tvpp_route_add_del bh fi ai lm pfx sw is_add = (rv, lm1, c1)"
    by (metis surj_pair)
  obtain c2 where "route_ops bh lm1 ops = (lm', c2)"
    using Cons.prems by (auto simp: op r split: prod.splits)
  from Cons.IH [OF this] route_refines [OF assms(1) r] host_routes_cong [of lm1 lm]
    route_frame [OF r]
  show ?case by (simp add: op)
qed simp

section \<open>The node against its specification\<close>

lemma be16_eq_iff: "be16 a b = be16 c d \<longleftrightarrow> a = c \<and> b = d"
proof
  have "ucast (drop_bit 8 (be16 x y)) = x" "ucast (be16 x y) = y" for x y :: u8
    by (auto intro!: bit_word_eqI simp: be16_def bit_simps impossible_bit)
  then show "be16 a b = be16 c d \<Longrightarrow> a = c \<and> b = d" by metis
qed simp

lemma be16_mask_3fff: "be16 a b AND 0x3fff = 0 \<longleftrightarrow> a AND 0x3f = 0 \<and> b = 0"
proof -
  have "be16 a b AND mask 14 = be16 (a AND mask 6) b"
    by (rule bit_word_eqI) (auto simp: be16_def bit_simps dest: bit_imp_le_length)
  then have "be16 a b AND 0x3fff = be16 (a AND 0x3f) b" by (simp add: mask_eq_exp_minus_1)
  moreover have "be16 0 0 = 0" by (simp add: be16_def)
  ultimately show ?thesis using be16_eq_iff [of "a AND 0x3f" b 0 0] by simp
qed

lemma eligible_iff: "encap_eligible bs dst \<longleftrightarrow> plain_ip4_dst bs = Some dst"
proof (cases "34 \<le> length bs")
  case True
  have "be16 x y = ETHERNET_TYPE_IP4 \<longleftrightarrow> x = 8 \<and> y = 0" for x y
    using be16_eq_iff [of x y 8 0] by (simp add: ETHERNET_TYPE_IP4_def be16_def)
  with True show ?thesis
    by (auto simp: encap_eligible_def plain_ip4_dst_def rd_simps be16_mask_3fff)
qed (simp add: encap_eligible_def plain_ip4_dst_def)

lemma encap_fp_packet_spec:
  "\<exists>r. encap_fp_packet bh lm b = Some r \<and> (er_buffer r, er_next r) = encap_fastpath_spec (encap_routes bh lm) b"
proof (rule encap_fp_packet_cases [of lm b bh])
  fix dst v
  assume "encap_adj_init lm" "encap_eligible (cur_bytes b) dst"
    and "bh_search bh (encap_adj_by_ip4 lm) (ucast dst) = Some v"
    and "encap_fp_packet bh lm b = Some \<lparr>er_buffer = (vlib_buffer_advance b 14)\<lparr>b_adj_tx := ucast v\<rparr>,
        er_next = L2TVPP_ENCAP_FP_NEXT_IP4_MIDCHAIN,
        er_trace = \<lparr>et_dst = dst, et_adj_index = ucast v, et_hit = True\<rparr>\<rparr>"
  then show ?thesis by (simp add: eligible_iff encap_fastpath_spec_def encap_routes_def)
next
  fix dst
  assume miss: "encap_fp_packet bh lm b = Some (encap_fp_miss b dst)"
    and no: "\<And>d v. encap_adj_init lm \<Longrightarrow> encap_eligible (cur_bytes b) d \<Longrightarrow>
        bh_search bh (encap_adj_by_ip4 lm) (ucast d) \<noteq> Some v"
  have "bh_search bh (encap_adj_by_ip4 lm) (ucast d) = None"
    if "encap_adj_init lm" "plain_ip4_dst (cur_bytes b) = Some d" for d
    using no [of d] that by (cases "bh_search bh (encap_adj_by_ip4 lm) (ucast d)") (auto simp: eligible_iff)
  then have "Option.bind (plain_ip4_dst (cur_bytes b)) (encap_routes bh lm) = None"
    by (cases "plain_ip4_dst (cur_bytes b)") (auto simp: encap_routes_def)
  with miss show ?thesis by (simp add: encap_fastpath_spec_def encap_fp_miss_def)
qed

lemma encap_fp_loop_spec:
  "\<exists>rs. encap_fp_loop bh lm frame = Some rs \<and>
     map (\<lambda>r. (er_buffer r, er_next r)) rs = map (encap_fastpath_spec (encap_routes bh lm)) frame"
proof (induction frame)
  case (Cons b frame)
  then show ?case using encap_fp_packet_spec [of bh lm b] by auto
qed simp

text \<open>Claim C10: (refinement) the encap fast path implements the subscriber routes: after any sequence of
  route operations since start-up, the node handles every frame without reading outside a packet, and
  sends a packet to the midchain adjacency of the host route last installed for its destination, with
  exactly the 14 bytes of Ethernet removed, when the packet is untagged, unfragmented IPv4 without
  options and such a route is present; every other packet goes on to \<open>ethernet-input\<close> untouched.\<close>

theorem encap_fastpath_follows_routes:
  assumes "bihash_ok bh" and "\<not> encap_adj_init lm" and "route_ops bh lm ops = (lm', calls)"
  shows "\<exists>eff. l2tvpp_encap_fastpath_node bh lm' frame = Some eff
    \<and> ee_out eff = map (encap_fastpath_spec (host_routes lm Map.empty ops)) frame"
proof -
  have "encap_routes bh lm = Map.empty" using assms(2) by (auto simp: encap_routes_def)
  then have "encap_routes bh lm' = host_routes lm Map.empty ops"
    using route_ops_refine [OF assms(1,3)] by simp
  with encap_fp_loop_spec [of bh lm' frame] show ?thesis
    by (auto simp: l2tvpp_encap_fastpath_node_def)
qed

definition ex_uplink_packet :: vlib_buffer where
  "ex_uplink_packet = \<lparr>b_mem = [0, 0, 0, 0, 0, 0, 0, 0, 0, 0, 0, 0, 0x08, 0, 0x45, 0, 0, 20, 0, 0, 0x40, 0, 64, 17, 0, 0,
       8, 8, 8, 8, 100, 64, 0, 1],
     b_current_data = 0, b_current_length = 34, b_rest_length = 0, b_l2_hdr_offset = 0,
     b_l3_hdr_offset = 0, b_l4_hdr_offset = 0, b_flags = {}, b_rx = 1, b_tx = 0, b_adj_tx = 0,
     b_error = None\<rparr>"

theorem encap_fastpath_follows_routes_witness:
  "\<exists>eff b. l2tvpp_encap_fastpath_node alist_bihash
      (fst (route_ops alist_bihash ex_main [(0, 9, ex_subscriber, 5, True)])) [ex_uplink_packet] = Some eff
    \<and> ee_out eff = [(b, L2TVPP_ENCAP_FP_NEXT_IP4_MIDCHAIN)] \<and> b_adj_tx b = 9 \<and> b_current_data b = 14"
proof -
  let ?r = "route_ops alist_bihash ex_main [(0, 9, ex_subscriber, 5, True)]"
  have "?r = (fst ?r, snd ?r)" by simp
  from encap_fastpath_follows_routes [OF alist_bihash_ok ex_main_rest(1) this, of "[ex_uplink_packet]"]
  show ?thesis
    by (auto simp: encap_fastpath_spec_def plain_ip4_dst_def ex_uplink_packet_def cur_bytes_def
        ex_main_session_of ex_subscriber_def vlib_buffer_advance_def simp del: route_ops.simps)
qed

text \<open>The fast path looks at the type, version, fragment and destination fields
  only: two frames of one length that agree on those bytes get the same treatment, whatever their
  destination MAC address, TTL, total length and header checksum are.  A packet for a cached
  subscriber therefore reaches \<open>ip4-midchain\<close> without the checks of \<open>ethernet-input\<close> and
  \<open>ip4-input\<close>.\<close>

theorem encap_fastpath_skips_validation:
  assumes "length (cur_bytes b) = length (cur_bytes b')"
    and "\<forall>i \<in> {12, 13, 14, 20, 21, 30, 31, 32, 33}. i < length (cur_bytes b) \<longrightarrow> cur_bytes b ! i = cur_bytes b' ! i"
    and "encap_fp_packet bh lm b = Some r" and "encap_fp_packet bh lm b' = Some r'"
  shows "er_next r = er_next r'
    \<and> (er_next r = L2TVPP_ENCAP_FP_NEXT_IP4_MIDCHAIN \<longrightarrow> b_adj_tx (er_buffer r) = b_adj_tx (er_buffer r'))"
proof -
  have "plain_ip4_dst (cur_bytes b) = plain_ip4_dst (cur_bytes b')"
  proof (cases "34 \<le> length (cur_bytes b)")
    case True
    then have "cur_bytes b ! i = cur_bytes b' ! i" if "i \<in> {12, 13, 14, 20, 21, 30, 31, 32, 33}" for i
      using assms(2) that by (elim ballE [of _ _ i]) auto
    with assms(1) show ?thesis by (simp add: plain_ip4_dst_def)
  qed (simp add: plain_ip4_dst_def assms(1) [symmetric])
  moreover have "(er_buffer r, er_next r) = encap_fastpath_spec (encap_routes bh lm) b"
    "(er_buffer r', er_next r') = encap_fastpath_spec (encap_routes bh lm) b'"
    using assms(3,4) encap_fp_packet_spec [of bh lm b] encap_fp_packet_spec [of bh lm b'] by auto
  ultimately show ?thesis
    by (auto simp: encap_fastpath_spec_def split: option.splits)
qed

text \<open>The packet of the example with another destination MAC address and a TTL of 0.\<close>

definition ex_stray_packet :: vlib_buffer where
  "ex_stray_packet = ex_uplink_packet\<lparr>b_mem := (b_mem ex_uplink_packet)[0 := 0xde, 22 := 0]\<rparr>"

theorem encap_fastpath_skips_validation_witness:
  "\<exists>r r'. encap_fp_packet alist_bihash ex_main ex_uplink_packet = Some r
    \<and> encap_fp_packet alist_bihash ex_main ex_stray_packet = Some r' \<and> er_next r = er_next r'"
proof -
  obtain r r' where r: "encap_fp_packet alist_bihash ex_main ex_uplink_packet = Some r"
    "encap_fp_packet alist_bihash ex_main ex_stray_packet = Some r'"
    using encap_fp_packet_defined by blast
  have "length (cur_bytes ex_uplink_packet) = length (cur_bytes ex_stray_packet)"
    by (simp add: cur_bytes_def ex_stray_packet_def ex_uplink_packet_def)
  moreover have "\<forall>i \<in> {12, 13, 14, 20, 21, 30, 31, 32, 33}. i < length (cur_bytes ex_uplink_packet) \<longrightarrow>
      cur_bytes ex_uplink_packet ! i = cur_bytes ex_stray_packet ! i"
    by (simp add: cur_bytes_def ex_stray_packet_def ex_uplink_packet_def)
  ultimately show ?thesis using encap_fastpath_skips_validation [OF _ _ r] r by blast
qed

end
