(* ===== verification/Cli_Commands.thy ===== *)
theory Cli_Commands
  imports Api_Handlers Encap_Fastpath
begin

text \<open>
  The debug CLI: \<^verbatim>\<open>src/plugin/l2tvpp/l2tvpp_cli.c\<close>, the commands at the end of
  \<^verbatim>\<open>flow_handoff.c\<close> and \<^verbatim>\<open>encap_fastpath.c\<close>, and the format functions at the top of
  \<^verbatim>\<open>l2tvpp.c\<close>.  VPP's \<open>unformat\<close> is not modelled: a command line is the list of the items the
  command's \<open>unformat\<close> calls recognise, in the order they are read (\<open>None\<close>: there is no line), with
  the 32-bit numbers \<open>%d\<close> stores.  Address and interface formatters are parameters.  A command
  returns the state, and either the error or the lines it prints.
\<close>

datatype cli_error =
    Cli_unknown_input
  | Cli_required string
  | Cli_returned api_rv
  | Cli_invalid_workers u32
  | Cli_spray_needs_workers

type_synonym cli_output = "cli_error + string list"

section \<open>Format functions\<close>

definition format_l2tvpp_name :: "u32 \<Rightarrow> string" where
  "format_l2tvpp_name dev_instance = ''l2tvpp'' @ dec_d dev_instance"

definition format_l2tvpp_tunnel :: "(ip46_address \<Rightarrow> string) \<Rightarrow> u32 \<Rightarrow> l2tvpp_tunnel \<Rightarrow> string" where
  "format_l2tvpp_tunnel format_ip46_address i t =
     ''['' @ dec_d i @ ''] '' @ format_ip46_address (t_local_ip t) @ '':'' @ dec_u (t_local_port t)
     @ '' -> '' @ format_ip46_address (t_peer_ip t) @ '':'' @ dec_u (t_peer_port t)
     @ '' tid '' @ dec_u (t_local_tid t) @ ''/'' @ dec_u (t_peer_tid t)
     @ '' sessions '' @ dec_d (t_n_sessions t)"

definition format_l2tvpp_session :: "(u32 \<Rightarrow> string) \<Rightarrow> u32 \<Rightarrow> l2tvpp_session \<Rightarrow> string" where
  "format_l2tvpp_session format_sw_if_index_name i s =
     ''['' @ dec_d i @ ''] '' @ format_sw_if_index_name (s_sw_if_index s)
     @ '' tunnel '' @ dec_d (s_tunnel_index s) @ '' sid '' @ dec_u (s_local_sid s) @ ''/'' @ dec_u (s_peer_sid s)
     @ '' acfc '' @ dec_u (s_acfc s) @ '' pfc '' @ dec_u (s_pfc s)"

section \<open>Tunnels\<close>

datatype tunnel_item =
    Tc_del | Tc_local u32 | Tc_peer u32 | Tc_local_port u32 | Tc_peer_port u32
  | Tc_local_tid u32 | Tc_peer_tid u32 | Tc_unknown

record tunnel_args =
  ta_is_add :: bool
  ta_local_ip :: ip46_address
  ta_peer_ip :: ip46_address
  ta_local_port :: u32
  ta_peer_port :: u32
  ta_local_tid :: u32
  ta_peer_tid :: u32

definition ip46_of_ip4 :: "u32 \<Rightarrow> ip46_address" where
  "ip46_of_ip4 a = \<lparr>ip46_pad = 0, ip46_ip4 = a\<rparr>"

definition tunnel_args_default :: tunnel_args where
  "tunnel_args_default = \<lparr>ta_is_add = True, ta_local_ip = ip46_of_ip4 0, ta_peer_ip = ip46_of_ip4 0,
     ta_local_port = ucast L2TVPP_UDP_PORT, ta_peer_port = ucast L2TVPP_UDP_PORT,
     ta_local_tid = - 1, ta_peer_tid = - 1\<rparr>"

fun tunnel_cli_items :: "tunnel_args \<Rightarrow> tunnel_item list \<Rightarrow> tunnel_args option" where
  "tunnel_cli_items a [] = Some a"
| "tunnel_cli_items a (Tc_del # is) = tunnel_cli_items (a\<lparr>ta_is_add := False\<rparr>) is"
| "tunnel_cli_items a (Tc_local x # is) = tunnel_cli_items (a\<lparr>ta_local_ip := ip46_of_ip4 x\<rparr>) is"
| "tunnel_cli_items a (Tc_peer x # is) = tunnel_cli_items (a\<lparr>ta_peer_ip := ip46_of_ip4 x\<rparr>) is"
| "tunnel_cli_items a (Tc_local_port n # is) = tunnel_cli_items (a\<lparr>ta_local_port := n\<rparr>) is"
| "tunnel_cli_items a (Tc_peer_port n # is) = tunnel_cli_items (a\<lparr>ta_peer_port := n\<rparr>) is"
| "tunnel_cli_items a (Tc_local_tid n # is) = tunnel_cli_items (a\<lparr>ta_local_tid := n\<rparr>) is"
| "tunnel_cli_items a (Tc_peer_tid n # is) = tunnel_cli_items (a\<lparr>ta_peer_tid := n\<rparr>) is"
| "tunnel_cli_items a (Tc_unknown # is) = None"

text \<open>The 32-bit numbers are narrowed to the parameters' 16 bits by the call.\<close>

definition l2tvpp_tunnel_cli ::
  "u32 \<Rightarrow> 'h l2tvpp_main \<Rightarrow> tunnel_item list option \<Rightarrow> 'h l2tvpp_main \<times> cli_output" where
  "l2tvpp_tunnel_cli slot lm line =
     (case line of
        None \<Rightarrow> (lm, Inr [])
      | Some items \<Rightarrow>
          (case tunnel_cli_items tunnel_args_default items of
             None \<Rightarrow> (lm, Inl Cli_unknown_input)
           | Some a \<Rightarrow>
               if ta_local_tid a = - 1 \<or> ta_is_add a \<and> ta_peer_tid a = - 1
               then (lm, Inl (Cli_required ''local-tid and peer-tid required''))
               else
                 let (rv, lm', out) = l2tvpp_tunnel_add_del slot lm (ta_local_ip a) (ta_peer_ip a)
                       (ucast (ta_local_port a)) (ucast (ta_peer_port a))
                       (ucast (ta_local_tid a)) (ucast (ta_peer_tid a)) (ta_is_add a)
                 in if rv \<noteq> RV_OK then (lm', Inl (Cli_returned rv))
                    else (lm', Inr (if ta_is_add a
                           then [''tunnel '' @ dec_d (case out of None \<Rightarrow> - 1 | Some i \<Rightarrow> i)] else []))))"

definition show_l2tvpp_tunnel_cli :: "(ip46_address \<Rightarrow> string) \<Rightarrow> 'h l2tvpp_main \<Rightarrow> string list" where
  "show_l2tvpp_tunnel_cli format_ip46_address lm =
     (if pool_elts (tunnels lm) = 0 then [''no l2tvpp tunnels''] else [])
     @ map (\<lambda>i. format_l2tvpp_tunnel format_ip46_address i (the (pool_elt (tunnels lm) i)))
         (pool_indices (tunnels lm))"

section \<open>Sessions\<close>

datatype session_item =
    Sc_del | Sc_tunnel u32 | Sc_local_sid u32 | Sc_peer_sid u32 | Sc_acfc | Sc_pfc | Sc_unknown

record session_args =
  sa_is_add :: bool
  sa_tunnel_index :: u32
  sa_local_sid :: u32
  sa_peer_sid :: u32
  sa_acfc :: u8
  sa_pfc :: u8

definition session_args_default :: session_args where
  "session_args_default = \<lparr>sa_is_add = True, sa_tunnel_index = - 1, sa_local_sid = - 1, sa_peer_sid = - 1,
     sa_acfc = 0, sa_pfc = 0\<rparr>"

fun session_cli_items :: "session_args \<Rightarrow> session_item list \<Rightarrow> session_args option" where
  "session_cli_items a [] = Some a"
| "session_cli_items a (Sc_del # is) = session_cli_items (a\<lparr>sa_is_add := False\<rparr>) is"
| "session_cli_items a (Sc_tunnel n # is) = session_cli_items (a\<lparr>sa_tunnel_index := n\<rparr>) is"
| "session_cli_items a (Sc_local_sid n # is) = session_cli_items (a\<lparr>sa_local_sid := n\<rparr>) is"
| "session_cli_items a (Sc_peer_sid n # is) = session_cli_items (a\<lparr>sa_peer_sid := n\<rparr>) is"
| "session_cli_items a (Sc_acfc # is) = session_cli_items (a\<lparr>sa_acfc := 1\<rparr>) is"
| "session_cli_items a (Sc_pfc # is) = session_cli_items (a\<lparr>sa_pfc := 1\<rparr>) is"
| "session_cli_items a (Sc_unknown # is) = None"

definition l2tvpp_session_cli ::
  "'h bihash_8_8 \<Rightarrow> (u32 \<Rightarrow> string) \<Rightarrow> u32 \<Rightarrow> u32 \<Rightarrow> u32 \<Rightarrow> 'h l2tvpp_main \<Rightarrow> session_item list option
     \<Rightarrow> ('h l2tvpp_main \<times> cli_output \<times> vpp_call list) option" where
  "l2tvpp_session_cli bh format_sw_if_index_name slot hw sw lm line =
     (case line of
        None \<Rightarrow> Some (lm, Inr [], [])
      | Some items \<Rightarrow>
          (case session_cli_items session_args_default items of
             None \<Rightarrow> Some (lm, Inl Cli_unknown_input, [])
           | Some a \<Rightarrow>
               if sa_tunnel_index a = - 1 \<or> sa_local_sid a = - 1 \<or> sa_is_add a \<and> sa_peer_sid a = - 1
               then Some (lm, Inl (Cli_required ''tunnel, local-sid and peer-sid required''), [])
               else do {
                 (rv, lm', out, calls) \<leftarrow> l2tvpp_session_add_del bh slot hw sw lm (sa_tunnel_index a)
                    (ucast (sa_local_sid a)) (ucast (sa_peer_sid a)) (sa_acfc a) (sa_pfc a) (sa_is_add a);
                 if rv \<noteq> RV_OK then Some (lm', Inl (Cli_returned rv), calls)
                 else Some (lm', Inr (if sa_is_add a
                        then [format_sw_if_index_name (case out of None \<Rightarrow> - 1 | Some i \<Rightarrow> i)] else []), calls) }))"

definition show_l2tvpp_session_cli :: "(u32 \<Rightarrow> string) \<Rightarrow> 'h l2tvpp_main \<Rightarrow> string list" where
  "show_l2tvpp_session_cli format_sw_if_index_name lm =
     (if pool_elts (sessions lm) = 0 then [''no l2tvpp sessions''] else [])
     @ map (\<lambda>i. format_l2tvpp_session format_sw_if_index_name i (the (pool_elt (sessions lm) i)))
         (pool_indices (sessions lm))"

section \<open>Routes\<close>

datatype route_item = Rc_del | Rc_ip4 u32 u32 | Rc_ip6 "96 word" u32 u32 | Rc_interface u32 | Rc_unknown

record route_args =
  ra_is_add :: bool
  ra_pfx :: fib_prefix
  ra_plen :: u32
  ra_sw_if_index :: u32

definition route_args_default :: route_args where
  "route_args_default = \<lparr>ra_is_add = True,
     ra_pfx = \<lparr>fp_proto = FIB_PROTOCOL_IP4, fp_addr = 0, fp_addr6 = 0, fp_len = 0\<rparr>,
     ra_plen = - 1, ra_sw_if_index = - 1\<rparr>"

fun route_cli_items :: "route_args \<Rightarrow> route_item list \<Rightarrow> route_args option" where
  "route_cli_items a [] = Some a"
| "route_cli_items a (Rc_del # is) = route_cli_items (a\<lparr>ra_is_add := False\<rparr>) is"
| "route_cli_items a (Rc_ip4 x n # is) =
     route_cli_items (a\<lparr>ra_pfx := (ra_pfx a)\<lparr>fp_proto := FIB_PROTOCOL_IP4, fp_addr := x\<rparr>, ra_plen := n\<rparr>) is"
| "route_cli_items a (Rc_ip6 hi x n # is) =
     route_cli_items (a\<lparr>ra_pfx := (ra_pfx a)\<lparr>fp_proto := FIB_PROTOCOL_IP6, fp_addr := x, fp_addr6 := hi\<rparr>,
       ra_plen := n\<rparr>) is"
| "route_cli_items a (Rc_interface i # is) = route_cli_items (a\<lparr>ra_sw_if_index := i\<rparr>) is"
| "route_cli_items a (Rc_unknown # is) = None"

text \<open>\<open>fp_len\<close> has 16 bits.\<close>

definition l2tvpp_route_cli ::
  "'h bihash_8_8 \<Rightarrow> u32 \<Rightarrow> u32 \<Rightarrow> 'h l2tvpp_main \<Rightarrow> route_item list option
     \<Rightarrow> 'h l2tvpp_main \<times> cli_output \<times> vpp_call list" where
  "l2tvpp_route_cli bh fib_index ai lm line =
     (case line of
        None \<Rightarrow> (lm, Inr [], [])
      | Some items \<Rightarrow>
          (case route_cli_items route_args_default items of
             None \<Rightarrow> (lm, Inl Cli_unknown_input, [])
           | Some a \<Rightarrow>
               if ra_plen a = - 1 \<or> ra_sw_if_index a = - 1
               then (lm, Inl (Cli_required ''prefix and session interface required''), [])
               else
                 let pfx = (ra_pfx a)\<lparr>fp_len := unat (ucast (ra_plen a) :: u16)\<rparr>;
                     (rv, lm', calls) = l2tvpp_route_add_del bh fib_index ai lm pfx (ra_sw_if_index a) (ra_is_add a)
                 in if rv \<noteq> RV_OK then (lm', Inl (Cli_returned rv), calls) else (lm', Inr [], calls)))"

section \<open>Switches\<close>

datatype switch_item = Item_on | Item_off | Item_unknown

fun handoff_cli_items :: "(u8 \<times> bool) \<Rightarrow> switch_item list \<Rightarrow> (u8 \<times> bool) option" where
  "handoff_cli_items es [] = Some es"
| "handoff_cli_items es (Item_on # is) = handoff_cli_items (1, True) is"
| "handoff_cli_items es (Item_off # is) = handoff_cli_items (0, True) is"
| "handoff_cli_items es (Item_unknown # is) = None"

definition l2tvpp_handoff_cli ::
  "u32 \<Rightarrow> 'h l2tvpp_main \<Rightarrow> switch_item list option \<Rightarrow> 'h l2tvpp_main \<times> cli_output \<times> vpp_call list" where
  "l2tvpp_handoff_cli n_workers lm line =
     (case (case line of None \<Rightarrow> Some (1, False) | Some items \<Rightarrow> handoff_cli_items (1, False) items) of
        None \<Rightarrow> (lm, Inl Cli_unknown_input, [])
      | Some (enable, seen) \<Rightarrow>
          let (lm', calls) = (if seen then snd (l2tvpp_set_handoff lm enable) else (lm, []))
          in (lm', Inr [''l2tvpp worker handoff '' @ (if handoff_enabled lm' then ''on'' else ''off'')
                @ '' ('' @ dec_d n_workers @ '' workers)''], calls))"

text \<open>This command changes the state while it reads the line.\<close>

fun inner_checksum_items :: "'h l2tvpp_main \<Rightarrow> switch_item list \<Rightarrow> 'h l2tvpp_main \<times> bool" where
  "inner_checksum_items lm [] = (lm, True)"
| "inner_checksum_items lm (Item_on # is) = inner_checksum_items (lm\<lparr>inner_ip4_no_checksum := False\<rparr>) is"
| "inner_checksum_items lm (Item_off # is) = inner_checksum_items (lm\<lparr>inner_ip4_no_checksum := True\<rparr>) is"
| "inner_checksum_items lm (Item_unknown # is) = (lm, False)"

definition l2tvpp_inner_checksum_cli ::
  "'h l2tvpp_main \<Rightarrow> switch_item list option \<Rightarrow> 'h l2tvpp_main \<times> cli_output" where
  "l2tvpp_inner_checksum_cli lm line =
     (let (lm', ok) = (case line of None \<Rightarrow> (lm, True) | Some items \<Rightarrow> inner_checksum_items lm items) in
      if \<not> ok then (lm', Inl Cli_unknown_input)
      else (lm', Inr [''l2tvpp inner IPv4 header checksum verification ''
              @ (if inner_ip4_no_checksum lm' then ''off'' else ''on'')]))"

section \<open>Flow handoff\<close>

datatype flow_item =
    Fc_disable | Fc_workers "nat list" | Fc_fastpath | Fc_spray | Fc_interface u32 | Fc_unknown

record flow_args =
  fa_sw_if_index :: u32
  fa_bitmap :: "nat list option"
  fa_enable :: bool
  fa_fastpath :: bool
  fa_spray :: bool

definition flow_args_default :: flow_args where
  "flow_args_default = \<lparr>fa_sw_if_index = - 1, fa_bitmap = None, fa_enable = True, fa_fastpath = False,
     fa_spray = False\<rparr>"

fun flow_cli_items :: "flow_args \<Rightarrow> flow_item list \<Rightarrow> flow_args option" where
  "flow_cli_items a [] = Some a"
| "flow_cli_items a (Fc_disable # is) = flow_cli_items (a\<lparr>fa_enable := False\<rparr>) is"
| "flow_cli_items a (Fc_workers bm # is) = flow_cli_items (a\<lparr>fa_bitmap := Some bm\<rparr>) is"
| "flow_cli_items a (Fc_fastpath # is) = flow_cli_items (a\<lparr>fa_fastpath := True\<rparr>) is"
| "flow_cli_items a (Fc_spray # is) = flow_cli_items (a\<lparr>fa_spray := True\<rparr>) is"
| "flow_cli_items a (Fc_interface i # is) = flow_cli_items (a\<lparr>fa_sw_if_index := i\<rparr>) is"
| "flow_cli_items a (Fc_unknown # is) = None"

type_synonym 'h flow_cli_result = "'h l2tvpp_main \<times> l2tvpp_flow_handoff_main \<times> cli_output \<times> vpp_call list"

text \<open>The error for each return code.\<close>

definition flow_cli_error :: "u32 \<Rightarrow> api_rv \<Rightarrow> cli_output" where
  "flow_cli_error n_workers rv =
     (case rv of
        RV_OK \<Rightarrow> Inr []
      | VNET_API_ERROR_INVALID_SW_IF_INDEX \<Rightarrow> Inl (Cli_required ''not a hardware interface'')
      | VNET_API_ERROR_INVALID_WORKER \<Rightarrow> Inl (Cli_invalid_workers n_workers)
      | _ \<Rightarrow> Inl (Cli_returned rv))"

definition l2tvpp_flow_handoff_cli ::
  "(u32 \<Rightarrow> bool) \<Rightarrow> (u32 \<Rightarrow> nat) \<Rightarrow> (u32 \<Rightarrow> bool) \<Rightarrow> u32 \<Rightarrow> u32 \<Rightarrow> u32 \<Rightarrow> 'h l2tvpp_main \<Rightarrow> l2tvpp_flow_handoff_main
     \<Rightarrow> flow_item list option \<Rightarrow> 'h flow_cli_result option" where
  "l2tvpp_flow_handoff_cli is_pow2 max_log2 hardware n_workers n_threads fqi lm fm line =
     (case line of
        None \<Rightarrow> Some (lm, fm, Inl (Cli_required ''missing arguments''), [])
      | Some items \<Rightarrow>
          (case flow_cli_items flow_args_default items of
             None \<Rightarrow> Some (lm, fm, Inl Cli_unknown_input, [])
           | Some a \<Rightarrow>
               if fa_sw_if_index a = - 1 then Some (lm, fm, Inl (Cli_required ''interface required''), [])
               else if fa_enable a \<and> fa_bitmap a = None \<and> \<not> fa_fastpath a
               then Some (lm, fm, Inl (Cli_required ''workers <list> and/or fastpath required''), [])
               else if fa_spray a \<and> (case fa_bitmap a of None \<Rightarrow> 0 | Some bm \<Rightarrow> length bm) < 2
               then Some (lm, fm, Inl Cli_spray_needs_workers, [])
               else do {
                 (rv, lm', fm', calls) \<leftarrow> l2tvpp_flow_handoff_enable_disable is_pow2 max_log2 hardware
                    n_workers n_threads fqi lm fm (fa_sw_if_index a) (fa_bitmap a) (fa_fastpath a)
                    (fa_spray a) (fa_enable a);
                 Some (lm', fm', flow_cli_error n_workers rv, calls) }))"

fun comma_threads :: "u16 list \<Rightarrow> string" where
  "comma_threads [] = []"
| "comma_threads [w] = dec_u w"
| "comma_threads (w # v # ws) = dec_u w @ '','' @ comma_threads (v # ws)"

definition l2tvpp_show_flow_handoff_cli ::
  "(u32 \<Rightarrow> string) \<Rightarrow> 'h l2tvpp_main \<Rightarrow> l2tvpp_flow_handoff_main \<Rightarrow> string list" where
  "l2tvpp_show_flow_handoff_cli format_sw_if_index_name lm fm =
     (let rows = filter (\<lambda>(i, ifd). fi_enabled ifd) (enumerate 0 (fm_if_data fm)) in
      map (\<lambda>(i, ifd). format_sw_if_index_name (of_nat i) @ '' -> threads ''
             @ (if fi_workers ifd = [] then ''local'' else comma_threads (fi_workers ifd))
             @ (if fi_fastpath ifd then '' fastpath'' else '''')
             @ (if fi_spray ifd then '' spray(reorders)'' else '''')) rows
      @ (if rows = [] then [''l2tvpp flow-handoff: no interfaces''] else [])
      @ [''inner IPv4 checksum verification '' @ (if inner_ip4_no_checksum lm then ''off'' else ''on'')
         @ '', local tunnel endpoints '' @ dec_d (of_nat (length (local_ip4s lm)))])"

section \<open>Encap fast path\<close>

datatype encap_item = Ec_disable | Ec_interface u32 | Ec_unknown

fun encap_cli_items :: "u32 \<times> u8 \<Rightarrow> encap_item list \<Rightarrow> (u32 \<times> u8) option" where
  "encap_cli_items a [] = Some a"
| "encap_cli_items (sw, enable) (Ec_disable # is) = encap_cli_items (sw, 0) is"
| "encap_cli_items (sw, enable) (Ec_interface i # is) = encap_cli_items (i, enable) is"
| "encap_cli_items a (Ec_unknown # is) = None"

definition l2tvpp_encap_fastpath_cli ::
  "(u32 \<Rightarrow> bool) \<Rightarrow> u32 set \<Rightarrow> encap_item list option \<Rightarrow> u32 set \<times> cli_output \<times> vpp_call list" where
  "l2tvpp_encap_fastpath_cli hardware enabled line =
     (case line of
        None \<Rightarrow> (enabled, Inl (Cli_required ''interface required''), [])
      | Some items \<Rightarrow>
          (case encap_cli_items (- 1, 1) items of
             None \<Rightarrow> (enabled, Inl Cli_unknown_input, [])
           | Some (sw, enable) \<Rightarrow>
               if sw = - 1 then (enabled, Inl (Cli_required ''interface required''), [])
               else
                 let (rv, enabled', calls) = l2tvpp_encap_fastpath_enable_disable hardware enabled sw enable
                 in (enabled',
                     if rv = VNET_API_ERROR_INVALID_SW_IF_INDEX then Inl (Cli_required ''not a hardware interface'')
                     else if rv \<noteq> RV_OK then Inl (Cli_returned rv) else Inr [], calls)))"

definition l2tvpp_show_encap_fastpath_cli ::
  "(u32 \<Rightarrow> string) \<Rightarrow> 'h l2tvpp_main \<Rightarrow> u32 set \<Rightarrow> string list" where
  "l2tvpp_show_encap_fastpath_cli format_sw_if_index_name lm enabled =
     map format_sw_if_index_name (sorted_list_of_set enabled)
     @ (if enabled = {} then [''l2tvpp encap-fastpath: no interfaces''] else [])
     @ [''cached subscriber adjacencies: '' @ dec_u (encap_adj_count lm)]"

section \<open>Errors\<close>

lemma flow_handoff_error:
  assumes "l2tvpp_flow_handoff_enable_disable is_pow2 max_log2 hardware n_workers n_threads fqi lm fm
      sw bm fastpath spray enable = Some (rv, lm', fm', calls)" and "rv \<noteq> RV_OK"
  shows "lm' = lm \<and> fm' = fm \<and> calls = []"
proof (cases "hardware sw \<and> \<not> (enable \<and> (case bm of Some bm \<Rightarrow> unat n_workers \<le> bitmap_last_set bm | None \<Rightarrow> False))")
  case False
  then show ?thesis
    using assms(1) by (auto simp: l2tvpp_flow_handoff_enable_disable_def split: if_splits)
next
  case True
  obtain lm1 fm1 c1 where q: "flow_queue_init is_pow2 max_log2 n_threads fqi lm fm = Some (lm1, fm1, c1)"
    using assms(1) True by (auto simp: l2tvpp_flow_handoff_enable_disable_def bind_eq_Some_conv split: if_splits)
  obtain rv2 lm2 c2 where "l2tvpp_set_handoff lm1 0 = (rv2, lm2, c2)" by (metis surj_pair)
  with assms True q show ?thesis
    by (simp add: l2tvpp_flow_handoff_enable_disable_def Let_def split: if_splits)
qed

lemma tunnel_cli_error: "l2tvpp_tunnel_cli slot lm line = (lm', Inl e) \<Longrightarrow> lm' = lm"
  by (auto simp: l2tvpp_tunnel_cli_def Let_def split: option.splits if_splits prod.splits dest: tunnel_error)

lemma session_cli_error:
  "l2tvpp_session_cli bh fmt slot hw sw lm line = Some (lm', Inl e, calls) \<Longrightarrow> lm' = lm \<and> calls = []"
  by (auto simp: l2tvpp_session_cli_def bind_eq_Some_conv split: option.splits if_splits dest: session_error)

lemma route_cli_error: "l2tvpp_route_cli bh fi ai lm line = (lm', Inl e, calls) \<Longrightarrow> lm' = lm \<and> calls = []"
  by (auto simp: l2tvpp_route_cli_def Let_def split: option.splits if_splits prod.splits dest: route_error)

lemma handoff_cli_error: "l2tvpp_handoff_cli n lm line = (lm', Inl e, calls) \<Longrightarrow> lm' = lm \<and> calls = []"
  by (auto simp: l2tvpp_handoff_cli_def Let_def split: option.splits if_splits prod.splits)

lemma flow_cli_error_Inl: "flow_cli_error n rv = Inl e \<Longrightarrow> rv \<noteq> RV_OK"
  by (auto simp: flow_cli_error_def)

lemma flow_handoff_cli_error:
  "l2tvpp_flow_handoff_cli is_pow2 max_log2 hardware n_workers n_threads fqi lm fm line =
      Some (lm', fm', Inl e, calls) \<Longrightarrow> lm' = lm \<and> fm' = fm \<and> calls = []"
  by (auto simp: l2tvpp_flow_handoff_cli_def bind_eq_Some_conv split: option.splits if_splits
      dest!: flow_cli_error_Inl dest: flow_handoff_error)

lemma encap_cli_error:
  "l2tvpp_encap_fastpath_cli hardware enabled line = (enabled', Inl e, calls) \<Longrightarrow> enabled' = enabled \<and> calls = []"
  by (auto simp: l2tvpp_encap_fastpath_cli_def l2tvpp_encap_fastpath_enable_disable_def Let_def
      split: option.splits if_splits prod.splits)

text \<open>Claim C28: (error) a command that reports an error has no effect: for the tunnel, session, route,
  handoff, flow-handoff and encap-fastpath commands, on every error path (unknown input, a missing
  argument, an error return of the operation underneath) the plugin's state is what it was and nothing
  was asked of VPP.\<close>

theorem cli_errors_without_effect:
  "(l2tvpp_tunnel_cli slot lm tline = (lm1, Inl e1) \<longrightarrow> lm1 = lm)
   \<and> (l2tvpp_session_cli bh fmt slot hw sw lm sline = Some (lm2, Inl e2, c2) \<longrightarrow> lm2 = lm \<and> c2 = [])
   \<and> (l2tvpp_route_cli bh fi ai lm rline = (lm3, Inl e3, c3) \<longrightarrow> lm3 = lm \<and> c3 = [])
   \<and> (l2tvpp_handoff_cli n lm hline = (lm4, Inl e4, c4) \<longrightarrow> lm4 = lm \<and> c4 = [])
   \<and> (l2tvpp_flow_handoff_cli is_pow2 max_log2 hardware n nt fqi lm fm fline = Some (lm5, fm5, Inl e5, c5) \<longrightarrow>
        lm5 = lm \<and> fm5 = fm \<and> c5 = [])
   \<and> (l2tvpp_encap_fastpath_cli hardware en eline = (en6, Inl e6, c6) \<longrightarrow> en6 = en \<and> c6 = [])"
  by (intro conjI impI; blast dest: tunnel_cli_error session_cli_error route_cli_error handoff_cli_error
      flow_handoff_cli_error encap_cli_error)

theorem cli_errors_without_effect_witness:
  "\<exists>lm3 e3 c3. l2tvpp_route_cli alist_bihash 0 9 ex_main (Some [Rc_ip4 1 32, Rc_interface 77]) = (lm3, Inl e3, c3)
    \<and> e3 = Cli_returned VNET_API_ERROR_INVALID_SW_IF_INDEX \<and> lm3 = ex_main \<and> c3 = []"
proof -
  obtain lm3 c3 where r: "l2tvpp_route_cli alist_bihash 0 9 ex_main (Some [Rc_ip4 1 32, Rc_interface 77]) =
      (lm3, Inl (Cli_returned VNET_API_ERROR_INVALID_SW_IF_INDEX), c3)"
    by (simp add: l2tvpp_route_cli_def route_args_default_def l2tvpp_route_add_del_def session_of_sw_if_index_def
        ex_main_eq)
  note cli_errors_without_effect [where bh = alist_bihash and fi = 0 and ai = 9 and lm = ex_main
      and rline = "Some [Rc_ip4 1 32, Rc_interface 77]" and ?lm3.0 = lm3 and ?c3.0 = c3
      and ?e3.0 = "Cli_returned VNET_API_ERROR_INVALID_SW_IF_INDEX"]
  with r show ?thesis by simp
qed

text \<open>The inner-checksum command is the exception: it has already applied the items before the unknown
  one when it reports the error.\<close>

lemma inner_checksum_error_has_effect:
  "\<exists>lm'. l2tvpp_inner_checksum_cli lm (Some [Item_off, Item_unknown]) = (lm', Inl Cli_unknown_input)
    \<and> inner_ip4_no_checksum lm'"
  by (simp add: l2tvpp_inner_checksum_cli_def)

section \<open>Command line and API\<close>

text \<open>What a line says, whatever the order of its words: the value of the last word that gives one, else the
  default.\<close>

definition said :: "('i \<Rightarrow> 'a option) \<Rightarrow> 'a \<Rightarrow> 'i list \<Rightarrow> 'a" where
  "said pick d items = last (d # List.map_filter pick items)"

lemma said_simps [simp]:
  "said pick d [] = d" "said pick d (i # items) = said pick (case pick i of None \<Rightarrow> d | Some x \<Rightarrow> x) items"
  by (simp_all add: said_def map_filter_simps split: option.split)

text \<open>The API message that says the same as a line, and whether the line says enough.\<close>

definition line_local_tid :: "tunnel_item list \<Rightarrow> u32" where
  "line_local_tid = said (\<lambda>i. case i of Tc_local_tid n \<Rightarrow> Some n | _ \<Rightarrow> None) (- 1)"

definition line_peer_tid :: "tunnel_item list \<Rightarrow> u32" where
  "line_peer_tid = said (\<lambda>i. case i of Tc_peer_tid n \<Rightarrow> Some n | _ \<Rightarrow> None) (- 1)"

definition tunnel_complete :: "tunnel_item list \<Rightarrow> bool" where
  "tunnel_complete items \<longleftrightarrow> Tc_unknown \<notin> set items \<and> line_local_tid items \<noteq> - 1
     \<and> (Tc_del \<in> set items \<or> line_peer_tid items \<noteq> - 1)"

definition tunnel_message :: "(u32 \<Rightarrow> 'a) \<Rightarrow> tunnel_item list \<Rightarrow> 'a msg_tunnel_add_del" where
  "tunnel_message encode items =
     \<lparr>mt_client_index = 1, mt_context = 7, mt_is_add = (Tc_del \<notin> set items),
      mt_local_ip = encode (said (\<lambda>i. case i of Tc_local a \<Rightarrow> Some a | _ \<Rightarrow> None) 0 items),
      mt_peer_ip = encode (said (\<lambda>i. case i of Tc_peer a \<Rightarrow> Some a | _ \<Rightarrow> None) 0 items),
      mt_local_port = swap16 (ucast (said (\<lambda>i. case i of Tc_local_port n \<Rightarrow> Some n | _ \<Rightarrow> None) 1701 items)),
      mt_peer_port = swap16 (ucast (said (\<lambda>i. case i of Tc_peer_port n \<Rightarrow> Some n | _ \<Rightarrow> None) 1701 items)),
      mt_local_tid = swap16 (ucast (line_local_tid items)), mt_peer_tid = swap16 (ucast (line_peer_tid items))\<rparr>"

definition line_tunnel :: "session_item list \<Rightarrow> u32" where
  "line_tunnel = said (\<lambda>i. case i of Sc_tunnel n \<Rightarrow> Some n | _ \<Rightarrow> None) (- 1)"

definition line_local_sid :: "session_item list \<Rightarrow> u32" where
  "line_local_sid = said (\<lambda>i. case i of Sc_local_sid n \<Rightarrow> Some n | _ \<Rightarrow> None) (- 1)"

definition line_peer_sid :: "session_item list \<Rightarrow> u32" where
  "line_peer_sid = said (\<lambda>i. case i of Sc_peer_sid n \<Rightarrow> Some n | _ \<Rightarrow> None) (- 1)"

definition session_complete :: "session_item list \<Rightarrow> bool" where
  "session_complete items \<longleftrightarrow> Sc_unknown \<notin> set items \<and> line_tunnel items \<noteq> - 1 \<and> line_local_sid items \<noteq> - 1
     \<and> (Sc_del \<in> set items \<or> line_peer_sid items \<noteq> - 1)"

definition session_message :: "session_item list \<Rightarrow> msg_session_add_del" where
  "session_message items =
     \<lparr>ms_client_index = 1, ms_context = 7, ms_is_add = (Sc_del \<notin> set items), ms_tunnel_index = swap32 (line_tunnel items),
      ms_local_sid = swap16 (ucast (line_local_sid items)), ms_peer_sid = swap16 (ucast (line_peer_sid items)),
      ms_acfc = (if Sc_acfc \<in> set items then 1 else 0), ms_pfc = (if Sc_pfc \<in> set items then 1 else 0)\<rparr>"

definition line_prefix :: "route_item list \<Rightarrow> fib_prefix option" where
  "line_prefix = said (\<lambda>i. case i of
       Rc_ip4 x n \<Rightarrow> Some (Some \<lparr>fp_proto = FIB_PROTOCOL_IP4, fp_addr = x, fp_addr6 = 0, fp_len = unat n\<rparr>)
     | Rc_ip6 hi x n \<Rightarrow> Some (Some \<lparr>fp_proto = FIB_PROTOCOL_IP6, fp_addr = x, fp_addr6 = hi, fp_len = unat n\<rparr>)
     | _ \<Rightarrow> None) None"

definition line_interface :: "route_item list \<Rightarrow> u32" where
  "line_interface = said (\<lambda>i. case i of Rc_interface n \<Rightarrow> Some n | _ \<Rightarrow> None) (- 1)"

definition route_message :: "(fib_prefix \<Rightarrow> 'p) \<Rightarrow> fib_prefix \<Rightarrow> route_item list \<Rightarrow> 'p msg_route_add_del" where
  "route_message prefix_encode p items =
     \<lparr>mr_client_index = 1, mr_context = 7, mr_is_add = (Rc_del \<notin> set items), mr_prefix = prefix_encode p,
      mr_sw_if_index = swap32 (line_interface items)\<rparr>"

text \<open>The message's prefix has a length that its address can have, and a line names prefixes of one family: after an
  IPv6 prefix an IPv4 one would keep the upper part of the address.\<close>

definition prefix_ok :: "fib_prefix \<Rightarrow> bool" where
  "prefix_ok p \<longleftrightarrow> (if fp_proto p = FIB_PROTOCOL_IP4 then fp_len p \<le> 32 \<and> fp_addr6 p = 0 else fp_len p \<le> 128)"

definition one_family :: "route_item list \<Rightarrow> bool" where
  "one_family items \<longleftrightarrow> (\<forall>i \<in> set items. case i of Rc_ip6 _ _ _ \<Rightarrow> False | _ \<Rightarrow> True)
     \<or> (\<forall>i \<in> set items. case i of Rc_ip4 _ _ \<Rightarrow> False | _ \<Rightarrow> True)"

definition line_switch :: "switch_item list \<Rightarrow> u8 option" where
  "line_switch = said (\<lambda>i. case i of Item_on \<Rightarrow> Some (Some 1) | Item_off \<Rightarrow> Some (Some 0) | Item_unknown \<Rightarrow> None) None"

text \<open>The argument loops read what the line says.\<close>

lemma tunnel_cli_items_said:
  "tunnel_cli_items a items =
     (if Tc_unknown \<in> set items then None
      else Some \<lparr>ta_is_add = (ta_is_add a \<and> Tc_del \<notin> set items),
        ta_local_ip = said (\<lambda>i. case i of Tc_local x \<Rightarrow> Some (ip46_of_ip4 x) | _ \<Rightarrow> None) (ta_local_ip a) items,
        ta_peer_ip = said (\<lambda>i. case i of Tc_peer x \<Rightarrow> Some (ip46_of_ip4 x) | _ \<Rightarrow> None) (ta_peer_ip a) items,
        ta_local_port = said (\<lambda>i. case i of Tc_local_port n \<Rightarrow> Some n | _ \<Rightarrow> None) (ta_local_port a) items,
        ta_peer_port = said (\<lambda>i. case i of Tc_peer_port n \<Rightarrow> Some n | _ \<Rightarrow> None) (ta_peer_port a) items,
        ta_local_tid = said (\<lambda>i. case i of Tc_local_tid n \<Rightarrow> Some n | _ \<Rightarrow> None) (ta_local_tid a) items,
        ta_peer_tid = said (\<lambda>i. case i of Tc_peer_tid n \<Rightarrow> Some n | _ \<Rightarrow> None) (ta_peer_tid a) items\<rparr>)"
  by (induction a items rule: tunnel_cli_items.induct) simp_all

lemma session_cli_items_said:
  "session_cli_items a items =
     (if Sc_unknown \<in> set items then None
      else Some \<lparr>sa_is_add = (sa_is_add a \<and> Sc_del \<notin> set items),
        sa_tunnel_index = said (\<lambda>i. case i of Sc_tunnel n \<Rightarrow> Some n | _ \<Rightarrow> None) (sa_tunnel_index a) items,
        sa_local_sid = said (\<lambda>i. case i of Sc_local_sid n \<Rightarrow> Some n | _ \<Rightarrow> None) (sa_local_sid a) items,
        sa_peer_sid = said (\<lambda>i. case i of Sc_peer_sid n \<Rightarrow> Some n | _ \<Rightarrow> None) (sa_peer_sid a) items,
        sa_acfc = (if Sc_acfc \<in> set items then 1 else sa_acfc a), sa_pfc = (if Sc_pfc \<in> set items then 1 else sa_pfc a)\<rparr>)"
  by (induction a items rule: session_cli_items.induct) simp_all

lemma said_image_on:
  assumes "\<forall>i \<in> set items. pick' i = map_option f (pick i)"
  shows "said pick' (f d) items = f (said pick d items)"
  using assms by (induction items arbitrary: d) (auto split: option.split)

lemma said_const: "\<forall>i \<in> set items. pick i = None \<or> pick i = Some d \<Longrightarrow> said pick d items = d"
  by (induction items) auto

lemma tunnel_cli_api:
  assumes "\<forall>a. decode (encode a) = ip46_of_ip4 a"
  shows "fst (l2tvpp_tunnel_cli slot lm (Some items)) =
     (if tunnel_complete items
      then fst (vl_api_l2tvpp_tunnel_add_del_t_handler decode registered slot lm (tunnel_message encode items)) else lm)"
proof -
  have "said (\<lambda>i. case i of Tc_local x \<Rightarrow> Some (ip46_of_ip4 x) | _ \<Rightarrow> None) (ip46_of_ip4 0) items =
      ip46_of_ip4 (said (\<lambda>i. case i of Tc_local a \<Rightarrow> Some a | _ \<Rightarrow> None) 0 items)"
    "said (\<lambda>i. case i of Tc_peer x \<Rightarrow> Some (ip46_of_ip4 x) | _ \<Rightarrow> None) (ip46_of_ip4 0) items =
      ip46_of_ip4 (said (\<lambda>i. case i of Tc_peer a \<Rightarrow> Some a | _ \<Rightarrow> None) 0 items)"
    by (rule said_image_on; simp split: tunnel_item.split)+
  then show ?thesis
    using assms
    by (simp add: l2tvpp_tunnel_cli_def tunnel_cli_items_said tunnel_args_default_def tunnel_complete_def tunnel_message_def
        vl_api_l2tvpp_tunnel_add_del_t_handler_def line_local_tid_def line_peer_tid_def L2TVPP_UDP_PORT_def
        split: prod.split)
qed

lemma session_cli_api:
  "map_option (\<lambda>(l, out, calls). (l, calls)) (l2tvpp_session_cli bh fmt slot hw sw lm (Some items)) =
     (if session_complete items
      then map_option (\<lambda>(l, out, calls). (l, calls))
        (vl_api_l2tvpp_session_add_del_t_handler bh registered slot hw sw lm (session_message items))
      else Some (lm, []))"
proof -
  define r where "r = l2tvpp_session_add_del bh slot hw sw lm (line_tunnel items) (ucast (line_local_sid items))
    (ucast (line_peer_sid items)) (if Sc_acfc \<in> set items then 1 else 0) (if Sc_pfc \<in> set items then 1 else 0)
    (Sc_del \<notin> set items)"
  show ?thesis
    by (cases r)
      (auto simp: l2tvpp_session_cli_def session_cli_items_said session_args_default_def session_complete_def
        session_message_def vl_api_l2tvpp_session_add_del_t_handler_def r_def line_tunnel_def line_local_sid_def
        line_peer_sid_def)
qed

lemma route_cli_items_said:
  "route_cli_items a items =
     (if Rc_unknown \<in> set items then None
      else Some \<lparr>ra_is_add = (ra_is_add a \<and> Rc_del \<notin> set items),
        ra_pfx = \<lparr>fp_proto = said (\<lambda>i. case i of Rc_ip4 x n \<Rightarrow> Some FIB_PROTOCOL_IP4
              | Rc_ip6 hi x n \<Rightarrow> Some FIB_PROTOCOL_IP6 | _ \<Rightarrow> None) (fp_proto (ra_pfx a)) items,
          fp_addr = said (\<lambda>i. case i of Rc_ip4 x n \<Rightarrow> Some x | Rc_ip6 hi x n \<Rightarrow> Some x | _ \<Rightarrow> None) (fp_addr (ra_pfx a)) items,
          fp_addr6 = said (\<lambda>i. case i of Rc_ip6 hi x n \<Rightarrow> Some hi | _ \<Rightarrow> None) (fp_addr6 (ra_pfx a)) items,
          fp_len = fp_len (ra_pfx a)\<rparr>,
        ra_plen = said (\<lambda>i. case i of Rc_ip4 x n \<Rightarrow> Some n | Rc_ip6 hi x n \<Rightarrow> Some n | _ \<Rightarrow> None) (ra_plen a) items,
        ra_sw_if_index = said (\<lambda>i. case i of Rc_interface n \<Rightarrow> Some n | _ \<Rightarrow> None) (ra_sw_if_index a) items\<rparr>)"
  by (induction a items rule: route_cli_items.induct) simp_all

lemma line_addr6:
  assumes "one_family items"
  shows "said (\<lambda>i. case i of Rc_ip6 hi x n \<Rightarrow> Some hi | _ \<Rightarrow> None) 0 items =
    (case line_prefix items of None \<Rightarrow> 0 | Some p \<Rightarrow> fp_addr6 p)"
  using assms [unfolded one_family_def]
proof
  assume a: "\<forall>i \<in> set items. case i of Rc_ip6 _ _ _ \<Rightarrow> False | _ \<Rightarrow> True"
  let ?f = "\<lambda>p :: fib_prefix option. case p of None \<Rightarrow> 0 | Some p \<Rightarrow> fp_addr6 p"
  have "?f (line_prefix items) = said (\<lambda>i. case i of Rc_ip4 x n \<Rightarrow> Some 0 | _ \<Rightarrow> None) (?f None) items"
    unfolding line_prefix_def
    by (rule said_image_on [where f = ?f and d = None, symmetric]) (use a in \<open>auto split: route_item.splits\<close>)
  also have "\<dots> = 0" unfolding option.case by (rule said_const) (auto split: route_item.split)
  finally show ?thesis using a said_const [of items "\<lambda>i. case i of Rc_ip6 hi x n \<Rightarrow> Some hi | _ \<Rightarrow> None" 0]
    by (force split: route_item.splits)
next
  assume a: "\<forall>i \<in> set items. case i of Rc_ip4 _ _ \<Rightarrow> False | _ \<Rightarrow> True"
  let ?f = "\<lambda>p :: fib_prefix option. case p of None \<Rightarrow> 0 | Some p \<Rightarrow> fp_addr6 p"
  have "said (\<lambda>i. case i of Rc_ip6 hi x n \<Rightarrow> Some hi | _ \<Rightarrow> None) (?f None) items = ?f (line_prefix items)"
    unfolding line_prefix_def
    by (rule said_image_on [where f = ?f and d = None]) (use a in \<open>auto split: route_item.splits\<close>)
  then show ?thesis by simp
qed

lemma route_line_read:
  assumes "one_family items"
  shows "route_cli_items route_args_default items =
    (if Rc_unknown \<in> set items then None
     else Some \<lparr>ra_is_add = (Rc_del \<notin> set items),
       ra_pfx = (case line_prefix items of
           None \<Rightarrow> \<lparr>fp_proto = FIB_PROTOCOL_IP4, fp_addr = 0, fp_addr6 = 0, fp_len = 0\<rparr> | Some p \<Rightarrow> p\<lparr>fp_len := 0\<rparr>),
       ra_plen = (case line_prefix items of None \<Rightarrow> - 1 | Some p \<Rightarrow> of_nat (fp_len p)),
       ra_sw_if_index = line_interface items\<rparr>)"
proof -
  let ?proto = "\<lambda>p :: fib_prefix option. case p of None \<Rightarrow> FIB_PROTOCOL_IP4 | Some p \<Rightarrow> fp_proto p"
    and ?addr = "\<lambda>p :: fib_prefix option. case p of None \<Rightarrow> 0 | Some p \<Rightarrow> fp_addr p"
    and ?len = "\<lambda>p :: fib_prefix option. case p of None \<Rightarrow> - 1 | Some p \<Rightarrow> of_nat (fp_len p)"
  have "said (\<lambda>i. case i of Rc_ip4 x n \<Rightarrow> Some FIB_PROTOCOL_IP4 | Rc_ip6 hi x n \<Rightarrow> Some FIB_PROTOCOL_IP6 | _ \<Rightarrow> None)
      (?proto None) items = ?proto (line_prefix items)"
    "said (\<lambda>i. case i of Rc_ip4 x n \<Rightarrow> Some x | Rc_ip6 hi x n \<Rightarrow> Some x | _ \<Rightarrow> None) (?addr None) items = ?addr (line_prefix items)"
    "said (\<lambda>i. case i of Rc_ip4 x n \<Rightarrow> Some n | Rc_ip6 hi x n \<Rightarrow> Some n | _ \<Rightarrow> None) (?len None) items = ?len (line_prefix items)"
    unfolding line_prefix_def
    by (rule said_image_on [where f = ?proto and d = None] said_image_on [where f = ?addr and d = None]
          said_image_on [where f = ?len and d = None]; simp split: route_item.split)+
  with line_addr6 [OF assms] show ?thesis
    by (cases "line_prefix items") (auto simp: route_cli_items_said route_args_default_def line_interface_def)
qed

lemma prefix_ok_len:
  assumes "prefix_ok p"
  shows "(of_nat (fp_len p) :: u32) \<noteq> - 1" and "unat (ucast (of_nat (fp_len p) :: u32) :: u16) = fp_len p"
proof -
  have le: "fp_len p \<le> 128" using assms by (auto simp: prefix_ok_def split: if_splits)
  then have u: "unat (of_nat (fp_len p) :: u32) = fp_len p" by (simp add: unsigned_of_nat take_bit_nat_eq_self)
  then show "unat (ucast (of_nat (fp_len p) :: u32) :: u16) = fp_len p"
    using le by (simp add: unsigned_ucast_eq take_bit_nat_eq_self)
  have "unat (- 1 :: u32) = 2 ^ 32 - 1" by (simp add: unsigned_minus_1_eq_mask mask_eq_exp_minus_1)
  then show "(of_nat (fp_len p) :: u32) \<noteq> - 1" using u le by force
qed

lemma route_cli_api:
  assumes "\<forall>p. prefix_ok p \<longrightarrow> prefix_decode (prefix_encode p) = p" and "one_family items"
    and "\<forall>p. line_prefix items = Some p \<longrightarrow> prefix_ok p"
  shows "(\<lambda>(l, out, calls). (l, calls)) (l2tvpp_route_cli bh fi ai lm (Some items)) =
    (case line_prefix items of
       Some p \<Rightarrow>
         if Rc_unknown \<notin> set items \<and> line_interface items \<noteq> - 1
         then (\<lambda>(l, out, calls). (l, calls))
           (vl_api_l2tvpp_route_add_del_t_handler bh prefix_decode registered fi ai lm (route_message prefix_encode p items))
         else (lm, [])
     | None \<Rightarrow> (lm, []))"
proof (cases "line_prefix items")
  case None
  then show ?thesis by (simp add: l2tvpp_route_cli_def route_line_read [OF assms(2)])
next
  case (Some p)
  note ok = assms(3) [rule_format, OF Some]
  have "p\<lparr>fp_len := fp_len p\<rparr> = p" by simp
  then show ?thesis
    using assms(1) ok prefix_ok_len [OF ok]
    by (simp add: Some l2tvpp_route_cli_def route_line_read [OF assms(2)] route_message_def
        vl_api_l2tvpp_route_add_del_t_handler_def split: prod.split)
qed

lemma handoff_items_said:
  "handoff_cli_items (case w of None \<Rightarrow> (1, False) | Some e \<Rightarrow> (e, True)) items =
    (if Item_unknown \<in> set items then None
     else Some (case said (\<lambda>i. case i of Item_on \<Rightarrow> Some (Some 1) | Item_off \<Rightarrow> Some (Some 0) | Item_unknown \<Rightarrow> None) w items of
         None \<Rightarrow> (1, False) | Some e \<Rightarrow> (e, True)))"
proof (induction items arbitrary: w)
  case (Cons i items)
  then show ?case using Cons.IH [of "Some 1"] Cons.IH [of "Some 0"] by (cases i) simp_all
qed simp

lemma handoff_cli_api:
  "(\<lambda>(l, out, calls). (l, calls)) (l2tvpp_handoff_cli n lm (Some items)) =
    (case line_switch items of
       Some e \<Rightarrow>
         if Item_unknown \<notin> set items
         then (\<lambda>(l, out, calls). (l, calls)) (vl_api_l2tvpp_set_handoff_t_handler registered lm
           \<lparr>mh_client_index = 1, mh_context = 7, mh_enable = e\<rparr>)
         else (lm, [])
     | None \<Rightarrow> (lm, []))"
  using handoff_items_said [of None items]
  by (cases "line_switch items")
    (simp_all add: l2tvpp_handoff_cli_def vl_api_l2tvpp_set_handoff_t_handler_def line_switch_def Let_def split: prod.split)

text \<open>Claim C29: (equivalence) the two front ends agree, for every line of the tunnel, session, route and handoff
  commands that its \<open>unformat\<close> calls can split into items: words in any order, repeated or left out.  The message
  with the same values is the one that has, for each field, the value of the last word that gives it and otherwise
  the default (port 1701, address 0, no flag), narrowed to the field's width and in network order.  Where the line
  has no unknown item and the ids, the prefix and interface, or the switch it needs, the command leaves the plugin in the
  state and makes the calls into VPP that the API handler does on that message, for add and for delete; every
  other line has no effect.  For routes the line names prefixes of one family, with a length of at most 32 or 128.\<close>

theorem cli_equals_api:
  assumes "\<forall>a. decode (encode a) = ip46_of_ip4 a"
    and "\<forall>p. prefix_ok p \<longrightarrow> prefix_decode (prefix_encode p) = p"
    and "one_family ritems" and "\<forall>p. line_prefix ritems = Some p \<longrightarrow> prefix_ok p"
  shows "fst (l2tvpp_tunnel_cli slot lm (Some titems)) =
      (if tunnel_complete titems
       then fst (vl_api_l2tvpp_tunnel_add_del_t_handler decode registered slot lm (tunnel_message encode titems)) else lm)
    \<and> map_option (\<lambda>(l, out, calls). (l, calls)) (l2tvpp_session_cli bh fmt slot hw sw lm (Some sitems)) =
      (if session_complete sitems
       then map_option (\<lambda>(l, out, calls). (l, calls))
         (vl_api_l2tvpp_session_add_del_t_handler bh registered slot hw sw lm (session_message sitems))
       else Some (lm, []))
    \<and> (\<lambda>(l, out, calls). (l, calls)) (l2tvpp_route_cli bh fi ai lm (Some ritems)) =
      (case line_prefix ritems of
         Some p \<Rightarrow>
           if Rc_unknown \<notin> set ritems \<and> line_interface ritems \<noteq> - 1
           then (\<lambda>(l, out, calls). (l, calls))
             (vl_api_l2tvpp_route_add_del_t_handler bh prefix_decode registered fi ai lm (route_message prefix_encode p ritems))
           else (lm, [])
       | None \<Rightarrow> (lm, []))
    \<and> (\<lambda>(l, out, calls). (l, calls)) (l2tvpp_handoff_cli n lm (Some hitems)) =
      (case line_switch hitems of
         Some e \<Rightarrow>
           if Item_unknown \<notin> set hitems
           then (\<lambda>(l, out, calls). (l, calls)) (vl_api_l2tvpp_set_handoff_t_handler registered lm
             \<lparr>mh_client_index = 1, mh_context = 7, mh_enable = e\<rparr>)
           else (lm, [])
       | None \<Rightarrow> (lm, []))"
  by (intro conjI tunnel_cli_api [where decode = decode and encode = encode, OF assms(1)] session_cli_api handoff_cli_api
      route_cli_api [where prefix_decode = prefix_decode and prefix_encode = prefix_encode, OF assms(2-4)])

text \<open>A tunnel named without its ports, the peer first and its id given twice; an IPv6 route.\<close>

theorem cli_equals_api_witness:
  "fst (l2tvpp_tunnel_cli 0 ex_init (Some [Tc_peer ip_10_0_0_2, Tc_peer_tid 7, Tc_local_tid 100, Tc_local ip_10_0_0_1,
        Tc_peer_tid 200])) =
    fst (vl_api_l2tvpp_tunnel_add_del_t_handler ip46_of_ip4 (\<lambda>c. True) 0 ex_init
        \<lparr>mt_client_index = 1, mt_context = 7, mt_is_add = True, mt_local_ip = ip_10_0_0_1,
         mt_peer_ip = ip_10_0_0_2, mt_local_port = swap16 1701, mt_peer_port = swap16 1701,
         mt_local_tid = swap16 100, mt_peer_tid = swap16 200\<rparr>)
   \<and> (\<lambda>(l, out, calls). (l, calls)) (l2tvpp_route_cli alist_bihash 0 9 ex_main (Some [Rc_interface 5, Rc_ip6 1 2 64])) =
    (\<lambda>(l, out, calls). (l, calls)) (vl_api_l2tvpp_route_add_del_t_handler alist_bihash id (\<lambda>c. True) 0 9 ex_main
        \<lparr>mr_client_index = 1, mr_context = 7, mr_is_add = True,
         mr_prefix = \<lparr>fp_proto = FIB_PROTOCOL_IP6, fp_addr = 2, fp_addr6 = 1, fp_len = 64\<rparr>, mr_sw_if_index = swap32 5\<rparr>)"
proof -
  let ?t = "[Tc_peer ip_10_0_0_2, Tc_peer_tid 7, Tc_local_tid 100, Tc_local ip_10_0_0_1, Tc_peer_tid 200]"
    and ?r = "[Rc_interface 5, Rc_ip6 1 2 64]"
  have r: "line_prefix ?r = Some \<lparr>fp_proto = FIB_PROTOCOL_IP6, fp_addr = 2, fp_addr6 = 1, fp_len = 64\<rparr>"
    "line_interface ?r = 5" "one_family ?r"
    by (simp_all add: line_prefix_def line_interface_def one_family_def)
  moreover have "\<forall>p. line_prefix ?r = Some p \<longrightarrow> prefix_ok p" by (simp add: r(1) prefix_ok_def)
  moreover have "tunnel_complete ?t"
    by (simp add: tunnel_complete_def line_local_tid_def line_peer_tid_def)
  moreover have "tunnel_message id ?t = \<lparr>mt_client_index = 1, mt_context = 7, mt_is_add = True, mt_local_ip = ip_10_0_0_1,
      mt_peer_ip = ip_10_0_0_2, mt_local_port = swap16 1701, mt_peer_port = swap16 1701,
      mt_local_tid = swap16 100, mt_peer_tid = swap16 200\<rparr>"
    by (simp add: tunnel_message_def line_local_tid_def line_peer_tid_def)
  ultimately show ?thesis
    using cli_equals_api [where decode = ip46_of_ip4 and encode = id and prefix_decode = id and prefix_encode = id
        and ritems = ?r and titems = ?t and registered = "\<lambda>c. True" and bh = alist_bihash and slot = 0 and lm = ex_init]
      cli_equals_api [where decode = ip46_of_ip4 and encode = id and prefix_decode = id and prefix_encode = id
        and ritems = ?r and registered = "\<lambda>c. True" and bh = alist_bihash and lm = ex_main and fi = 0 and ai = 9]
    by (simp add: route_message_def)
qed

text \<open>Numbers that do not fit are narrowed without a word: a tunnel id of 65636 is the id 100.\<close>

lemma cli_narrows_ids:
  "l2tvpp_tunnel_cli slot lm (Some [Tc_local a, Tc_peer b, Tc_local_tid 65636, Tc_peer_tid 200]) =
   l2tvpp_tunnel_cli slot lm (Some [Tc_local a, Tc_peer b, Tc_local_tid 100, Tc_peer_tid 200])"
proof -
  have e: "(65636 :: u16) = 100" by simp
  show ?thesis by (simp add: l2tvpp_tunnel_cli_def tunnel_args_default_def e split: prod.split)
qed

end
