(* ===== verification/Plugin_Lifecycle.thy ===== *)
theory Plugin_Lifecycle
  imports Encap Flow_Dispatch Cli_Commands
begin

text \<open>
  The life of the plugin: start-up (\<open>l2tvpp_init\<close>, the \<open>startup.conf\<close> stanza, \<open>l2tvpp_handoff_default\<close>),
  then control-plane operations, adjacency callbacks, feature switches and packets in any order, as the
  inductive relation \<open>plugin_run\<close> with the calls made into VPP.  \<open>vpp_run\<close> keeps VPP's books of those calls
  and refuses the ones VPP asserts against or that would unbalance them; the invariant is that none is
  refused and that the books agree with the plugin's own state.
\<close>

section \<open>VPP's books\<close>

text \<open>The node UDP port 1701 leads to (\<open>True\<close> for \<open>l2tvpp-handoff\<close>), how often the barrier is held, the
  features switched on, the interfaces with IPv4 and IPv6, the locks of each adjacency, and the node each
  frame queue leads to.\<close>

record vpp_view =
  vv_port :: "bool option"
  vv_barrier :: nat
  vv_features :: "(string \<times> u32) set"
  vv_ip4 :: "u32 set"
  vv_ip6 :: "u32 set"
  vv_locks :: "u32 \<Rightarrow> nat"
  vv_queues :: "u32 \<rightharpoonup> string"

definition vpp_boot :: vpp_view where
  "vpp_boot = \<lparr>vv_port = None, vv_barrier = 0, vv_features = {}, vv_ip4 = {}, vv_ip6 = {}, vv_locks = (\<lambda>_. 0), vv_queues = Map.empty\<rparr>"

definition queue_legal :: "u32 \<Rightarrow> u32 \<Rightarrow> bool" where
  "queue_legal n_threads n \<longleftrightarrow> (\<exists>k. unat n = 2 ^ k) \<and> 9 + unat n_threads \<le> unat n"

definition toggle :: "'a \<Rightarrow> bool \<Rightarrow> 'a set \<Rightarrow> 'a set option" where
  "toggle x on A = (if (x \<in> A) = on then None else Some (if on then insert x A else A - {x}))"

text \<open>\<open>running\<close>: the workers are running, so the port may be moved only under the barrier.\<close>

fun vpp_accept :: "u32 \<Rightarrow> bool \<Rightarrow> vpp_view \<Rightarrow> vpp_call \<Rightarrow> vpp_view option" where
  "vpp_accept nt running v Udp_register_dst_port_handoff =
     (if running \<and> vv_barrier v = 0 then None else Some (v\<lparr>vv_port := Some True\<rparr>))"
| "vpp_accept nt running v Udp_register_dst_port_input =
     (if running \<and> vv_barrier v = 0 then None else Some (v\<lparr>vv_port := Some False\<rparr>))"
| "vpp_accept nt running v Vlib_worker_thread_barrier_sync = Some (v\<lparr>vv_barrier := Suc (vv_barrier v)\<rparr>)"
| "vpp_accept nt running v Vlib_worker_thread_barrier_release =
     (if vv_barrier v = 0 then None else Some (v\<lparr>vv_barrier := vv_barrier v - 1\<rparr>))"
| "vpp_accept nt running v (Vnet_feature_enable_disable f sw e) =
     map_option (\<lambda>A. v\<lparr>vv_features := A\<rparr>) (toggle (f, sw) e (vv_features v))"
| "vpp_accept nt running v (Ip4_sw_interface_enable_disable sw e) =
     map_option (\<lambda>A. v\<lparr>vv_ip4 := A\<rparr>) (toggle sw e (vv_ip4 v))"
| "vpp_accept nt running v (Ip6_sw_interface_enable_disable sw e) =
     map_option (\<lambda>A. v\<lparr>vv_ip6 := A\<rparr>) (toggle sw e (vv_ip6 v))"
| "vpp_accept nt running v (Adj_nbr_add_or_lock nh sw ai) =
     Some (v\<lparr>vv_locks := (vv_locks v)(ai := Suc (vv_locks v ai))\<rparr>)"
| "vpp_accept nt running v (Adj_unlock ai) =
     (if vv_locks v ai = 0 then None else Some (v\<lparr>vv_locks := (vv_locks v)(ai := vv_locks v ai - 1)\<rparr>))"
| "vpp_accept nt running v (Vlib_frame_queue_main_init node n fqi) =
     (if queue_legal nt n then Some (v\<lparr>vv_queues := (vv_queues v)(fqi \<mapsto> node)\<rparr>) else None)"
| "vpp_accept nt running v _ = Some v"

fun vpp_run :: "u32 \<Rightarrow> bool \<Rightarrow> vpp_view \<Rightarrow> vpp_call list \<Rightarrow> vpp_view option" where
  "vpp_run nt running v [] = Some v"
| "vpp_run nt running v (c # cs) = Option.bind (vpp_accept nt running v c) (\<lambda>v'. vpp_run nt running v' cs)"

lemma vpp_run_append:
  "vpp_run nt running v (xs @ ys) = Option.bind (vpp_run nt running v xs) (\<lambda>v'. vpp_run nt running v' ys)"
  by (induction xs arbitrary: v) auto

section \<open>The plugin\<close>

record 'h plugin =
  pl_main :: "'h l2tvpp_main"
  pl_flow :: l2tvpp_flow_handoff_main
  pl_encap :: "u32 set"

text \<open>The initialiser of the global \<open>l2tvpp_flow_handoff_main\<close>.\<close>

definition l2tvpp_flow_handoff_main_init :: l2tvpp_flow_handoff_main where
  "l2tvpp_flow_handoff_main_init = \<lparr>fm_if_data = [], fm_frame_queue_index = - 1\<rparr>"

inductive plugin_step ::
  "'h bihash_8_8 \<Rightarrow> (u32 \<Rightarrow> bool) \<Rightarrow> (u32 \<Rightarrow> nat) \<Rightarrow> u32 \<Rightarrow> u32 \<Rightarrow> 'h plugin \<Rightarrow> vpp_call list \<Rightarrow> 'h plugin \<Rightarrow> bool"
  for bh :: "'h bihash_8_8" and is_pow2 max_log2 n_workers n_threads where
  tunnel: "pool_is_free_index (tunnels (pl_main p)) slot \<Longrightarrow> (is_add \<longrightarrow> tid_not_shared (pl_main p) pip pp tid) \<Longrightarrow>
     l2tvpp_tunnel_add_del slot (pl_main p) lip pip lp pp tid ptid is_add = (rv, lm', out) \<Longrightarrow>
     plugin_step bh is_pow2 max_log2 n_workers n_threads p [] (p\<lparr>pl_main := lm'\<rparr>)"
| session: "pool_is_free_index (sessions (pl_main p)) slot \<Longrightarrow> slot \<noteq> - 1 \<Longrightarrow>
     session_of_sw_if_index (pl_main p) sw = None \<Longrightarrow>
     l2tvpp_session_add_del bh slot hw sw (pl_main p) ti sid psid acfc pfc is_add = Some (rv, lm', out, calls) \<Longrightarrow>
     plugin_step bh is_pow2 max_log2 n_workers n_threads p calls (p\<lparr>pl_main := lm'\<rparr>)"
| route: "l2tvpp_route_add_del bh fi ai (pl_main p) pfx sw is_add = (rv, lm', calls) \<Longrightarrow>
     plugin_step bh is_pow2 max_log2 n_workers n_threads p calls (p\<lparr>pl_main := lm'\<rparr>)"
| handoff: "l2tvpp_set_handoff (pl_main p) e = (rv, lm', calls) \<Longrightarrow>
     plugin_step bh is_pow2 max_log2 n_workers n_threads p calls (p\<lparr>pl_main := lm'\<rparr>)"
| inner_checksum: "l2tvpp_inner_checksum_cli (pl_main p) line = (lm', out) \<Longrightarrow>
     plugin_step bh is_pow2 max_log2 n_workers n_threads p [] (p\<lparr>pl_main := lm'\<rparr>)"
| adjacency: "l2tvpp_update_adj cs (pl_main p) sw ai link = Some (lm', calls) \<Longrightarrow>
     plugin_step bh is_pow2 max_log2 n_workers n_threads p calls (p\<lparr>pl_main := lm'\<rparr>)"
| admin: "plugin_step bh is_pow2 max_log2 n_workers n_threads p (l2tvpp_admin_up_down hw up) p"
| flow: "\<forall>bm. bitmap = Some bm \<longrightarrow> sorted_wrt (<) bm \<Longrightarrow> fqi \<noteq> - 1 \<Longrightarrow>
     fqi \<noteq> handoff_frame_queue_index (pl_main p) \<Longrightarrow>
     l2tvpp_flow_handoff_enable_disable is_pow2 max_log2 hardware n_workers n_threads fqi (pl_main p) (pl_flow p)
       sw bitmap fastpath spray enable = Some (rv, lm', fm', calls) \<Longrightarrow>
     plugin_step bh is_pow2 max_log2 n_workers n_threads p calls (p\<lparr>pl_main := lm', pl_flow := fm'\<rparr>)"
| encap: "l2tvpp_encap_fastpath_enable_disable hardware (pl_encap p) sw e = (rv, enabled', calls) \<Longrightarrow>
     plugin_step bh is_pow2 max_log2 n_workers n_threads p calls (p\<lparr>pl_encap := enabled'\<rparr>)"
| packets: "l2tvpp_flow_handoff_node crc csum_valid is_pow2 enqueue (pl_main p) (pl_flow p) this_thread frame = Some eff \<Longrightarrow>
     plugin_step bh is_pow2 max_log2 n_workers n_threads p [] (p\<lparr>pl_flow := fe_main eff\<rparr>)"

inductive plugin_run ::
  "'h bihash_8_8 \<Rightarrow> (u32 \<Rightarrow> bool) \<Rightarrow> (u32 \<Rightarrow> nat) \<Rightarrow> u32 \<Rightarrow> u32 \<Rightarrow> 'h plugin \<Rightarrow> vpp_call list \<Rightarrow> vpp_call list \<Rightarrow> bool"
  for bh :: "'h bihash_8_8" and is_pow2 max_log2 n_workers n_threads where
  start: "l2tvpp_init bh fsrc unset = (lm0, c0) \<Longrightarrow> l2tvpp_config lm0 items = Inr lm1 \<Longrightarrow>
     l2tvpp_handoff_default is_pow2 max_log2 n_threads n_workers fqi lm1 = Some (lm2, c1) \<Longrightarrow>
     plugin_run bh is_pow2 max_log2 n_workers n_threads
       \<lparr>pl_main = lm2, pl_flow = l2tvpp_flow_handoff_main_init, pl_encap = {}\<rparr> (c0 @ c1) []"
| step: "plugin_run bh is_pow2 max_log2 n_workers n_threads p boot calls \<Longrightarrow>
     plugin_step bh is_pow2 max_log2 n_workers n_threads p cs p' \<Longrightarrow>
     plugin_run bh is_pow2 max_log2 n_workers n_threads p' boot (calls @ cs)"

section \<open>The invariant\<close>

definition flow_enabled :: "l2tvpp_flow_handoff_main \<Rightarrow> u32 \<Rightarrow> bool" where
  "flow_enabled fm sw \<longleftrightarrow> unat sw < length (fm_if_data fm) \<and> fi_enabled (fm_if_data fm ! unat sw)"

definition plugin_features :: "'h plugin \<Rightarrow> (string \<times> u32) set" where
  "plugin_features p = Pair ''l2tvpp-flow-handoff'' ` {sw. flow_enabled (pl_flow p) sw}
     \<union> Pair ''l2tvpp-encap-fastpath'' ` pl_encap p"

definition session_interfaces :: "'h l2tvpp_main \<Rightarrow> u32 set" where
  "session_interfaces lm = {sw. session_of_sw_if_index lm sw \<noteq> None}"

definition main_agrees :: "'h bihash_8_8 \<Rightarrow> 'h l2tvpp_main \<Rightarrow> vpp_view \<Rightarrow> bool" where
  "main_agrees bh lm v \<longleftrightarrow> vv_port v = Some (handoff_enabled lm) \<and> vv_barrier v = 0
     \<and> vv_ip4 v = session_interfaces lm \<and> vv_ip6 v = session_interfaces lm
     \<and> (\<forall>ai. card (cached_keys bh lm ai) \<le> vv_locks v ai)"

definition if_ok :: "u32 \<Rightarrow> l2tvpp_flow_handoff_if \<Rightarrow> bool" where
  "if_ok n_workers ifd \<longleftrightarrow> length (fi_workers ifd) < 2 ^ 32
     \<and> (\<forall>w \<in> set (fi_workers ifd). 1 \<le> unat w \<and> unat w \<le> unat n_workers)"

definition flow_ok :: "u32 \<Rightarrow> l2tvpp_flow_handoff_main \<Rightarrow> bool" where
  "flow_ok n_workers fm \<longleftrightarrow> (\<forall>ifd \<in> set (fm_if_data fm). if_ok n_workers ifd)
     \<and> (fm_if_data fm \<noteq> [] \<longrightarrow> fm_frame_queue_index fm \<noteq> - 1)"

definition main_ok :: "'h bihash_8_8 \<Rightarrow> u32 \<Rightarrow> 'h l2tvpp_main \<Rightarrow> bool" where
  "main_ok bh n_threads lm \<longleftrightarrow> objects_inv bh lm \<and> queue_legal n_threads (handoff_queue_nelts lm)"


section \<open>The main structure: sessions, routes and handoff\<close>

lemma main_agrees_cong:
  assumes "main_agrees bh lm v" and "handoff_enabled lm' = handoff_enabled lm"
    and "session_index_by_sw_if_index lm' = session_index_by_sw_if_index lm"
    and "encap_adj_by_ip4 lm' = encap_adj_by_ip4 lm" and "encap_adj_init lm' = encap_adj_init lm"
  shows "main_agrees bh lm' v"
proof -
  have "session_interfaces lm' = session_interfaces lm" "cached_keys bh lm' = cached_keys bh lm"
    using assms(3-5) by (simp_all add: session_interfaces_def session_of_sw_if_index_def cached_keys_def fun_eq_iff)
  with assms(1,2) show ?thesis by (simp add: main_agrees_def)
qed

lemma set_handoff_accepted:
  assumes "main_agrees bh lm v" and "l2tvpp_set_handoff lm e = (rv, lm', calls)"
  shows "\<exists>v'. vpp_run nt True v calls = Some v' \<and> main_agrees bh lm' v' \<and> vv_features v' = vv_features v"
  using assms
  by (auto simp: l2tvpp_set_handoff_def Let_def main_agrees_def session_interfaces_def cached_keys_def
      session_of_sw_if_index_def split: if_splits)

lemma session_add_accepted:
  assumes "main_agrees bh lm v" and "session_of_sw_if_index lm sw = None" and "slot \<noteq> - 1"
    and "l2tvpp_session_add bh slot hw sw lm ti t sid psid acfc pfc = (lm', calls)"
  shows "\<exists>v'. vpp_run nt True v calls = Some v' \<and> main_agrees bh lm' v' \<and> vv_features v' = vv_features v"
proof -
  have "session_index_by_sw_if_index lm' = vec_store (session_index_by_sw_if_index lm) sw slot"
    using assms(4) by (auto simp: l2tvpp_session_add_def Let_def)
  then have "session_interfaces lm' = insert sw (session_interfaces lm)"
    unfolding session_interfaces_def by (auto simp: session_of_vec_store [OF _ assms(3)])
  moreover have "sw \<notin> session_interfaces lm" using assms(2) by (simp add: session_interfaces_def)
  ultimately show ?thesis
    using assms(1,4) by (auto simp: l2tvpp_session_add_def Let_def main_agrees_def toggle_def cached_keys_def)
qed

lemma session_del_accepted:
  assumes "main_agrees bh lm v" and "session_of_sw_if_index lm (s_sw_if_index s) \<noteq> None"
    and "l2tvpp_session_del bh lm ti t key si s = Some (lm', calls)"
  shows "\<exists>v'. vpp_run nt True v calls = Some v' \<and> main_agrees bh lm' v' \<and> vv_features v' = vv_features v"
proof -
  have "session_index_by_sw_if_index lm' = (session_index_by_sw_if_index lm)[unat (s_sw_if_index s) := - 1]"
    using assms(3) by (auto simp: l2tvpp_session_del_def Let_def split: if_splits)
  then have "session_interfaces lm' = session_interfaces lm - {s_sw_if_index s}"
    unfolding session_interfaces_def by (auto simp: session_of_clear)
  moreover have "s_sw_if_index s \<in> session_interfaces lm" using assms(2) by (simp add: session_interfaces_def)
  ultimately show ?thesis
    using assms(1,3)
    by (auto simp: l2tvpp_session_del_def Let_def main_agrees_def toggle_def cached_keys_def split: if_splits)
qed

lemma session_accepted:
  assumes "main_agrees bh lm v" and "objects_inv bh lm" and "session_of_sw_if_index lm sw = None" and "slot \<noteq> - 1"
    and "l2tvpp_session_add_del bh slot hw sw lm ti sid psid acfc pfc is_add = Some (rv, lm', out, calls)"
  shows "\<exists>v'. vpp_run nt True v calls = Some v' \<and> main_agrees bh lm' v' \<and> vv_features v' = vv_features v"
proof -
  consider "lm' = lm" "calls = []"
    | t where "l2tvpp_session_add bh slot hw sw lm ti t sid psid acfc pfc = (lm', calls)"
    | t key si s where "pool_elt (sessions lm) si = Some s" "l2tvpp_session_del bh lm ti t key si s = Some (lm', calls)"
    using assms(5)
    by (auto simp: l2tvpp_session_add_del_def Let_def bind_eq_Some_conv split: option.splits if_splits prod.splits)
  then show ?thesis
  proof cases
    case 1
    with assms(1) show ?thesis by simp
  next
    case 2
    show ?thesis by (rule session_add_accepted [OF assms(1,3,4) 2])
  next
    case 3
    then have "session_of_sw_if_index lm (s_sw_if_index s) \<noteq> None"
      using assms(2) by (auto simp: objects_inv_def inv_sessions_def session_ok_def)
    from session_del_accepted [OF assms(1) this 3(2)] show ?thesis .
  qed
qed

lemma encap_adj_calls:
  assumes "bihash_ok bh" and "l2tvpp_encap_adj_add_del bh a lm pfx sw is_add = (lm', calls)"
  obtains "calls = []" | "calls = [Adj_nbr_add_or_lock (fp_addr pfx) sw a]"
    | ai where "calls = [Adj_unlock ai]" and "0 < card (cached_keys bh lm ai)"
proof (cases "calls = [] \<or> calls = [Adj_nbr_add_or_lock (fp_addr pfx) sw a]")
  case False
  define lm1 where "lm1 = l2tvpp_encap_adj_init bh lm"
  from False assms(2) obtain v where v: "bh_search bh (encap_adj_by_ip4 lm1) (ucast (fp_addr pfx)) = Some v"
    and c: "calls = [Adj_unlock (ucast v)]"
    by (auto simp: l2tvpp_encap_adj_add_del_def Let_def lm1_def split: if_splits option.splits prod.splits)
  have "(ucast (fp_addr pfx) :: u64) \<in> cached_keys bh lm1 (ucast v)"
    using v by (simp add: cached_keys_def lm1_def)
  then have "0 < card (cached_keys bh lm (ucast v))"
    unfolding lm1_def cached_keys_init(1) [OF assms(1)] by (auto simp: card_gt_0_iff)
  from that(3) [OF c this] show thesis .
qed (use that in blast)

lemma route_accepted:
  assumes "bihash_ok bh" and "main_agrees bh lm v"
    and "l2tvpp_route_add_del bh fi a lm pfx sw is_add = (rv, lm', calls)"
  shows "\<exists>v'. vpp_run nt True v calls = Some v' \<and> main_agrees bh lm' v' \<and> vv_features v' = vv_features v"
proof (cases "session_of_sw_if_index lm sw = None")
  case True
  with assms(2,3) show ?thesis by (simp add: l2tvpp_route_add_del_def)
next
  case False
  then obtain cs fc where e: "l2tvpp_encap_adj_add_del bh a lm pfx sw is_add = (lm', cs)" and calls: "calls = fc # cs"
    and fc: "\<And>v. vpp_accept nt True v fc = Some v"
    using assms(3) by (auto simp: l2tvpp_route_add_del_def Let_def split: prod.splits if_splits)
  note fr = encap_adj_frame [OF e]
  have base: "handoff_enabled lm' = handoff_enabled lm" "session_interfaces lm' = session_interfaces lm"
    using e fr by (auto simp: l2tvpp_encap_adj_add_del_def l2tvpp_encap_adj_init_def Let_def session_interfaces_def
        session_of_sw_if_index_def split: if_splits option.splits prod.splits)
  have cards: "int (card (cached_keys bh lm' ai)) \<le> int (vv_locks v ai) + adj_locks cs ai" for ai
    using encap_adj_cached [OF assms(1) e, of ai] assms(2) by (auto simp: main_agrees_def intro: order_trans)
  show ?thesis
  proof (rule encap_adj_calls [OF assms(1) e], goal_cases)
    case 1
    with base cards assms(2) show ?case by (simp add: calls fc main_agrees_def adj_locks_def)
  next
    case 2
    then have "card (cached_keys bh lm' x) \<le> ((vv_locks v)(a := Suc (vv_locks v a))) x" for x
      using cards [of x] by (auto simp: adj_locks_def split: if_splits)
    with 2 base assms(2) show ?case by (simp add: calls fc main_agrees_def)
  next
    case (3 ai)
    have pos: "0 < vv_locks v ai" using 3(2) assms(2) by (auto simp: main_agrees_def intro: less_le_trans)
    with 3(1) have "card (cached_keys bh lm' x) \<le> ((vv_locks v)(ai := vv_locks v ai - 1)) x" for x
      using cards [of x] by (auto simp: adj_locks_def split: if_splits)
    with 3(1) pos base assms(2) show ?case by (simp add: calls fc main_agrees_def)
  qed
qed


section \<open>The flow handoff\<close>

lemma queue_nelts_stable:
  assumes "pow2_ok is_pow2" and "queue_legal nt (handoff_queue_nelts lm)"
  shows "l2tvpp_handoff_queue_nelts is_pow2 max_log2 nt lm = Some (handoff_queue_nelts lm, lm)"
proof -
  let ?n = "handoff_queue_nelts lm"
  obtain k where k: "unat ?n = 2 ^ k" and min: "9 + unat nt \<le> unat ?n" using assms(2) by (auto simp: queue_legal_def)
  have lt: "(2 :: nat) ^ k < 2 ^ 32" using unat_u32_less [of ?n] k by simp
  then have k32: "k < 32" by (simp only: power_strict_increasing_iff)
  have "unat (9 + nt) = 9 + unat nt"
    using min unat_u32_less [of ?n] by (simp add: unat_word_ariths)
  then have "\<not> ?n < 8 + 1 + nt" using min by (simp add: word_less_nat_alt)
  moreover have "?n = push_bit k 1" by (simp add: word_unat_eq_iff k k32)
  then have "is_pow2 ?n" using assms(1) k32 by (auto simp: pow2_ok_def)
  ultimately show ?thesis by (simp add: l2tvpp_handoff_queue_nelts_def Let_def)
qed

definition flow_grow :: "l2tvpp_flow_handoff_if list \<Rightarrow> u32 \<Rightarrow> l2tvpp_flow_handoff_if list" where
  "flow_grow ifs sw = ifs @ replicate (Suc (unat sw) - length ifs) flow_if_zero"

lemma flow_grow_simps:
  "unat sw < length (flow_grow ifs sw)" "length ifs \<le> length (flow_grow ifs sw)"
  "set (flow_grow ifs sw) \<subseteq> insert flow_if_zero (set ifs)"
  by (auto simp: flow_grow_def)

lemma flow_enabled_grow:
  "flow_enabled (fm\<lparr>fm_if_data := flow_grow (fm_if_data fm) sw, fm_frame_queue_index := q\<rparr>) x = flow_enabled fm x"
  "fi_enabled (flow_grow (fm_if_data fm) sw ! unat sw) = flow_enabled fm sw"
  by (auto simp: flow_enabled_def flow_grow_def nth_append flow_if_zero_def)

lemma flow_enabled_set:
  "flow_enabled (fm\<lparr>fm_if_data := (flow_grow (fm_if_data fm) sw)[unat sw := ifd], fm_frame_queue_index := q\<rparr>) x =
     (if x = sw then fi_enabled ifd else flow_enabled fm x)"
  using flow_enabled_grow(1) [where fm = fm and sw = sw and q = q and x = x] flow_grow_simps(1) [of sw "fm_if_data fm"]
  by (auto simp: flow_enabled_def nth_list_update word_unat_eq_iff [of x sw])

definition bitmap_threads :: "bool \<Rightarrow> nat list option \<Rightarrow> u16 list" where
  "bitmap_threads enable bitmap =
     (case bitmap of Some bm \<Rightarrow> if enable then map (\<lambda>w. of_nat (1 + w)) bm else [] | None \<Rightarrow> [])"

lemma bitmap_threads_ok:
  assumes "\<forall>bm. bitmap = Some bm \<longrightarrow> sorted_wrt (<) bm" and "unat n_workers < 65536"
    and "enable \<Longrightarrow> \<not> (case bitmap of Some bm \<Rightarrow> unat n_workers \<le> bitmap_last_set bm | None \<Rightarrow> False)"
    and "fi_workers ifd = bitmap_threads enable bitmap"
  shows "if_ok n_workers ifd"
proof (cases "bitmap_threads enable bitmap = []")
  case True
  then show ?thesis by (simp add: if_ok_def assms(4))
next
  case False
  then obtain bm where bm: "bitmap = Some bm" "enable" "bm \<noteq> []"
    by (auto simp: bitmap_threads_def split: option.splits if_splits)
  then have "last bm < unat n_workers" using assms(3) by (simp add: bitmap_last_set_def)
  moreover have sorted: "sorted_wrt (<) bm" using assms(1) bm(1) by simp
  ultimately have bnd: "w < unat n_workers" if "w \<in> set bm" for w
    using sorted_last_bound [OF _ bm(3) _ that] by (simp add: strict_sorted_iff)
  then have "set bm \<subseteq> {..<unat n_workers}" by blast
  then have "length bm \<le> unat n_workers"
    using sorted subset_eq_atLeast0_lessThan_card [of "set bm" "unat n_workers"]
    by (auto simp: strict_sorted_iff distinct_card lessThan_atLeast0)
  moreover have "unat (of_nat (1 + w) :: u16) = Suc w" if "w \<in> set bm" for w
    using bnd [OF that] assms(2) by (simp only: unat_of_nat) simp
  ultimately show ?thesis
    using bnd assms(2) bm by (auto simp: if_ok_def assms(4) bitmap_threads_def Suc_le_eq)
qed

text \<open>The frame queue is created once: \<open>q\<close> is its index afterwards, \<open>qs\<close> the call made.\<close>

definition queue_created :: "u32 \<Rightarrow> u32 \<Rightarrow> l2tvpp_flow_handoff_main \<Rightarrow> u32 \<Rightarrow> vpp_call list \<Rightarrow> bool" where
  "queue_created fqi n fm q qs \<longleftrightarrow> q \<noteq> - 1 \<and> (qs = [] \<and> q = fm_frame_queue_index fm
     \<or> qs = [Vlib_frame_queue_main_init ''ethernet-input'' n q] \<and> q = fqi)"

lemma flow_switch_cases:
  assumes "pow2_ok is_pow2" and "queue_legal nt (handoff_queue_nelts lm)" and "fqi \<noteq> - 1"
    and "l2tvpp_flow_handoff_enable_disable is_pow2 max_log2 hardware n_workers nt fqi lm fm
       sw bitmap fastpath spray enable = Some (rv, lm', fm', calls)"
  obtains (refused) "lm' = lm" "fm' = fm" "calls = []"
  | (off) q qs where "queue_created fqi (handoff_queue_nelts lm) fm q qs" "calls = qs"
      "lm' = lm" "fm' = fm\<lparr>fm_if_data := flow_grow (fm_if_data fm) sw, fm_frame_queue_index := q\<rparr>"
  | (switched) q qs ifd hs rv' where "queue_created fqi (handoff_queue_nelts lm) fm q qs"
      "fm' = fm\<lparr>fm_if_data := (flow_grow (fm_if_data fm) sw)[unat sw := ifd], fm_frame_queue_index := q\<rparr>"
      "fi_enabled ifd = enable" "fi_workers ifd = bitmap_threads enable bitmap"
      "\<not> (enable \<and> (case bitmap of Some bm \<Rightarrow> unat n_workers \<le> bitmap_last_set bm | None \<Rightarrow> False))"
      "calls = qs @ [Vlib_worker_thread_barrier_sync]
         @ (if flow_enabled fm sw \<noteq> enable then [Vnet_feature_enable_disable ''l2tvpp-flow-handoff'' sw enable] else [])
         @ [Vlib_worker_thread_barrier_release] @ hs"
      "if enable then l2tvpp_set_handoff lm 0 = (rv', lm', hs) else lm' = lm \<and> hs = []"
proof -
  obtain q qs where q: "flow_queue_init is_pow2 max_log2 nt fqi lm fm = Some (lm, fm\<lparr>fm_frame_queue_index := q\<rparr>, qs)"
    "queue_created fqi (handoff_queue_nelts lm) fm q qs"
  proof (cases "fm_frame_queue_index fm = - 1")
    case True
    then show thesis
      using that [of fqi] queue_nelts_stable [OF assms(1,2), of max_log2] assms(3)
      by (simp add: flow_queue_init_def queue_created_def)
  next
    case False
    then show thesis using that [of "fm_frame_queue_index fm"] by (simp add: flow_queue_init_def queue_created_def)
  qed
  have grow: "fm_if_data fm @ replicate (Suc (unat sw) - length (fm_if_data fm)) flow_if_zero =
      flow_grow (fm_if_data fm) sw" by (simp add: flow_grow_def)
  let ?bad = "enable \<and> (case bitmap of Some bm \<Rightarrow> unat n_workers \<le> bitmap_last_set bm | None \<Rightarrow> False)"
  let ?grown = "fm\<lparr>fm_frame_queue_index := q, fm_if_data := flow_grow (fm_if_data fm) sw\<rparr>"
  let ?ifd = "\<lparr>fi_workers = bitmap_threads enable bitmap, fi_rr = 0, fi_enabled = enable,
    fi_fastpath = enable \<and> fastpath, fi_spray = enable \<and> spray\<rparr>"
  let ?set = "fm\<lparr>fm_frame_queue_index := q, fm_if_data := (flow_grow (fm_if_data fm) sw)[unat sw := ?ifd]\<rparr>"
  let ?cs = "qs @ [Vlib_worker_thread_barrier_sync]
    @ (if flow_enabled fm sw \<noteq> enable then [Vnet_feature_enable_disable ''l2tvpp-flow-handoff'' sw enable] else [])
    @ [Vlib_worker_thread_barrier_release]"
  obtain rv0 lm0 hs0 where h: "l2tvpp_set_handoff lm 0 = (rv0, lm0, hs0)" by (metis surj_pair)
  have run: "l2tvpp_flow_handoff_enable_disable is_pow2 max_log2 hardware n_workers nt fqi lm fm
      sw bitmap fastpath spray enable =
    (if \<not> hardware sw then Some (VNET_API_ERROR_INVALID_SW_IF_INDEX, lm, fm, [])
     else if ?bad then Some (VNET_API_ERROR_INVALID_WORKER, lm, fm, [])
     else if \<not> enable \<and> \<not> flow_enabled fm sw then Some (RV_OK, lm, ?grown, qs)
     else if enable then Some (RV_OK, lm0, ?set, ?cs @ hs0) else Some (RV_OK, lm, ?set, ?cs))"
    unfolding l2tvpp_flow_handoff_enable_disable_def q(1) bitmap_threads_def
    by (simp add: Let_def grow flow_enabled_grow(2) h)
  consider "lm' = lm" "fm' = fm" "calls = []" | "lm' = lm" "fm' = ?grown" "calls = qs"
    | "\<not> ?bad" "fm' = ?set" "enable" "lm' = lm0" "calls = ?cs @ hs0"
    | "\<not> ?bad" "fm' = ?set" "\<not> enable" "lm' = lm" "calls = ?cs"
    using assms(4) unfolding run by (auto split: if_splits)
  then show thesis
  proof cases
    case 1
    then show thesis by (rule refused)
  next
    case 2
    then show thesis using q by (intro off [of q qs]) simp_all
  next
    case 3
    then show thesis using q h by (intro switched [of q qs ?ifd hs0 rv0]) simp_all
  next
    case 4
    then show thesis using q by (intro switched [of q qs ?ifd "[]" RV_OK]) simp_all
  qed
qed


lemma main_agrees_barrier: "main_agrees bh lm v \<Longrightarrow> main_agrees bh lm (v\<lparr>vv_features := A, vv_barrier := 0, vv_queues := Q\<rparr>)"
  by (simp add: main_agrees_def)

lemma flow_switch_accepted:
  assumes "pow2_ok is_pow2" and "main_ok bh nt lm" and "main_agrees bh lm v" and "flow_ok n_workers fm"
    and "unat n_workers < 65536" and "fqi \<noteq> - 1" and "\<forall>bm. bitmap = Some bm \<longrightarrow> sorted_wrt (<) bm"
    and "vv_features v = Pair ''l2tvpp-flow-handoff'' ` {x. flow_enabled fm x} \<union> R" and "\<forall>x. (''l2tvpp-flow-handoff'', x) \<notin> R"
    and "l2tvpp_flow_handoff_enable_disable is_pow2 max_log2 hardware n_workers nt fqi lm fm
       sw bitmap fastpath spray enable = Some (rv, lm', fm', calls)"
  shows "\<exists>v'. vpp_run nt True v calls = Some v' \<and> main_agrees bh lm' v'
    \<and> vv_features v' = Pair ''l2tvpp-flow-handoff'' ` {x. flow_enabled fm' x} \<union> R
    \<and> main_ok bh nt lm' \<and> flow_ok n_workers fm'"
proof -
  have legal: "queue_legal nt (handoff_queue_nelts lm)" using assms(2) by (simp add: main_ok_def)
  then have qs: "\<exists>Q. vpp_run nt True v' qs = Some (v'\<lparr>vv_queues := Q\<rparr>)" "q \<noteq> - 1"
    if "queue_created fqi (handoff_queue_nelts lm) fm q qs" for q qs v'
    using that by (auto simp: queue_created_def intro: exI [of _ "vv_queues v'"])
  have zero: "if_ok n_workers flow_if_zero" by (simp add: if_ok_def flow_if_zero_def)
  have grown: "\<forall>ifd \<in> set (flow_grow (fm_if_data fm) sw). if_ok n_workers ifd"
    using assms(4) zero flow_grow_simps(3) [of "fm_if_data fm" sw] by (auto simp: flow_ok_def)
  show ?thesis
  proof (rule flow_switch_cases [OF assms(1) legal assms(6,10)], goal_cases)
    case 1
    with assms show ?case by simp
  next
    case (2 q qs)
    from qs(1) [OF 2(1), of v] obtain Q where "vpp_run nt True v qs = Some (v\<lparr>vv_queues := Q\<rparr>)" by blast
    with 2 show ?case using assms(2,3,8) qs(2) [OF 2(1)] grown
      by (simp add: flow_ok_def flow_enabled_grow main_agrees_def)
  next
    case (3 q qs ifd hs rv')
    have fm': "flow_ok n_workers fm'"
      using grown bitmap_threads_ok [OF assms(7,5) _ 3(4)] 3(5) qs(2) [OF 3(1)]
      by (auto simp: 3(2) flow_ok_def dest!: set_update_subset_insert [THEN subsetD])
    have en: "{x. flow_enabled fm' x} = (if enable then insert sw {x. flow_enabled fm x} else {x. flow_enabled fm x} - {sw})"
      using 3(3) by (auto simp: 3(2) flow_enabled_set)
    define A where "A = Pair ''l2tvpp-flow-handoff'' ` {x. flow_enabled fm' x} \<union> R"
    have b0: "vv_barrier v = 0" using assms(3) by (simp add: main_agrees_def)
    have diff: "Pair ''l2tvpp-flow-handoff'' ` X \<union> R - {(''l2tvpp-flow-handoff'', sw)} =
        Pair ''l2tvpp-flow-handoff'' ` (X - {sw}) \<union> R" for X
      using assms(9) by auto
    define mid where "mid = [Vlib_worker_thread_barrier_sync]
      @ (if flow_enabled fm sw \<noteq> enable then [Vnet_feature_enable_disable ''l2tvpp-flow-handoff'' sw enable] else [])
      @ [Vlib_worker_thread_barrier_release]"
    have calls: "calls = qs @ mid @ hs" by (simp add: 3(6) mid_def)
    from qs(1) [OF 3(1), of v] obtain Q where Q: "vpp_run nt True v qs = Some (v\<lparr>vv_queues := Q\<rparr>)" by blast
    let ?v = "v\<lparr>vv_features := A, vv_barrier := 0, vv_queues := Q\<rparr>"
    have "vpp_run nt True (v\<lparr>vv_queues := Q\<rparr>) mid = Some ?v"
      unfolding mid_def using assms(8,9) b0 by (cases enable; cases "flow_enabled fm sw") (auto simp: toggle_def A_def en image_iff diff)
    then have run: "vpp_run nt True v calls = vpp_run nt True ?v hs"
      using Q by (simp add: calls vpp_run_append)
    note ag = main_agrees_barrier [OF assms(3), of Q A]
    show ?case
    proof (cases enable)
      case True
      with 3(7) have h: "l2tvpp_set_handoff lm 0 = (rv', lm', hs)" by simp
      then have "handoff_queue_nelts lm' = handoff_queue_nelts lm"
        by (auto simp: l2tvpp_set_handoff_def Let_def split: if_splits)
      with set_handoff_accepted [OF ag h, of nt] set_handoff_inv [OF _ h, of bh] assms(2) fm' show ?thesis
        by (auto simp: run main_ok_def A_def)
    next
      case False
      with 3(7) ag assms(2) fm' show ?thesis by (simp add: run A_def)
    qed
  qed
qed

text \<open>Packets move only the round-robin cursors.\<close>

lemma flow_sort_if_data [simp]: "fl_if_data (flow_sort this_thread w c st) = fl_if_data st"
  by (simp add: flow_sort_def Let_def)

lemma flow_packet_config:
  assumes "flow_packet crc csum_valid is_pow2 lm this_thread b st = Some st'"
  shows "map (fi_rr_update (\<lambda>_. 0)) (fl_if_data st') = map (fi_rr_update (\<lambda>_. 0)) (fl_if_data st)"
proof -
  have "\<exists>ifd kind hash w ifd'. vec_elt (fl_if_data st) (b_rx b) = Some ifd
      \<and> flow_thread is_pow2 ifd this_thread kind hash = Some (w, ifd')
      \<and> fl_if_data st' = (fl_if_data st)[unat (b_rx b) := ifd']"
    using assms by (fastforce simp: flow_packet_def bind_eq_Some_conv Let_def split: if_splits)
  then obtain ifd kind hash w ifd' where i: "vec_elt (fl_if_data st) (b_rx b) = Some ifd"
    and t: "flow_thread is_pow2 ifd this_thread kind hash = Some (w, ifd')"
    and st': "fl_if_data st' = (fl_if_data st)[unat (b_rx b) := ifd']" by blast
  have "ifd' = ifd \<or> ifd' = ifd\<lparr>fi_rr := fi_rr ifd + 1\<rparr>"
    using t by (auto simp: flow_thread_def Let_def split: if_splits)
  then have "ifd'\<lparr>fi_rr := 0\<rparr> = ifd\<lparr>fi_rr := 0\<rparr>" by auto
  with i show ?thesis
    by (simp add: st' map_update vec_elt_def split: if_splits) (metis list_update_id length_map nth_map)
qed

lemma flow_loop_config:
  "flow_loop_run crc csum_valid is_pow2 lm this_thread frame st = Some st' \<Longrightarrow>
     map (fi_rr_update (\<lambda>_. 0)) (fl_if_data st') = map (fi_rr_update (\<lambda>_. 0)) (fl_if_data st)"
  by (induction frame arbitrary: st) (auto simp: bind_eq_Some_conv dest: flow_packet_config)

lemma flow_config_cong:
  assumes "map (fi_rr_update (\<lambda>_. 0)) (fm_if_data fm') = map (fi_rr_update (\<lambda>_. 0)) (fm_if_data fm)"
    and "fm_frame_queue_index fm' = fm_frame_queue_index fm"
  shows "flow_enabled fm' sw = flow_enabled fm sw" and "flow_ok n_workers fm' = flow_ok n_workers fm"
proof -
  have len: "length (fm_if_data fm') = length (fm_if_data fm)" using assms(1) map_eq_imp_length_eq by blast
  have eq: "(fm_if_data fm' ! i)\<lparr>fi_rr := 0\<rparr> = (fm_if_data fm ! i)\<lparr>fi_rr := 0\<rparr>" if "i < length (fm_if_data fm)" for i
    using arg_cong [OF assms(1), of "\<lambda>xs. xs ! i"] that len by simp
  have "fi_enabled (fm_if_data fm' ! i) = fi_enabled (fm_if_data fm ! i)"
    "fi_workers (fm_if_data fm' ! i) = fi_workers (fm_if_data fm ! i)" if "i < length (fm_if_data fm)" for i
    using arg_cong [OF eq [OF that], of fi_enabled] arg_cong [OF eq [OF that], of fi_workers] by simp_all
  then show "flow_enabled fm' sw = flow_enabled fm sw" "flow_ok n_workers fm' = flow_ok n_workers fm"
    using len assms(2) by (auto simp: flow_enabled_def flow_ok_def if_ok_def all_set_conv_all_nth)
qed


section \<open>Every step keeps the invariant\<close>

definition plugin_agrees :: "'h bihash_8_8 \<Rightarrow> 'h plugin \<Rightarrow> vpp_view \<Rightarrow> bool" where
  "plugin_agrees bh p v \<longleftrightarrow> main_agrees bh (pl_main p) v \<and> vv_features v = plugin_features p"

definition plugin_ok :: "'h bihash_8_8 \<Rightarrow> u32 \<Rightarrow> u32 \<Rightarrow> 'h plugin \<Rightarrow> bool" where
  "plugin_ok bh n_workers n_threads p \<longleftrightarrow> main_ok bh n_threads (pl_main p) \<and> flow_ok n_workers (pl_flow p)"

lemma tunnel_frame:
  assumes "l2tvpp_tunnel_add_del slot lm lip pip lp pp tid ptid is_add = (rv, lm', out)"
  shows "handoff_enabled lm' = handoff_enabled lm" "handoff_queue_nelts lm' = handoff_queue_nelts lm"
    "session_index_by_sw_if_index lm' = session_index_by_sw_if_index lm"
    "encap_adj_by_ip4 lm' = encap_adj_by_ip4 lm" "encap_adj_init lm' = encap_adj_init lm"
  using assms by (auto simp: l2tvpp_tunnel_add_del_def Let_def split: if_splits option.splits)

lemma queue_nelts_frame:
  "l2tvpp_session_add_del bh slot hw sw lm ti sid psid acfc pfc is_add = Some (rv, lm', out, calls) \<Longrightarrow>
     handoff_queue_nelts lm' = handoff_queue_nelts lm"
  "l2tvpp_route_add_del bh fi ai lm pfx sw is_add = (rv, lm', calls) \<Longrightarrow>
     handoff_queue_nelts lm' = handoff_queue_nelts lm"
  "l2tvpp_set_handoff lm e = (rv, lm', calls) \<Longrightarrow> handoff_queue_nelts lm' = handoff_queue_nelts lm"
  by (auto simp: l2tvpp_session_add_del_def l2tvpp_session_add_def l2tvpp_session_del_def l2tvpp_route_add_del_def
      l2tvpp_encap_adj_add_del_def l2tvpp_encap_adj_init_def l2tvpp_set_handoff_def Let_def bind_eq_Some_conv
      split: if_splits option.splits prod.splits)

lemma inner_checksum_frame:
  assumes "l2tvpp_inner_checksum_cli lm line = (lm', out)"
  obtains x where "lm' = lm\<lparr>inner_ip4_no_checksum := x\<rparr>"
proof -
  have items: "\<exists>x. fst (inner_checksum_items lm is) = lm\<lparr>inner_ip4_no_checksum := x\<rparr>" for "is" and lm :: "'a l2tvpp_main"
  proof (induction lm "is" rule: inner_checksum_items.induct)
    case (1 lm)
    show ?case by (rule exI [of _ "inner_ip4_no_checksum lm"]) simp
  next
    case (4 lm "is")
    show ?case by (rule exI [of _ "inner_ip4_no_checksum lm"]) simp
  qed auto
  have "\<exists>x. lm' = lm\<lparr>inner_ip4_no_checksum := x\<rparr>"
  proof (cases line)
    case None
    with assms have "lm' = lm" by (auto simp: l2tvpp_inner_checksum_cli_def)
    then show ?thesis by (intro exI [of _ "inner_ip4_no_checksum lm"]) simp
  next
    case (Some l)
    then have "lm' = fst (inner_checksum_items lm l)"
      using assms by (auto simp: l2tvpp_inner_checksum_cli_def split: prod.splits if_splits)
    then show ?thesis using items by simp
  qed
  then show thesis using that by blast
qed

lemma update_adj_frame:
  assumes "l2tvpp_update_adj cs lm sw ai link = Some (lm', calls)"
  obtains ss where "lm' = lm\<lparr>sessions := ss\<rparr>" and "\<And>nt v. vpp_run nt True v calls = Some v"
proof -
  have "\<exists>ss. lm' = lm\<lparr>sessions := ss\<rparr> \<and> (\<forall>nt v. vpp_run nt True v calls = Some v)"
    using assms by (auto simp: l2tvpp_update_adj_def Let_def bind_eq_Some_conv
        intro: exI [of _ "sessions lm"] split: if_splits option.splits prod.splits)
  then show thesis using that by blast
qed

lemma plugin_main_step:
  assumes "plugin_ok bh n_workers n_threads p" and "plugin_agrees bh p v" and "objects_inv bh lm'"
    and "handoff_queue_nelts lm' = handoff_queue_nelts (pl_main p)"
    and "\<exists>v'. vpp_run n_threads True v calls = Some v' \<and> main_agrees bh lm' v' \<and> vv_features v' = vv_features v"
  shows "\<exists>v'. vpp_run n_threads True v calls = Some v' \<and> plugin_agrees bh (p\<lparr>pl_main := lm'\<rparr>) v'
    \<and> plugin_ok bh n_workers n_threads (p\<lparr>pl_main := lm'\<rparr>)"
  using assms by (auto simp: plugin_ok_def plugin_agrees_def main_ok_def plugin_features_def)


lemma encap_accepted:
  assumes "plugin_agrees bh p v"
    and "l2tvpp_encap_fastpath_enable_disable hardware (pl_encap p) sw e = (rv, enabled', calls)"
  shows "\<exists>v'. vpp_run nt True v calls = Some v' \<and> plugin_agrees bh (p\<lparr>pl_encap := enabled'\<rparr>) v'"
  using assms
  by (auto simp: l2tvpp_encap_fastpath_enable_disable_def Let_def plugin_agrees_def plugin_features_def toggle_def
      main_agrees_def image_iff split: if_splits)

lemma plugin_step_ok:
  assumes "plugin_step bh is_pow2 max_log2 n_workers n_threads p calls p'"
    and "bihash_ok bh" and "pow2_ok is_pow2" and "unat n_workers < 65536"
    and ok: "plugin_ok bh n_workers n_threads p" and ag: "plugin_agrees bh p v"
  shows "\<exists>v'. vpp_run n_threads True v calls = Some v' \<and> plugin_agrees bh p' v' \<and> plugin_ok bh n_workers n_threads p'"
proof -
  have inv: "objects_inv bh (pl_main p)" and main: "main_agrees bh (pl_main p) v"
    using ok ag by (simp_all add: plugin_ok_def main_ok_def plugin_agrees_def)
  note stepI = plugin_main_step [OF ok ag]
  show ?thesis
    using assms(1)
  proof (cases rule: plugin_step.cases)
    case (tunnel slot is_add pip pp tid lip lp ptid rv lm' out)
    note fr = tunnel_frame [OF tunnel(5)]
    show ?thesis
      unfolding tunnel(1,2) using tunnel_add_del_inv [OF inv tunnel(3,4,5)] main_agrees_cong [OF main fr(1,3-5)] fr(2)
      by (intro stepI) simp_all
  next
    case (session slot sw hw ti sid psid acfc pfc is_add rv lm' out)
    show ?thesis
      unfolding session(1)
      by (rule stepI [OF session_add_del_inv [OF inv session(2-5)] queue_nelts_frame(1) [OF session(5)]
            session_accepted [OF main inv session(4,3,5)]])
  next
    case (route fi ai pfx sw is_add rv lm')
    show ?thesis
      unfolding route(1)
      by (rule stepI [OF route_add_del_inv [OF inv route(2)] queue_nelts_frame(2) [OF route(2)]
            route_accepted [OF assms(2) main route(2)]])
  next
    case (handoff e rv lm')
    show ?thesis
      unfolding handoff(1)
      by (rule stepI [OF set_handoff_inv [OF inv handoff(2)] queue_nelts_frame(3) [OF handoff(2)]
            set_handoff_accepted [OF main handoff(2)]])
  next
    case (inner_checksum line lm' out)
    obtain x where x: "lm' = (pl_main p)\<lparr>inner_ip4_no_checksum := x\<rparr>" by (rule inner_checksum_frame [OF inner_checksum(3)])
    show ?thesis
      unfolding inner_checksum(1,2)
      by (rule stepI [OF objects_inv_cong [OF inv]]) (use main_agrees_cong [OF main] x in simp_all)
  next
    case (adjacency cs sw ai link lm')
    obtain ss where ss: "lm' = (pl_main p)\<lparr>sessions := ss\<rparr>" "\<And>nt v. vpp_run nt True v calls = Some v"
      by (rule update_adj_frame [OF adjacency(2)]) blast
    have "objects_inv bh lm'" using update_adj_run [OF inv, of cs sw ai link] adjacency(2) by auto
    then show ?thesis
      unfolding adjacency(1) by (rule stepI) (use main_agrees_cong [OF main] ss in simp_all)
  next
    case (admin hw up)
    with ok ag show ?thesis by (simp add: l2tvpp_admin_up_down_def)
  next
    case (flow bitmap fqi hardware sw fastpath spray enable rv lm' fm')
    let ?R = "Pair ''l2tvpp-encap-fastpath'' ` pl_encap p"
    have R: "vv_features v = Pair ''l2tvpp-flow-handoff'' ` {x. flow_enabled (pl_flow p) x} \<union> ?R"
      "\<forall>x. (''l2tvpp-flow-handoff'', x) \<notin> ?R"
      using ag by (auto simp: plugin_agrees_def plugin_features_def)
    have "main_ok bh n_threads (pl_main p)" "flow_ok n_workers (pl_flow p)" using ok by (simp_all add: plugin_ok_def)
    from flow_switch_accepted [OF assms(3) this(1) main this(2) assms(4) flow(3,2) R flow(5)] show ?thesis
      by (auto simp: flow(1) plugin_ok_def plugin_agrees_def plugin_features_def)
  next
    case (encap hardware sw e rv enabled')
    from encap_accepted [OF ag encap(2), of n_threads] ok show ?thesis
      by (auto simp: encap(1) plugin_ok_def)
  next
    case (packets crc csum_valid enqueue this_thread frame eff)
    then have "map (fi_rr_update (\<lambda>_. 0)) (fm_if_data (fe_main eff)) = map (fi_rr_update (\<lambda>_. 0)) (fm_if_data (pl_flow p))"
      "fm_frame_queue_index (fe_main eff) = fm_frame_queue_index (pl_flow p)"
      by (auto simp: l2tvpp_flow_handoff_node_def dest: flow_loop_config)
    from flow_config_cong [OF this] ok ag show ?thesis
      by (simp add: packets(1,2) plugin_ok_def plugin_agrees_def plugin_features_def)
  qed
qed


text \<open>The frame queues lead to the nodes the packets in them are meant for.\<close>

fun note_queue :: "(u32 \<rightharpoonup> string) \<Rightarrow> vpp_call \<Rightarrow> (u32 \<rightharpoonup> string)" where
  "note_queue m (Vlib_frame_queue_main_init node n fqi) = m(fqi \<mapsto> node)"
| "note_queue m _ = m"

lemma vpp_run_queues: "vpp_run nt r v cs = Some v' \<Longrightarrow> vv_queues v' = foldl note_queue (vv_queues v) cs"
proof (induction cs arbitrary: v)
  case (Cons c cs)
  have "vv_queues w = note_queue (vv_queues v) c" if "vpp_accept nt r v c = Some w" for w
    using that by (cases c) (auto split: if_splits)
  with Cons show ?case by (auto simp: bind_eq_Some_conv)
qed simp

definition queues_lead :: "'h plugin \<Rightarrow> (u32 \<rightharpoonup> string) \<Rightarrow> bool" where
  "queues_lead p m \<longleftrightarrow> m (handoff_frame_queue_index (pl_main p)) = Some ''l2tvpp-input''
     \<and> (fm_frame_queue_index (pl_flow p) \<noteq> - 1 \<longrightarrow> m (fm_frame_queue_index (pl_flow p)) = Some ''ethernet-input'')"

lemma session_queues:
  assumes "l2tvpp_session_add_del bh slot hw sw lm ti sid psid acfc pfc is_add = Some (rv, lm', out, calls)"
  shows "foldl note_queue m calls = m" "handoff_frame_queue_index lm' = handoff_frame_queue_index lm"
  using assms
  by (auto simp: l2tvpp_session_add_del_def l2tvpp_session_add_def l2tvpp_session_del_def Let_def bind_eq_Some_conv
      split: if_splits option.splits prod.splits)

lemma route_queues:
  assumes "l2tvpp_route_add_del bh fi ai lm pfx sw is_add = (rv, lm', calls)"
  shows "foldl note_queue m calls = m" "handoff_frame_queue_index lm' = handoff_frame_queue_index lm"
  using assms
  by (auto simp: l2tvpp_route_add_del_def l2tvpp_encap_adj_add_del_def l2tvpp_encap_adj_init_def Let_def
      split: if_splits option.splits prod.splits)

lemma set_handoff_queues:
  assumes "l2tvpp_set_handoff lm e = (rv, lm', calls)"
  shows "foldl note_queue m calls = m" "handoff_frame_queue_index lm' = handoff_frame_queue_index lm"
  using assms by (auto simp: l2tvpp_set_handoff_def Let_def split: if_splits)

lemma update_adj_queues:
  assumes "l2tvpp_update_adj cs lm sw ai link = Some (lm', calls)"
  shows "foldl note_queue m calls = m" "handoff_frame_queue_index lm' = handoff_frame_queue_index lm"
  using assms by (auto simp: l2tvpp_update_adj_def Let_def bind_eq_Some_conv split: if_splits option.splits prod.splits)

lemma encap_queues:
  assumes "l2tvpp_encap_fastpath_enable_disable hardware enabled sw e = (rv, enabled', calls)"
  shows "foldl note_queue m calls = m"
  using assms by (auto simp: l2tvpp_encap_fastpath_enable_disable_def Let_def split: if_splits)

lemma flow_switch_queues:
  assumes "pow2_ok is_pow2" and "main_ok bh nt (pl_main p)" and "fqi \<noteq> - 1"
    and "fqi \<noteq> handoff_frame_queue_index (pl_main p)" and "queues_lead p m"
    and "l2tvpp_flow_handoff_enable_disable is_pow2 max_log2 hardware n_workers nt fqi (pl_main p) (pl_flow p)
       sw bitmap fastpath spray enable = Some (rv, lm', fm', calls)"
  shows "queues_lead (p\<lparr>pl_main := lm', pl_flow := fm'\<rparr>) (foldl note_queue m calls)"
proof -
  have legal: "queue_legal nt (handoff_queue_nelts (pl_main p))" using assms(2) by (simp add: main_ok_def)
  have made: "foldl note_queue m qs q = Some ''ethernet-input'' \<and>
      foldl note_queue m qs (handoff_frame_queue_index (pl_main p)) = Some ''l2tvpp-input''"
    if "queue_created fqi n (pl_flow p) q qs" for n q qs
    using that assms(4,5) by (auto simp: queue_created_def queues_lead_def)
  show ?thesis
  proof (rule flow_switch_cases [OF assms(1) legal assms(3,6)], goal_cases)
    case 1
    with assms(5) show ?case by (simp add: queues_lead_def)
  next
    case (2 q qs)
    with made show ?case by (simp add: queues_lead_def)
  next
    case (3 q qs ifd hs rv')
    have "foldl note_queue m' hs = m' \<and> handoff_frame_queue_index lm' = handoff_frame_queue_index (pl_main p)" for m'
    proof (cases enable)
      case True
      with 3(7) have h: "l2tvpp_set_handoff (pl_main p) 0 = (rv', lm', hs)" by simp
      from set_handoff_queues [OF h] show ?thesis by simp
    qed (use 3(7) in simp)
    with made [OF 3(1)] show ?case by (simp add: queues_lead_def 3(2,6))
  qed
qed

lemma plugin_step_queues:
  assumes "plugin_step bh is_pow2 max_log2 n_workers n_threads p calls p'"
    and "pow2_ok is_pow2" and "plugin_ok bh n_workers n_threads p" and "queues_lead p m"
  shows "queues_lead p' (foldl note_queue m calls)"
  using assms(1)
proof (cases rule: plugin_step.cases)
  case (tunnel slot is_add pip pp tid lip lp ptid rv lm' out)
  then have "handoff_frame_queue_index lm' = handoff_frame_queue_index (pl_main p)"
    by (auto simp: l2tvpp_tunnel_add_del_def Let_def split: if_splits option.splits)
  with assms(4) show ?thesis by (simp add: tunnel(1,2) queues_lead_def)
next
  case (session slot sw hw ti sid psid acfc pfc is_add rv lm' out)
  with session_queues [OF session(5)] assms(4) show ?thesis by (simp add: queues_lead_def)
next
  case (route fi ai pfx sw is_add rv lm')
  with route_queues [OF route(2)] assms(4) show ?thesis by (simp add: queues_lead_def)
next
  case (handoff e rv lm')
  with set_handoff_queues [OF handoff(2)] assms(4) show ?thesis by (simp add: queues_lead_def)
next
  case (inner_checksum line lm' out)
  then obtain x where "lm' = (pl_main p)\<lparr>inner_ip4_no_checksum := x\<rparr>" by (elim inner_checksum_frame)
  with inner_checksum assms(4) show ?thesis by (simp add: queues_lead_def)
next
  case (adjacency cs sw ai link lm')
  with update_adj_queues [OF adjacency(2)] assms(4) show ?thesis by (simp add: queues_lead_def)
next
  case (admin hw up)
  with assms(4) show ?thesis by (simp add: l2tvpp_admin_up_down_def)
next
  case (flow bitmap fqi hardware sw fastpath spray enable rv lm' fm')
  have "main_ok bh n_threads (pl_main p)" using assms(3) by (simp add: plugin_ok_def)
  from flow_switch_queues [OF assms(2) this flow(3,4) assms(4) flow(5)] show ?thesis by (simp add: flow(1))
next
  case (encap hardware sw e rv enabled')
  with encap_queues [OF encap(2)] assms(4) show ?thesis by (simp add: queues_lead_def)
next
  case (packets crc csum_valid enqueue this_thread frame eff)
  then have "fm_frame_queue_index (fe_main eff) = fm_frame_queue_index (pl_flow p)"
    by (auto simp: l2tvpp_flow_handoff_node_def)
  with assms(4) show ?thesis by (simp add: packets(1,2) queues_lead_def)
qed


section \<open>From start-up on\<close>

lemma config_frame: "l2tvpp_config lm items = Inr lm' \<Longrightarrow> lm' = lm\<lparr>handoff_queue_nelts := handoff_queue_nelts lm'\<rparr>"
proof (induction lm items rule: l2tvpp_config.induct)
  case (2 lm n items)
  then have "lm' = lm\<lparr>handoff_queue_nelts := n\<rparr>\<lparr>handoff_queue_nelts := handoff_queue_nelts lm'\<rparr>"
    by (simp split: if_splits)
  then show ?case by simp
qed simp_all

lemma plugin_start_ok:
  assumes "l2tvpp_init bh fsrc unset = (lm0, c0)" and "l2tvpp_config lm0 items = Inr lm1"
    and "l2tvpp_handoff_default is_pow2 max_log2 n_threads n_workers fqi lm1 = Some (lm2, c1)"
    and "bihash_ok bh" and "pow2_ok is_pow2" and "max_log2_ok max_log2" and "unat n_threads + 9 \<le> 2 ^ 31"
  shows "\<exists>v. vpp_run n_threads False vpp_boot (c0 @ c1) = Some v
    \<and> plugin_agrees bh \<lparr>pl_main = lm2, pl_flow = l2tvpp_flow_handoff_main_init, pl_encap = {}\<rparr> v
    \<and> plugin_ok bh n_workers n_threads \<lparr>pl_main = lm2, pl_flow = l2tvpp_flow_handoff_main_init, pl_encap = {}\<rparr>
    \<and> queues_lead \<lparr>pl_main = lm2, pl_flow = l2tvpp_flow_handoff_main_init, pl_encap = {}\<rparr> (vv_queues v)"
proof -
  have "l2tvpp_handoff_queue_nelts is_pow2 max_log2 n_threads lm1 \<noteq> None"
    using assms(3) by (auto simp: l2tvpp_handoff_default_def bind_eq_Some_conv)
  then have le: "unat (handoff_queue_nelts lm1) \<le> 2 ^ 31"
    unfolding handoff_queue_depth_undefined_iff [OF assms(5-7)] by (rule leI)
  obtain n lm' k where q: "l2tvpp_handoff_queue_nelts is_pow2 max_log2 n_threads lm1 = Some (n, lm')"
    "handoff_queue_nelts lm' = n" "unat n = 2 ^ k"
    "max (unat (handoff_queue_nelts lm1)) (unat n_threads + 9) \<le> unat n"
    using handoff_queue_depth_legal [OF assms(5,6) le assms(7)] by blast
  then have legal: "queue_legal n_threads n" by (auto simp: queue_legal_def)
  have lm': "lm' = lm1\<lparr>handoff_queue_nelts := n\<rparr>"
    using q(1) by (auto simp: l2tvpp_handoff_queue_nelts_def Let_def bind_eq_Some_conv split: if_splits)
  have c0: "c0 = [Udp_register_dst_port_input]" and lm0: "session_index_by_sw_if_index lm0 = []" "\<not> encap_adj_init lm0"
    "\<not> handoff_enabled lm0"
    using assms(1) by (auto simp: l2tvpp_init_def)
  have lm1: "lm1\<lparr>handoff_queue_nelts := n\<rparr> = lm0\<lparr>handoff_queue_nelts := n\<rparr>"
    by (subst config_frame [OF assms(2)]) simp
  define lm3 where "lm3 = lm0\<lparr>handoff_queue_nelts := n, handoff_frame_queue_index := fqi\<rparr>"
  have lm2: "lm2 = (if 1 < n_workers then lm3\<lparr>handoff_enabled := True\<rparr> else lm3)"
    and c1: "c1 = Vlib_frame_queue_main_init ''l2tvpp-input'' n fqi # (if 1 < n_workers then [Udp_register_dst_port_handoff] else [])"
    using assms(3) unfolding l2tvpp_handoff_default_def q(1) lm' lm1 lm3_def
    by (auto simp: Let_def split: if_splits)
  have "objects_inv bh lm2"
    by (rule objects_inv_cong [OF init_inv [OF assms(4,1)]]) (simp_all add: lm2 lm3_def)
  moreover have "session_interfaces lm2 = {}" "cached_keys bh lm2 ai = {}" for ai
    using lm0 by (simp_all add: lm2 lm3_def session_interfaces_def session_of_sw_if_index_def cached_keys_def)
  ultimately show ?thesis
    using legal lm0(3) by (simp add: c0 c1 plugin_agrees_def main_agrees_def plugin_ok_def main_ok_def flow_ok_def vpp_boot_def
        plugin_features_def flow_enabled_def l2tvpp_flow_handoff_main_init_def lm2 lm3_def queues_lead_def)
qed

lemma plugin_run_ok:
  assumes "plugin_run bh is_pow2 max_log2 n_workers n_threads p boot calls"
    and "bihash_ok bh" and "pow2_ok is_pow2" and "max_log2_ok max_log2"
    and "unat n_workers < 65536" and "unat n_threads + 9 \<le> 2 ^ 31"
  shows "\<exists>v0 v. vpp_run n_threads False vpp_boot boot = Some v0 \<and> vpp_run n_threads True v0 calls = Some v
    \<and> plugin_agrees bh p v \<and> plugin_ok bh n_workers n_threads p \<and> queues_lead p (vv_queues v)"
  using assms(1)
proof (induction rule: plugin_run.induct)
  case (start fsrc unset lm0 c0 items lm1 fqi lm2 c1)
  from plugin_start_ok [OF start assms(2-4,6)] show ?case by simp
next
  case (step p boot calls cs p')
  then obtain v0 v where "vpp_run n_threads False vpp_boot boot = Some v0" "vpp_run n_threads True v0 calls = Some v"
    and v: "plugin_ok bh n_workers n_threads p" "plugin_agrees bh p v" "queues_lead p (vv_queues v)"
    by blast
  moreover obtain v' where "vpp_run n_threads True v cs = Some v'" "plugin_agrees bh p' v'" "plugin_ok bh n_workers n_threads p'"
    using plugin_step_ok [OF step(2) assms(2,3,5) v(1,2)] by blast
  moreover from this(1) have "queues_lead p' (vv_queues v')"
    using plugin_step_queues [OF step(2) assms(3) v(1,3)] vpp_run_queues by metis
  ultimately show ?case by (simp add: vpp_run_append)
qed


text \<open>Start-up is defined for exactly the configurations with a queue depth up to 2\<open>^\<close>31: above it the
  rounding shift is undefined.\<close>

lemma handoff_default_undefined_iff:
  assumes "pow2_ok is_pow2" and "max_log2_ok max_log2" and "unat n_threads + 9 \<le> 2 ^ 31"
  shows "l2tvpp_handoff_default is_pow2 max_log2 n_threads n_workers fqi lm = None \<longleftrightarrow>
    2 ^ 31 < unat (handoff_queue_nelts lm)"
  using handoff_queue_depth_undefined_iff [OF assms, of lm]
  by (cases "l2tvpp_handoff_queue_nelts is_pow2 max_log2 n_threads lm") (auto simp: l2tvpp_handoff_default_def Let_def)

text \<open>Claim C7: (refinement) the plugin keeps VPP's books right. Start-up is defined exactly when the
  configured queue depth is at most 2\<open>^\<close>31 (a larger one is shifted out of an \<open>int\<close>); from it, whatever
  sequence of tunnel, session, route, handoff, inner-checksum, flow-handoff and encap-fastpath operations,
  adjacency and admin callbacks and packets follows, provided no local tunnel id is given to two peers, there
  are fewer than 65536 workers and VPP returns free slots, unused interfaces and new queue indices, VPP accepts every call the plugin makes.
  No feature is switched on or off twice, no adjacency is unlocked that is not locked, IP is enabled and
  disabled once per session interface, every frame queue has a legal depth, and UDP port 1701 moves only
  under the barrier once the workers run.  And the two agree on the outcome: the port leads to
  \<open>l2tvpp-handoff\<close> exactly when handoff is on, the session queue leads to \<open>l2tvpp-input\<close> and the flow
  queue to \<open>ethernet-input\<close>, the features are on exactly where the plugin's tables say so, IP is on exactly
  on the session interfaces, an adjacency in the encap cache is locked, and the object model is consistent.\<close>

theorem plugin_keeps_vpp_books:
  assumes "plugin_run bh is_pow2 max_log2 n_workers n_threads p boot calls"
    and "bihash_ok bh" and "pow2_ok is_pow2" and "max_log2_ok max_log2"
    and "unat n_workers < 65536" and "unat n_threads + 9 \<le> 2 ^ 31"
  shows "(\<forall>fqi lm. l2tvpp_handoff_default is_pow2 max_log2 n_threads n_workers fqi (lm :: 'h l2tvpp_main) = None \<longleftrightarrow>
       2 ^ 31 < unat (handoff_queue_nelts lm))
    \<and> (\<exists>v0 v. vpp_run n_threads False vpp_boot boot = Some v0 \<and> vpp_run n_threads True v0 calls = Some v
    \<and> vv_port v = Some (handoff_enabled (pl_main p)) \<and> vv_barrier v = 0
    \<and> vv_queues v (handoff_frame_queue_index (pl_main p)) = Some ''l2tvpp-input''
    \<and> (fm_frame_queue_index (pl_flow p) \<noteq> - 1 \<longrightarrow>
         vv_queues v (fm_frame_queue_index (pl_flow p)) = Some ''ethernet-input'')
    \<and> (\<forall>f sw. (f, sw) \<in> vv_features v \<longleftrightarrow>
         f = ''l2tvpp-flow-handoff'' \<and> (\<exists>ifd. vec_elt (fm_if_data (pl_flow p)) sw = Some ifd \<and> fi_enabled ifd)
         \<or> f = ''l2tvpp-encap-fastpath'' \<and> sw \<in> pl_encap p)
    \<and> (\<forall>sw. (sw \<in> vv_ip4 v \<longleftrightarrow> session_of_sw_if_index (pl_main p) sw \<noteq> None)
         \<and> (sw \<in> vv_ip6 v \<longleftrightarrow> session_of_sw_if_index (pl_main p) sw \<noteq> None))
    \<and> (\<forall>k ai. encap_adj_init (pl_main p) \<and> bh_search bh (encap_adj_by_ip4 (pl_main p)) k = Some ai \<longrightarrow>
         0 < vv_locks v (ucast ai))
    \<and> objects_inv bh (pl_main p))"
proof -
  obtain v0 v where v: "vpp_run n_threads False vpp_boot boot = Some v0" "vpp_run n_threads True v0 calls = Some v"
    and ag: "plugin_agrees bh p v" and ok: "plugin_ok bh n_workers n_threads p" and qs: "queues_lead p (vv_queues v)"
    using plugin_run_ok [OF assms] by blast
  have "0 < vv_locks v (ucast ai)"
    if "encap_adj_init (pl_main p)" "bh_search bh (encap_adj_by_ip4 (pl_main p)) k = Some ai" for k ai
  proof -
    have "k \<in> cached_keys bh (pl_main p) (ucast ai)" using that by (simp add: cached_keys_def)
    then have "0 < card (cached_keys bh (pl_main p) (ucast ai))" by (auto simp: card_gt_0_iff)
    with ag show ?thesis by (auto simp: plugin_agrees_def main_agrees_def intro: less_le_trans)
  qed
  with v ag ok qs show ?thesis
    by (intro conjI [OF allI [OF allI [OF handoff_default_undefined_iff [OF assms(3,4,6)]]]] exI [of _ v0] exI [of _ v])
      (auto simp: queues_lead_def plugin_agrees_def main_agrees_def plugin_ok_def main_ok_def plugin_features_def flow_enabled_def
        vec_elt_def session_interfaces_def split: if_splits)
qed

text \<open>An example: start-up with four workers, then flow handoff on interface 1 over the first three.\<close>

lemma ex_plugin:
  "\<exists>p boot calls. plugin_run alist_bihash is_pow2_ref max_log2_ref 4 5 p boot calls \<and> flow_enabled (pl_flow p) 1"
proof -
  have i: "l2tvpp_init alist_bihash 0 [] = (ex_init, [Udp_register_dst_port_input])"
    by (simp add: ex_init_def l2tvpp_init_def)
  have nelts: "unat (handoff_queue_nelts ex_init) \<le> 2 ^ 31" "unat (5 :: u32) + 9 \<le> 2 ^ 31"
    by (simp_all add: ex_init_def l2tvpp_init_def L2TVPP_HANDOFF_QUEUE_NELTS_DEFAULT_def)
  obtain n lm1 where "l2tvpp_handoff_queue_nelts is_pow2_ref max_log2_ref 5 ex_init = Some (n, lm1)"
    using handoff_queue_depth_legal [OF pow2_ref_ok max_log2_ref_ok nelts] by blast
  then obtain lm2 c1 where d: "l2tvpp_handoff_default is_pow2_ref max_log2_ref 5 4 0 ex_init = Some (lm2, c1)"
    by (simp add: l2tvpp_handoff_default_def)
  have idx: "handoff_frame_queue_index lm2 = 0" using d by (auto simp: l2tvpp_handoff_default_def bind_eq_Some_conv Let_def split: if_splits)
  let ?p = "\<lparr>pl_main = lm2, pl_flow = l2tvpp_flow_handoff_main_init, pl_encap = {}\<rparr>"
  have run: "plugin_run alist_bihash is_pow2_ref max_log2_ref 4 5 ?p ([Udp_register_dst_port_input] @ c1) []"
    by (rule plugin_run.start [OF i _ d, of "[]"]) simp
  then have "plugin_ok alist_bihash 4 5 ?p"
    using plugin_run_ok [OF run alist_bihash_ok pow2_ref_ok max_log2_ref_ok] by auto
  then have "queue_legal 5 (handoff_queue_nelts lm2)" by (simp add: plugin_ok_def main_ok_def)
  from queue_nelts_stable [OF pow2_ref_ok this, of max_log2_ref]
  obtain lm' fm' calls where sw: "l2tvpp_flow_handoff_enable_disable is_pow2_ref max_log2_ref (\<lambda>i. i < 4) 4 5 1 lm2
      l2tvpp_flow_handoff_main_init 1 (Some [0, 1, 2]) True False True = Some (RV_OK, lm', fm', calls)"
    and en: "flow_enabled fm' 1"
    by (cases "l2tvpp_set_handoff lm2 0") (auto simp: l2tvpp_flow_handoff_enable_disable_def flow_queue_init_def
        bitmap_last_set_def Let_def l2tvpp_flow_handoff_main_init_def flow_enabled_def)
  have "plugin_step alist_bihash is_pow2_ref max_log2_ref 4 5 ?p calls (?p\<lparr>pl_main := lm', pl_flow := fm'\<rparr>)"
    by (rule plugin_step.flow [where bitmap = "Some [0, 1, 2]" and fqi = 1])
      (use sw idx in simp_all)
  from plugin_run.step [OF run this] en show ?thesis by fastforce
qed

theorem plugin_keeps_vpp_books_witness:
  "\<exists>p boot calls v0 v. plugin_run alist_bihash is_pow2_ref max_log2_ref 4 5 p boot calls
    \<and> vpp_run 5 False vpp_boot boot = Some v0 \<and> vpp_run 5 True v0 calls = Some v
    \<and> (''l2tvpp-flow-handoff'', 1) \<in> vv_features v"
proof -
  obtain p boot calls where run: "plugin_run alist_bihash is_pow2_ref max_log2_ref 4 5 p boot calls"
    and en: "flow_enabled (pl_flow p) 1"
    using ex_plugin by blast
  have "unat (4 :: u32) < 65536" "unat (5 :: u32) + 9 \<le> 2 ^ 31" by simp_all
  from plugin_keeps_vpp_books [OF run alist_bihash_ok pow2_ref_ok max_log2_ref_ok this]
  obtain v0 v where v: "vpp_run 5 False vpp_boot boot = Some v0" "vpp_run 5 True v0 calls = Some v"
    and f: "\<forall>f sw. (f, sw) \<in> vv_features v \<longleftrightarrow>
         f = ''l2tvpp-flow-handoff'' \<and> (\<exists>ifd. vec_elt (fm_if_data (pl_flow p)) sw = Some ifd \<and> fi_enabled ifd)
         \<or> f = ''l2tvpp-encap-fastpath'' \<and> sw \<in> pl_encap p"
    by (elim conjE exE) (rule that)
  have "(''l2tvpp-flow-handoff'', 1) \<in> vv_features v"
    using en f [rule_format, of "''l2tvpp-flow-handoff''" 1] by (simp add: flow_enabled_def vec_elt_def)
  with run v show ?thesis by blast
qed


section \<open>Packets on the interfaces that have the feature\<close>

definition remote_ok :: "u32 \<Rightarrow> flow_loop \<Rightarrow> bool" where
  "remote_ok n_workers st \<longleftrightarrow> (\<forall>ifd \<in> set (fl_if_data st). if_ok n_workers ifd)
     \<and> (\<forall>(b, w) \<in> set (fl_eth st) \<union> set (fl_l2tp st). 1 \<le> unat w \<and> unat w \<le> unat n_workers)"

lemma flow_packet_remote:
  assumes "flow_packet crc csum_valid is_pow2 lm this_thread b st = Some st'" and "pow2_ok is_pow2"
    and "remote_ok n_workers st" and "unat this_thread \<le> unat n_workers" and "unat n_workers < 65536"
  shows "remote_ok n_workers st'"
proof -
  have "\<exists>ifd c w ifd'. vec_elt (fl_if_data st) (b_rx b) = Some ifd
      \<and> flow_thread is_pow2 ifd this_thread (fc_kind c) (case fc_hash c of Some h \<Rightarrow> h | None \<Rightarrow> 0) = Some (w, ifd')
      \<and> fl_if_data st' = (fl_if_data st)[unat (b_rx b) := ifd']
      \<and> fl_eth st' = fl_eth (flow_sort this_thread w (c :: u32 flow_class) st)
      \<and> fl_l2tp st' = fl_l2tp (flow_sort this_thread w c st)"
    using assms(1) by (fastforce simp: flow_packet_def bind_eq_Some_conv Let_def flow_sort_def split: if_splits)
  then obtain ifd c w ifd' where i: "vec_elt (fl_if_data st) (b_rx b) = Some ifd"
    and t: "flow_thread is_pow2 ifd this_thread (fc_kind c) (case fc_hash c of Some h \<Rightarrow> h | None \<Rightarrow> 0) = Some (w, ifd')"
    and st': "fl_if_data st' = (fl_if_data st)[unat (b_rx b) := ifd']"
      "fl_eth st' = fl_eth (flow_sort this_thread w (c :: u32 flow_class) st)"
      "fl_l2tp st' = fl_l2tp (flow_sort this_thread w c st)" by blast
  have ifd: "if_ok n_workers ifd" using i assms(3) by (auto simp: remote_ok_def vec_elt_def split: if_splits)
  then have "workers_ok ifd" by (simp add: if_ok_def workers_ok_def)
  note eq = flow_thread_eq [OF this assms(2), of this_thread "fc_kind c" "case fc_hash c of Some h \<Rightarrow> h | None \<Rightarrow> 0"]
  have w: "w \<in> set (fi_workers ifd) \<or> w = ucast this_thread" and "fi_workers ifd' = fi_workers ifd"
    using t unfolding eq by (auto split: if_splits)
  then have ifd': "if_ok n_workers ifd'" using ifd by (simp add: if_ok_def)
  have "ucast w = this_thread" if "w = ucast this_thread"
  proof -
    have "unat (ucast w :: u32) = unat this_thread"
      using that assms(4,5) by (simp add: unsigned_ucast_eq unsigned_take_bit_eq take_bit_nat_eq_self)
    then show ?thesis by (simp add: word_unat_eq_iff)
  qed
  then have "ucast w \<noteq> this_thread \<Longrightarrow> 1 \<le> unat w \<and> unat w \<le> unat n_workers"
    using w ifd by (auto simp: if_ok_def)
  with ifd' assms(3) show ?thesis
    unfolding remote_ok_def st'
    by (auto simp: flow_sort_def Let_def dest!: set_update_subset_insert [THEN subsetD])
qed

lemma flow_loop_remote:
  assumes "pow2_ok is_pow2" and "unat this_thread \<le> unat n_workers" and "unat n_workers < 65536"
  shows "flow_loop_run crc csum_valid is_pow2 lm this_thread frame st = Some st' \<Longrightarrow> remote_ok n_workers st \<Longrightarrow>
    remote_ok n_workers st'"
  by (induction frame arbitrary: st) (auto simp: bind_eq_Some_conv intro: flow_packet_remote [OF _ assms(1) _ assms(2,3)])


text \<open>Claim C18: (safety) whatever VPP can hand to the nodes they can take: in every state of the plugin's
  life (with fewer than 65536 workers), a frame of packets received on interfaces where VPP has the flow-handoff feature on is processed
  without an access outside the interface table or a list of workers; every buffer leaves in exactly one
  of the three outputs; the packets for other threads are addressed to worker threads that exist, through
  frame queues that VPP has created and that lead to \<open>ethernet-input\<close> and to \<open>l2tvpp-input\<close>; the packets
  kept, those the queues took and those counted as congestion drops add up to the frame; and
  \<open>l2tvpp-input\<close> processes every frame of well-formed buffers.\<close>

theorem feature_packets_handled:
  assumes "plugin_run bh is_pow2 max_log2 n_workers n_threads p boot calls"
    and "bihash_ok bh" and "pow2_ok is_pow2" and "max_log2_ok max_log2"
    and "unat n_workers < 65536" and "unat n_threads + 9 \<le> 2 ^ 31"
    and "vpp_run n_threads False vpp_boot boot = Some v0" and "vpp_run n_threads True v0 calls = Some v"
    and "\<forall>b \<in> set frame. (''l2tvpp-flow-handoff'', b_rx b) \<in> vv_features v" and "frame \<noteq> []"
    and "unat this_thread \<le> unat n_workers" and "\<forall>b \<in> set udp. wf_buffer b"
    and "length frame < 2 ^ 32" and "\<forall>q xs. unat (enqueue q xs) \<le> length xs"
  shows "\<exists>eff ieff. l2tvpp_flow_handoff_node crc csum_valid is_pow2 enqueue (pl_main p) (pl_flow p) this_thread frame = Some eff
    \<and> mset (map fst (fe_local eff)) + mset (map fst (snd (fe_eth eff))) + mset (map fst (snd (fe_l2tp eff)))
        = mset (map (flow_out_buffer \<circ> flow_class_of crc csum_valid (pl_main p) (pl_flow p)) frame)
    \<and> (\<forall>(b, w) \<in> set (snd (fe_eth eff)) \<union> set (snd (fe_l2tp eff)). 1 \<le> unat w \<and> unat w \<le> unat n_workers)
    \<and> vv_queues v (fst (fe_eth eff)) = Some ''ethernet-input''
    \<and> vv_queues v (fst (fe_l2tp eff)) = Some ''l2tvpp-input''
    \<and> length (fe_local eff)
        + (if snd (fe_eth eff) = [] then 0 else unat (enqueue (fst (fe_eth eff)) (snd (fe_eth eff))))
        + (if snd (fe_l2tp eff) = [] then 0 else unat (enqueue (fst (fe_l2tp eff)) (snd (fe_l2tp eff))))
        + sum_list (map unat (fe_congestion eff)) = length frame
    \<and> l2tvpp_input_node bh (pl_main p) udp = Some ieff"
proof -
  obtain ag: "plugin_agrees bh p v" and ok: "plugin_ok bh n_workers n_threads p" and qs: "queues_lead p (vv_queues v)"
    using plugin_run_ok [OF assms(1-6)] assms(7,8) by auto
  let ?st = "\<lparr>fl_if_data = fm_if_data (pl_flow p), fl_local = [], fl_eth = [], fl_l2tp = [], fl_traces = []\<rparr>"
  let ?cls = "flow_class_of crc csum_valid (pl_main p) (pl_flow p)"
  let ?outs = "flow_outs ?cls (pl_flow p) this_thread [] frame"
  have fl: "flow_ok n_workers (pl_flow p)" using ok by (simp add: plugin_ok_def)
  have en: "flow_enabled (pl_flow p) (b_rx b)" if "b \<in> set frame" for b
    using assms(9) that ag by (auto simp: plugin_agrees_def plugin_features_def)
  then have ifs: "ifs_ok (fm_if_data (pl_flow p)) frame"
    using fl by (auto simp: ifs_ok_def flow_enabled_def flow_ok_def if_ok_def workers_ok_def)
  obtain eff where eff: "l2tvpp_flow_handoff_node crc csum_valid is_pow2 enqueue (pl_main p) (pl_flow p) this_thread frame = Some eff"
    "fe_local eff = outs_local this_thread ?outs"
    "fe_eth eff = (fm_frame_queue_index (pl_flow p), outs_eth this_thread ?outs)"
    "fe_l2tp eff = (handoff_frame_queue_index (pl_main p), outs_l2tp this_thread ?outs)"
    "fe_congestion eff = flow_congestion enqueue (fm_frame_queue_index (pl_flow p)) (outs_eth this_thread ?outs)
      @ flow_congestion enqueue (handoff_frame_queue_index (pl_main p)) (outs_l2tp this_thread ?outs)"
    by (rule flow_node_spec [OF assms(3) ifs])
  note acc = outs_account [OF assms(13,14), where cls = ?cls and fm = "pl_flow p" and this_thread = this_thread]
  from eff(1) obtain st where st: "flow_loop_run crc csum_valid is_pow2 (pl_main p) this_thread frame ?st = Some st"
    "snd (fe_eth eff) = fl_eth st" "snd (fe_l2tp eff) = fl_l2tp st"
    by (auto simp: l2tvpp_flow_handoff_node_def)
  have "remote_ok n_workers ?st" using fl by (simp add: remote_ok_def flow_ok_def)
  then have rem: "remote_ok n_workers st" by (rule flow_loop_remote [OF assms(3,11,5) st(1)])
  obtain b where "b \<in> set frame" using assms(10) by (cases frame) auto
  then have "fm_frame_queue_index (pl_flow p) \<noteq> - 1"
    using en fl by (auto simp: flow_enabled_def flow_ok_def)
  then have queues: "vv_queues v (fst (fe_eth eff)) = Some ''ethernet-input''"
    "vv_queues v (fst (fe_l2tp eff)) = Some ''l2tvpp-input''"
    using qs by (simp_all add: queues_lead_def eff)
  have workers: "\<forall>(b, w) \<in> set (snd (fe_eth eff)) \<union> set (snd (fe_l2tp eff)). 1 \<le> unat w \<and> unat w \<le> unat n_workers"
    using rem by (simp add: remote_ok_def st)
  have sum: "length (fe_local eff)
        + (if snd (fe_eth eff) = [] then 0 else unat (enqueue (fst (fe_eth eff)) (snd (fe_eth eff))))
        + (if snd (fe_l2tp eff) = [] then 0 else unat (enqueue (fst (fe_l2tp eff)) (snd (fe_l2tp eff))))
        + sum_list (map unat (fe_congestion eff)) = length frame"
    using acc(2) acc(3) [of "fm_frame_queue_index (pl_flow p)"] acc(4) [of "handoff_frame_queue_index (pl_main p)"]
    unfolding eff(2-5) fst_conv snd_conv map_append sum_list_append by linarith
  have part: "mset (map fst (fe_local eff)) + mset (map fst (snd (fe_eth eff))) + mset (map fst (snd (fe_l2tp eff)))
      = mset (map (flow_out_buffer \<circ> ?cls) frame)"
    using acc(1) by (simp only: eff snd_conv)
  obtain ieff where "l2tvpp_input_node bh (pl_main p) udp = Some ieff"
    by (rule node_results [OF _ assms(12)]) (use ok in \<open>auto simp: plugin_ok_def main_ok_def\<close>)
  with eff(1) part workers queues sum show ?thesis by blast
qed

theorem feature_packets_handled_witness:
  "\<exists>p boot calls eff. plugin_run alist_bihash is_pow2_ref max_log2_ref 4 5 p boot calls
    \<and> l2tvpp_flow_handoff_node (\<lambda>k. 7) (\<lambda>h. True) is_pow2_ref (\<lambda>q xs. 0) (pl_main p) (pl_flow p) 2
        [ex_buffer (ex_eth_frame PPP_PROTO_IP4)] = Some eff
    \<and> length (fe_local eff) + sum_list (map unat (fe_congestion eff)) = 1"
proof -
  obtain p boot calls where run: "plugin_run alist_bihash is_pow2_ref max_log2_ref 4 5 p boot calls"
    and en: "flow_enabled (pl_flow p) 1"
    using ex_plugin by blast
  have n: "unat (4 :: u32) < 65536" "unat (5 :: u32) + 9 \<le> 2 ^ 31" by simp_all
  obtain v0 v where v: "vpp_run 5 False vpp_boot boot = Some v0" "vpp_run 5 True v0 calls = Some v"
    and "plugin_agrees alist_bihash p v"
    using plugin_run_ok [OF run alist_bihash_ok pow2_ref_ok max_log2_ref_ok n] by blast
  then have f: "\<forall>b \<in> set [ex_buffer (ex_eth_frame PPP_PROTO_IP4)]. (''l2tvpp-flow-handoff'', b_rx b) \<in> vv_features v"
    using en by (simp add: plugin_agrees_def plugin_features_def)
  have "[ex_buffer (ex_eth_frame PPP_PROTO_IP4)] \<noteq> []" "unat (2 :: u32) \<le> unat (4 :: u32)" "\<forall>b \<in> set []. wf_buffer b"
    "length [ex_buffer (ex_eth_frame PPP_PROTO_IP4)] < 2 ^ 32"
    "\<forall>q xs. unat ((\<lambda>(q :: u32) (xs :: (vlib_buffer \<times> u16) list). 0 :: u32) q xs) \<le> length xs"
    by simp_all
  from feature_packets_handled [OF run alist_bihash_ok pow2_ref_ok max_log2_ref_ok n v f this, of "\<lambda>k. 7" "\<lambda>h. True"]
  obtain eff where "l2tvpp_flow_handoff_node (\<lambda>k. 7) (\<lambda>h. True) is_pow2_ref (\<lambda>q xs. 0) (pl_main p) (pl_flow p) 2
        [ex_buffer (ex_eth_frame PPP_PROTO_IP4)] = Some eff"
    and "length (fe_local eff) + (if snd (fe_eth eff) = [] then 0 else unat (0 :: u32))
        + (if snd (fe_l2tp eff) = [] then 0 else unat (0 :: u32)) + sum_list (map unat (fe_congestion eff)) =
      length [ex_buffer (ex_eth_frame PPP_PROTO_IP4)]"
    by (elim exE conjE) (rule that)
  with run show ?thesis by (intro exI conjI) (simp_all split: if_splits)
qed

text \<open>Enabling flow handoff switches session handoff off, but nothing keeps it off: a later request to
  switch it on is carried out, and the port leads to \<open>l2tvpp-handoff\<close> again although flow handoff is on.\<close>

lemma both_handoffs_on:
  "\<exists>p boot calls. plugin_run alist_bihash is_pow2_ref max_log2_ref 4 5 p boot calls
    \<and> flow_enabled (pl_flow p) 1 \<and> handoff_enabled (pl_main p)"
proof -
  obtain p boot calls where run: "plugin_run alist_bihash is_pow2_ref max_log2_ref 4 5 p boot calls"
    and en: "flow_enabled (pl_flow p) 1"
    using ex_plugin by blast
  obtain rv lm' cs where h: "l2tvpp_set_handoff (pl_main p) 1 = (rv, lm', cs)" by (metis surj_pair)
  then have "handoff_enabled lm'" by (auto simp: l2tvpp_set_handoff_def split: if_splits)
  with plugin_run.step [OF run plugin_step.handoff [OF h]] en show ?thesis by fastforce
qed

end
