(* ===== verification/Node_Graph.thy ===== *)
theory Node_Graph
  imports Plugin_Lifecycle Session_Handoff
begin

text \<open>
  How the plugin's nodes hang in VPP's graph: the registrations of the four nodes (name, error strings,
  next nodes), the two features on the \<open>device-input\<close> arc, and the functions that print packet traces.
  The lines printed for traced packets are unambiguous and agree with what happened to the packet.
\<close>

section \<open>Registrations\<close>

record vlib_node_registration =
  vn_name :: string
  vn_error_strings :: "string list"
  vn_next_nodes :: "string list"

record vnet_feature_registration =
  vf_arc_name :: string
  vf_node_name :: string
  vf_runs_before :: "string list"

definition l2tvpp_input_error_strings :: "string list" where
  "l2tvpp_input_error_strings =
     [''decapsulated'', ''sequenced, decapsulated'', ''offset, decapsulated'', ''control message, punted'',
      ''unknown session, punted'', ''non-IP PPP protocol, punted'', ''not v2, punted'', ''truncated, dropped'']"

fun input_next_index :: "l2tvpp_input_next \<Rightarrow> nat" where
  "input_next_index L2TVPP_INPUT_NEXT_IP4_INPUT = 0"
| "input_next_index L2TVPP_INPUT_NEXT_IP4_INPUT_NCS = 1"
| "input_next_index L2TVPP_INPUT_NEXT_IP6_INPUT = 2"
| "input_next_index L2TVPP_INPUT_NEXT_PUNT = 3"
| "input_next_index L2TVPP_INPUT_NEXT_DROP = 4"

definition l2tvpp_input_registration :: vlib_node_registration where
  "l2tvpp_input_registration =
     \<lparr>vn_name = ''l2tvpp-input'', vn_error_strings = l2tvpp_input_error_strings,
      vn_next_nodes = [''ip4-input'', ''ip4-input-no-checksum'', ''ip6-input'', ''ip4-punt'', ''error-drop'']\<rparr>"

definition l2tvpp_handoff_error_strings :: "string list" where
  "l2tvpp_handoff_error_strings = [''congestion drop'']"

definition l2tvpp_handoff_registration :: vlib_node_registration where
  "l2tvpp_handoff_registration =
     \<lparr>vn_name = ''l2tvpp-handoff'', vn_error_strings = l2tvpp_handoff_error_strings, vn_next_nodes = []\<rparr>"

fun encap_fp_next_index :: "l2tvpp_encap_fp_next \<Rightarrow> nat" where
  "encap_fp_next_index L2TVPP_ENCAP_FP_NEXT_ETHERNET_INPUT = 0"
| "encap_fp_next_index L2TVPP_ENCAP_FP_NEXT_IP4_MIDCHAIN = 1"

definition l2tvpp_encap_fastpath_registration :: vlib_node_registration where
  "l2tvpp_encap_fastpath_registration =
     \<lparr>vn_name = ''l2tvpp-encap-fastpath'', vn_error_strings = [],
      vn_next_nodes = [''ethernet-input'', ''ip4-midchain'']\<rparr>"

definition l2tvpp_encap_fastpath_feature :: vnet_feature_registration where
  "l2tvpp_encap_fastpath_feature =
     \<lparr>vf_arc_name = ''device-input'', vf_node_name = ''l2tvpp-encap-fastpath'', vf_runs_before = [''ethernet-input'']\<rparr>"

fun flow_next_index :: "l2tvpp_flow_handoff_next \<Rightarrow> nat" where
  "flow_next_index L2TVPP_FLOW_HANDOFF_NEXT_DROP = 0"
| "flow_next_index L2TVPP_FLOW_HANDOFF_NEXT_ETHERNET_INPUT = 1"
| "flow_next_index L2TVPP_FLOW_HANDOFF_NEXT_L2TVPP_INPUT = 2"

definition l2tvpp_flow_handoff_error_strings :: "string list" where
  "l2tvpp_flow_handoff_error_strings = [''congestion drop'']"

definition l2tvpp_flow_handoff_registration :: vlib_node_registration where
  "l2tvpp_flow_handoff_registration =
     \<lparr>vn_name = ''l2tvpp-flow-handoff'', vn_error_strings = l2tvpp_flow_handoff_error_strings,
      vn_next_nodes = [''error-drop'', ''ethernet-input'', ''l2tvpp-input'']\<rparr>"

definition l2tvpp_flow_handoff_feature :: vnet_feature_registration where
  "l2tvpp_flow_handoff_feature =
     \<lparr>vf_arc_name = ''device-input'', vf_node_name = ''l2tvpp-flow-handoff'', vf_runs_before = [''ethernet-input'']\<rparr>"

section \<open>Packet traces\<close>

text \<open>\<open>%04x\<close> and \<open>%08x\<close> of values of 16 and 32 bits: four, respectively eight, digits.\<close>

definition hex_digit :: "nat \<Rightarrow> char" where
  "hex_digit n = ''0123456789abcdef'' ! n"

fun hex :: "nat \<Rightarrow> nat \<Rightarrow> string" where
  "hex 0 n = []"
| "hex (Suc w) n = hex w (n div 16) @ [hex_digit (n mod 16)]"

definition format_l2tvpp_input_trace :: "l2tvpp_input_trace \<Rightarrow> string" where
  "format_l2tvpp_input_trace t =
     ''l2tvpp: tid '' @ dec_u (tr_tunnel_id t) @ '' sid '' @ dec_u (tr_session_id t)
     @ '' ppp 0x'' @ hex 4 (unat (tr_ppp_proto t)) @ '' session '' @ dec_d (tr_session_index t)
     @ '' sw_if_index '' @ dec_d (tr_sw_if_index t) @ '' next '' @ dec (input_next_index (tr_next t))"

definition format_l2tvpp_handoff_trace :: "l2tvpp_handoff_trace \<Rightarrow> string" where
  "format_l2tvpp_handoff_trace t =
     ''l2tvpp-handoff: tid '' @ dec_u (ht_tunnel_id t) @ '' sid '' @ dec_u (ht_session_id t)
     @ '' -> thread '' @ dec_u (ht_thread_index t)"

definition format_l2tvpp_encap_fp_trace :: "(u32 \<Rightarrow> string) \<Rightarrow> l2tvpp_encap_fp_trace \<Rightarrow> string" where
  "format_l2tvpp_encap_fp_trace format_ip4_address t =
     (if et_hit t
      then ''l2tvpp-encap-fastpath: '' @ format_ip4_address (et_dst t) @ '' -> adj '' @ dec_d (et_adj_index t)
        @ '' (ip4-midchain)''
      else ''l2tvpp-encap-fastpath: '' @ format_ip4_address (et_dst t) @ '' miss -> ethernet-input'')"

fun flow_kind_name :: "flow_kind \<Rightarrow> string" where
  "flow_kind_name L2TVPP_FLOW_KIND_LOCAL = ''local''"
| "flow_kind_name L2TVPP_FLOW_KIND_OUTER = ''outer 5-tuple''"
| "flow_kind_name L2TVPP_FLOW_KIND_INNER = ''inner 5-tuple''"
| "flow_kind_name L2TVPP_FLOW_KIND_FAST = ''inner 5-tuple fastpath''"

definition format_l2tvpp_flow_handoff_trace :: "l2tvpp_flow_handoff_trace \<Rightarrow> string" where
  "format_l2tvpp_flow_handoff_trace t =
     ''l2tvpp-flow-handoff: sw_if_index '' @ dec_d (ft_sw_if_index t) @ '' '' @ flow_kind_name (ft_kind t)
     @ '' hash 0x'' @ hex 8 (unat (ft_hash t)) @ '' -> thread '' @ dec_u (ft_thread_index t)"

section \<open>Numbers in traces are unambiguous\<close>

lemma split_at_space:
  "CHR '' '' \<notin> set xs \<Longrightarrow> CHR '' '' \<notin> set ys \<Longrightarrow>
     (xs @ CHR '' '' # as = ys @ CHR '' '' # bs) = (xs = ys \<and> as = bs)"
proof (induction xs arbitrary: ys)
  case Nil
  then show ?case by (cases ys) auto
next
  case (Cons x xs)
  then show ?case by (cases ys) auto
qed

lemma digit_char_inj:
  assumes "n < 10" and "m < 10"
  shows "(char_of (48 + n) :: char) = char_of (48 + m) \<longleftrightarrow> n = (m :: nat)"
proof
  assume "(char_of (48 + n) :: char) = char_of (48 + m)"
  then have "(of_char (char_of (48 + n) :: char) :: nat) = of_char (char_of (48 + m) :: char)" by simp
  with assms show "n = m" by simp
qed simp

lemma dec_chars: "c \<in> set (dec n) \<Longrightarrow> 48 \<le> (of_char c :: nat)"
proof (induction n rule: dec.induct)
  case (1 n)
  then show ?case by (subst (asm) (2) dec.simps) (auto split: if_splits)
qed

lemma dec_no_space [simp]: "CHR '' '' \<notin> set (dec n)" "CHR ''-'' \<notin> set (dec n)"
  using dec_chars [of "CHR '' ''" n] dec_chars [of "CHR ''-''" n] by auto

lemma dec_not_Nil [simp]: "dec n \<noteq> []" "[] \<noteq> dec n"
  by (subst dec.simps, simp)+

lemma dec_inj [simp]: "dec n = dec m \<longleftrightarrow> n = m"
proof (induction n arbitrary: m rule: dec.induct)
  case (1 n)
  note n = dec.simps [of n] and m = dec.simps [of m]
  show ?case
  proof (cases "n < 10 \<or> m < 10")
    case True
    then show ?thesis unfolding n m by (auto simp: digit_char_inj)
  next
    case False
    then have "dec n = dec m \<longleftrightarrow> n div 10 = m div 10 \<and> n mod 10 = m mod 10"
      unfolding n m using 1 [of "m div 10"] by (simp add: digit_char_inj)
    then show ?thesis by (metis div_mult_mod_eq)
  qed
qed

lemma dec_u_simps [simp]: "dec_u (x :: 'a :: len word) = dec_u y \<longleftrightarrow> x = y" "CHR '' '' \<notin> set (dec_u x)"
  by (simp_all add: dec_u_def word_unat_eq_iff)

lemma dec_d_simps [simp]: "dec_d x = dec_d y \<longleftrightarrow> x = y" "CHR '' '' \<notin> set (dec_d x)"
proof -
  have hd: "CHR ''-'' # xs \<noteq> dec n" "dec n \<noteq> CHR ''-'' # xs" for xs n
    by (metis dec_no_space(2) list.set_intros(1))+
  have "dec_d x = dec_d y \<longleftrightarrow> sint x = sint y"
    using hd by (auto simp: dec_d_def)
  then show "dec_d x = dec_d y \<longleftrightarrow> x = y" by (auto intro: signed_word_eqI [where ?'a = int])
  show "CHR '' '' \<notin> set (dec_d x)" by (simp add: dec_d_def)
qed

lemma hex_digit_facts:
  assumes "n < 16"
  shows "hex_digit n \<noteq> CHR '' ''" and "m < 16 \<Longrightarrow> hex_digit n = hex_digit m \<longleftrightarrow> n = m"
proof -
  have "distinct ''0123456789abcdef''" "CHR '' '' \<notin> set ''0123456789abcdef''" "length ''0123456789abcdef'' = 16"
    by simp_all
  with assms show "hex_digit n \<noteq> CHR '' ''" "m < 16 \<Longrightarrow> hex_digit n = hex_digit m \<longleftrightarrow> n = m"
    unfolding hex_digit_def by (metis nth_mem, metis nth_eq_iff_index_eq)
qed

lemma hex_no_space [simp]: "CHR '' '' \<notin> set (hex w n)"
proof (induction w arbitrary: n)
  case (Suc w)
  show ?case using Suc hex_digit_facts(1) [of "n mod 16"] by simp
qed simp

lemma hex_inj: "n < 16 ^ w \<Longrightarrow> m < 16 ^ w \<Longrightarrow> hex w n = hex w m \<longleftrightarrow> n = m"
proof (induction w arbitrary: n m)
  case (Suc w)
  have "n div 16 < 16 ^ w" "m div 16 < 16 ^ w" using Suc.prems by (simp_all add: less_mult_imp_div_less mult.commute)
  then have "hex (Suc w) n = hex (Suc w) m \<longleftrightarrow> n div 16 = m div 16 \<and> n mod 16 = m mod 16"
    using Suc.IH [of "n div 16" "m div 16"] hex_digit_facts(2) [of "n mod 16" "m mod 16"] by simp
  then show ?case by (metis div_mult_mod_eq)
qed simp

lemma hex_word_inj [simp]:
  "hex 4 (unat (x :: u16)) = hex 4 (unat y) \<longleftrightarrow> x = y" "hex 8 (unat (a :: u32)) = hex 8 (unat b) \<longleftrightarrow> a = b"
proof -
  have "unat (z :: u16) < 16 ^ 4" for z using unsigned_less [of z, where 'a = nat] by simp
  then show "hex 4 (unat x) = hex 4 (unat y) \<longleftrightarrow> x = y" by (simp add: hex_inj word_unat_eq_iff del: hex.simps)
  have "unat (z :: u32) < 16 ^ 8" for z using unat_u32_less [of z] by simp
  then show "hex 8 (unat a) = hex 8 (unat b) \<longleftrightarrow> a = b" by (simp add: hex_inj word_unat_eq_iff del: hex.simps)
qed

lemma input_next_index_inj [simp]: "input_next_index n = input_next_index m \<longleftrightarrow> n = m"
  by (cases n; cases m) simp_all

lemma input_trace_inj: "format_l2tvpp_input_trace t = format_l2tvpp_input_trace t' \<longleftrightarrow> t = t'"
  by (cases t; cases t') (auto simp: format_l2tvpp_input_trace_def split_at_space)

lemma handoff_trace_inj: "format_l2tvpp_handoff_trace t = format_l2tvpp_handoff_trace t' \<longleftrightarrow> t = t'"
  by (cases t; cases t') (auto simp: format_l2tvpp_handoff_trace_def split_at_space)


lemma flow_trace_inj: "format_l2tvpp_flow_handoff_trace t = format_l2tvpp_flow_handoff_trace t' \<longleftrightarrow> t = t'"
proof -
  have kinds: "flow_kind_name k @ '' hash 0x'' @ xs = flow_kind_name k' @ '' hash 0x'' @ ys \<longleftrightarrow> k = k' \<and> xs = ys" for k k' xs ys
    by (cases k; cases k') simp_all
  show ?thesis
    by (cases t; cases t') (auto simp: format_l2tvpp_flow_handoff_trace_def split_at_space kinds [simplified] simp del: hex.simps)
qed


lemmas registration_defs = l2tvpp_input_registration_def l2tvpp_handoff_registration_def
  l2tvpp_encap_fastpath_registration_def l2tvpp_flow_handoff_registration_def

section \<open>What a trace line tells\<close>

text \<open>Claim C40: (roundtrip) a line of \<open>show trace\<close> for \<open>l2tvpp-input\<close> tells what happened to the packet: for a
  traced packet one line is recorded, no other record prints the same line (so session, interface, ids,
  PPP protocol and next node can be read from it), the number after \<open>next\<close> is the position of the node
  the packet really goes to in the registered list of next nodes, and the interface is the one the packet
  carries on; the lines of the two handoff nodes identify their records in the same way.\<close>

theorem trace_lines_tell:
  assumes "objects_inv bh lm" and "wf_buffer b" and "VLIB_BUFFER_IS_TRACED \<in> b_flags b"
  shows "(\<exists>eff b' nxt t. l2tvpp_input_node bh lm [b] = Some eff \<and> ie_out eff = [(b', nxt)] \<and> ie_traces eff = [t]
      \<and> (\<forall>t'. format_l2tvpp_input_trace t' = format_l2tvpp_input_trace t \<longrightarrow> t' = t)
      \<and> vn_next_nodes l2tvpp_input_registration ! input_next_index (tr_next t) =
          (case nxt of L2TVPP_INPUT_NEXT_IP4_INPUT \<Rightarrow> ''ip4-input''
           | L2TVPP_INPUT_NEXT_IP4_INPUT_NCS \<Rightarrow> ''ip4-input-no-checksum''
           | L2TVPP_INPUT_NEXT_IP6_INPUT \<Rightarrow> ''ip6-input''
           | L2TVPP_INPUT_NEXT_PUNT \<Rightarrow> ''ip4-punt''
           | L2TVPP_INPUT_NEXT_DROP \<Rightarrow> ''error-drop'')
      \<and> tr_sw_if_index t = b_rx b')
    \<and> (\<forall>h h'. format_l2tvpp_handoff_trace h = format_l2tvpp_handoff_trace h' \<longrightarrow> h = h')
    \<and> (\<forall>f f'. format_l2tvpp_flow_handoff_trace f = format_l2tvpp_flow_handoff_trace f' \<longrightarrow> f = f')"
proof -
  have "\<forall>x \<in> set [b]. wf_buffer x" using assms(2) by simp
  then obtain rs where rs: "list_all2 (\<lambda>b r. node_packet bh lm b = Some r) [b] rs"
    and node: "l2tvpp_input_node bh lm [b] = Some (input_finish (fold input_account rs input_loop_start))"
    by (rule node_results [OF assms(1)])
  then obtain r where r: "rs = [r]" "node_packet bh lm b = Some r" by (auto simp: list_all2_Cons1)
  have "b_flags (ir_buffer r) = b_flags b"
    by (rule node_packet_cases [OF assms(1,2) r(2)])
      (auto simp: input_drop_def input_punt_def input_decap_def l2tvpp_rewind_to_ip_def vlib_buffer_advance_def Let_def)
  with assms(3) node r(1) have "\<exists>eff. l2tvpp_input_node bh lm [b] = Some eff \<and> ie_out eff = [(ir_buffer r, ir_next r)]
      \<and> ie_traces eff = [\<lparr>tr_session_index = ir_session_index r, tr_sw_if_index = b_rx (ir_buffer r),
          tr_tunnel_id = ir_tid r, tr_session_id = ir_sid r, tr_ppp_proto = ir_ppp_proto r, tr_next = ir_next r\<rparr>]"
    by (simp add: input_finish_def input_account_def input_loop_start_def Let_def input_account_rx_def split: option.splits)
  moreover have "vn_next_nodes l2tvpp_input_registration ! input_next_index (ir_next r) =
      (case ir_next r of L2TVPP_INPUT_NEXT_IP4_INPUT \<Rightarrow> ''ip4-input''
       | L2TVPP_INPUT_NEXT_IP4_INPUT_NCS \<Rightarrow> ''ip4-input-no-checksum'' | L2TVPP_INPUT_NEXT_IP6_INPUT \<Rightarrow> ''ip6-input''
       | L2TVPP_INPUT_NEXT_PUNT \<Rightarrow> ''ip4-punt'' | L2TVPP_INPUT_NEXT_DROP \<Rightarrow> ''error-drop'')"
    by (cases "ir_next r") (simp_all add: registration_defs)
  ultimately show ?thesis
    by (auto simp: input_trace_inj handoff_trace_inj flow_trace_inj)
qed

theorem trace_lines_tell_witness:
  "\<exists>eff b' nxt t. l2tvpp_input_node alist_bihash ex_main [ex_control\<lparr>b_flags := {VLIB_BUFFER_IS_TRACED}\<rparr>] = Some eff
    \<and> ie_out eff = [(b', nxt)] \<and> ie_traces eff = [t]"
proof -
  have "wf_buffer (ex_control\<lparr>b_flags := {VLIB_BUFFER_IS_TRACED}\<rparr>)"
    "VLIB_BUFFER_IS_TRACED \<in> b_flags (ex_control\<lparr>b_flags := {VLIB_BUFFER_IS_TRACED}\<rparr>)"
    using ex_wf(2) by (simp_all add: wf_buffer_def)
  from conjunct1 [OF trace_lines_tell [OF ex_main_inv this]] show ?thesis by blast
qed

end
