(* ===== verification/Adjacency_Life.thy ===== *)
theory Adjacency_Life
  imports Encap Objects_Properties
begin

text \<open>
  An installed encapsulation over time.  \<open>l2tvpp_update_adj\<close> leaves two things with an adjacency: the
  rewrite, and a pointer to the session for \<open>l2tvpp_fixup\<close>.  Packets use both much later, after other
  tunnels, sessions, routes and adjacencies have come and gone.  The pointer is the address of a slot of
  the session pool, whose memory VPP may move when the pool grows: it is modelled as a pair of the
  allocation it points into and the slot, and reading through it is possible only while the pool is
  still that allocation.
\<close>

section \<open>The pool's memory\<close>

type_synonym fixup_pointer = "nat \<times> u32"

record 'h pool_memory =
  pm_main :: "'h l2tvpp_main"
  pm_base :: nat

definition fixup_read :: "'h pool_memory \<Rightarrow> fixup_pointer \<Rightarrow> l2tvpp_session option" where
  "fixup_read pm ptr = (if fst ptr = pm_base pm then pool_elt (sessions (pm_main pm)) (snd ptr) else None)"

text \<open>What happens between the installation and a packet, as long as session \<open>si\<close> is not deleted.  Only
  an operation that makes the pool longer can move it, to an allocation not used before.\<close>

inductive adj_life :: "'h bihash_8_8 \<Rightarrow> ip_csum \<Rightarrow> u32 \<Rightarrow> 'h pool_memory \<Rightarrow> 'h pool_memory \<Rightarrow> bool"
  for bh :: "'h bihash_8_8" and cs si where
  refl: "adj_life bh cs si pm pm"
| control: "adj_life bh cs si pm pm1 \<Longrightarrow> obj_step bh (pm_main pm1) lm' \<Longrightarrow> pool_elt (sessions lm') si \<noteq> None \<Longrightarrow>
     base' = pm_base pm1 \<or> length (sessions (pm_main pm1)) < length (sessions lm') \<and> pm_base pm1 < base' \<Longrightarrow>
     adj_life bh cs si pm \<lparr>pm_main = lm', pm_base = base'\<rparr>"
| adjacency: "adj_life bh cs si pm pm1 \<Longrightarrow> l2tvpp_update_adj cs (pm_main pm1) sw ai link = Some (lm', calls) \<Longrightarrow>
     adj_life bh cs si pm \<lparr>pm_main = lm', pm_base = pm_base pm1\<rparr>"

section \<open>A live session keeps its tunnel\<close>

lemma tunnel_op_cases:
  assumes "l2tvpp_tunnel_add_del slot lm lip pip lp pp tid ptid is_add = (rv, lm', out)"
  obtains "tunnels lm' = tunnels lm" "sessions lm' = sessions lm"
  | t where "tunnels lm' = pool_set (tunnels lm) slot t" "sessions lm' = sessions lm"
  | i t where "pool_elt (tunnels lm) i = Some t" "t_n_sessions t = 0" "tunnels lm' = pool_put (tunnels lm) i"
      "sessions lm' = sessions lm"
proof -
  have "tunnels lm' = tunnels lm \<and> sessions lm' = sessions lm
    \<or> (\<exists>t. tunnels lm' = pool_set (tunnels lm) slot t \<and> sessions lm' = sessions lm)
    \<or> (\<exists>i t. pool_elt (tunnels lm) i = Some t \<and> t_n_sessions t = 0 \<and> tunnels lm' = pool_put (tunnels lm) i
         \<and> sessions lm' = sessions lm)"
    using assms by (simp add: l2tvpp_tunnel_add_del_def Let_def split: if_splits option.splits) force+
  then show thesis using that by blast
qed

lemma session_op_cases:
  assumes "l2tvpp_session_add_del bh slot hw sw lm ti sid psid acfc pfc is_add = Some (rv, lm', out, calls)"
  obtains "tunnels lm' = tunnels lm" "sessions lm' = sessions lm"
  | t n x where "pool_elt (tunnels lm) ti = Some t" "tunnels lm' = pool_set (tunnels lm) ti (t\<lparr>t_n_sessions := n\<rparr>)"
      "sessions lm' = pool_set (sessions lm) slot x"
  | t n i where "pool_elt (tunnels lm) ti = Some t" "tunnels lm' = pool_set (tunnels lm) ti (t\<lparr>t_n_sessions := n\<rparr>)"
      "sessions lm' = pool_put (sessions lm) i"
proof -
  have "tunnels lm' = tunnels lm \<and> sessions lm' = sessions lm
    \<or> (\<exists>t n. pool_elt (tunnels lm) ti = Some t \<and> tunnels lm' = pool_set (tunnels lm) ti (t\<lparr>t_n_sessions := n\<rparr>)
         \<and> ((\<exists>x. sessions lm' = pool_set (sessions lm) slot x) \<or> (\<exists>i. sessions lm' = pool_put (sessions lm) i)))"
    using assms
    by (auto simp: l2tvpp_session_add_del_def l2tvpp_session_add_def l2tvpp_session_del_def Let_def bind_eq_Some_conv
        split: option.splits if_splits)
  then show thesis using that by blast
qed

definition same_tunnel :: "l2tvpp_tunnel \<Rightarrow> l2tvpp_tunnel \<Rightarrow> bool" where
  "same_tunnel t t' \<longleftrightarrow> t\<lparr>t_n_sessions := 0\<rparr> = t'\<lparr>t_n_sessions := 0\<rparr>"

lemma same_tunnel_simps [simp]: "same_tunnel t t" "same_tunnel (t\<lparr>t_n_sessions := n\<rparr>) t'  = same_tunnel t t'"
  by (simp_all add: same_tunnel_def)

lemma obj_step_keeps_session:
  assumes "obj_step bh lm lm'" and "objects_inv bh lm" and "pool_elt (sessions lm') si \<noteq> None"
    and "pool_elt (sessions lm) si = Some s" and "pool_elt (tunnels lm) (s_tunnel_index s) = Some t"
  shows "pool_elt (sessions lm') si = Some s \<and> (\<exists>t'. pool_elt (tunnels lm') (s_tunnel_index s) = Some t' \<and> same_tunnel t' t)"
  using assms(1)
proof (cases rule: obj_step.cases)
  case (tunnel slot is_add tid lip pip lp pp ptid rv out)
  show ?thesis
  proof (rule tunnel_op_cases [OF tunnel(3)], goal_cases)
    case 1
    with assms(4,5) show ?case by auto
  next
    case 2
    with assms(4,5) tunnel(1) show ?case by (auto simp: pool_elt_set pool_is_free_index_def)
  next
    case (3 i t0)
    then have "i \<noteq> s_tunnel_index s" using tunnel_unused_iff [OF assms(2) 3(1)] assms(4) by blast
    with 3 assms(4,5) show ?case by (auto simp: pool_elt_put)
  qed
next
  case (session slot sw hw ti sid psid acfc pfc is_add rv out calls)
  show ?thesis
  proof (rule session_op_cases [OF session(4)], goal_cases)
    case 1
    with assms(4,5) show ?case by auto
  next
    case 2
    with assms(4,5) session(1) show ?case by (auto simp: pool_elt_set pool_is_free_index_def)
  next
    case 3
    with assms(3-5) show ?case by (auto simp: pool_elt_set pool_elt_put split: if_splits)
  qed
next
  case route
  with assms(4,5) show ?thesis using route_frame by fastforce
next
  case handoff
  then have "sessions lm' = sessions lm" "tunnels lm' = tunnels lm"
    by (auto simp: l2tvpp_set_handoff_def Let_def split: if_splits)
  with assms(4,5) show ?thesis by auto
qed


section \<open>The encapsulation stays valid\<close>

text \<open>Session \<open>si\<close> is live, belongs to the tunnel of the rewrite, and holds the checksum of its IP header.\<close>

definition encap_ready :: "'h bihash_8_8 \<Rightarrow> ip_csum \<Rightarrow> u32 \<Rightarrow> l2tvpp_tunnel \<Rightarrow> 'h l2tvpp_main \<Rightarrow> bool" where
  "encap_ready bh cs si t0 lm \<longleftrightarrow> objects_inv bh lm
     \<and> (\<exists>s t. pool_elt (sessions lm) si = Some s \<and> pool_elt (tunnels lm) (s_tunnel_index s) = Some t
          \<and> same_tunnel t t0 \<and> s_encap_ip_csum0 s = ip4_header_checksum cs (rewrite_ip t0))"

lemma rewrite_ip_same: "same_tunnel t t' \<Longrightarrow> rewrite_ip t = rewrite_ip t'"
proof -
  have n: "rewrite_ip (x\<lparr>t_n_sessions := 0\<rparr>) = rewrite_ip x" for x by (simp add: rewrite_ip_def)
  assume "same_tunnel t t'"
  then show ?thesis using n [of t] n [of t'] by (simp add: same_tunnel_def)
qed

lemma encap_ready_control:
  assumes "encap_ready bh cs si t0 lm" and "obj_step bh lm lm'" and "pool_elt (sessions lm') si \<noteq> None"
  shows "encap_ready bh cs si t0 lm'"
proof -
  obtain s t where inv: "objects_inv bh lm" and s: "pool_elt (sessions lm) si = Some s"
    "pool_elt (tunnels lm) (s_tunnel_index s) = Some t" and "same_tunnel t t0"
    "s_encap_ip_csum0 s = ip4_header_checksum cs (rewrite_ip t0)"
    using assms(1) by (auto simp: encap_ready_def)
  with obj_step_keeps_session [OF assms(2) inv assms(3) s] obj_step_inv [OF assms(2) inv] show ?thesis
    by (auto simp: encap_ready_def same_tunnel_def)
qed

lemma encap_ready_adjacency:
  assumes "encap_ready bh cs si t0 lm" and "l2tvpp_update_adj cs lm sw ai link = Some (lm', calls)"
  shows "encap_ready bh cs si t0 lm'"
proof -
  obtain s t where inv: "objects_inv bh lm" and s: "pool_elt (sessions lm) si = Some s"
    and t: "pool_elt (tunnels lm) (s_tunnel_index s) = Some t" "same_tunnel t t0"
    and c: "s_encap_ip_csum0 s = ip4_header_checksum cs (rewrite_ip t0)"
    using assms(1) by (auto simp: encap_ready_def)
  have inv': "objects_inv bh lm'" using update_adj_run [OF inv, of cs sw ai link] assms(2) by auto
  have "lm' = lm \<or> (\<exists>sj x u rw x'. pool_elt (sessions lm) sj = Some x \<and> pool_elt (tunnels lm) (s_tunnel_index x) = Some u
      \<and> l2tvpp_build_rewrite_i cs u x link = Some (rw, x') \<and> lm' = lm\<lparr>sessions := pool_set (sessions lm) sj x'\<rparr>)"
    using assms(2) by (fastforce simp: l2tvpp_update_adj_def Let_def bind_eq_Some_conv split: if_splits option.splits prod.splits)
  then consider "lm' = lm"
    | sj x u rw x' where "pool_elt (sessions lm) sj = Some x" "pool_elt (tunnels lm) (s_tunnel_index x) = Some u"
      "l2tvpp_build_rewrite_i cs u x link = Some (rw, x')" "lm' = lm\<lparr>sessions := pool_set (sessions lm) sj x'\<rparr>"
    by blast
  then show ?thesis
  proof cases
    case 1
    with assms(1) show ?thesis by simp
  next
    case 2
    have x': "x' = x\<lparr>s_encap_ip_csum0 := ip4_header_checksum cs (rewrite_ip u)\<rparr>"
      by (rule build_rewrite_Some [OF 2(3)])
    have "rewrite_ip t = rewrite_ip t0" by (rule rewrite_ip_same [OF t(2)])
    with 2 s t c inv' x' show ?thesis by (cases "sj = si") (auto simp: encap_ready_def pool_elt_set)
  qed
qed

lemma adj_life_ready:
  assumes "adj_life bh cs si pm pm'" and "encap_ready bh cs si t0 (pm_main pm)"
  shows "encap_ready bh cs si t0 (pm_main pm') \<and> pm_base pm \<le> pm_base pm'"
  using assms by (induction rule: adj_life.induct) (auto intro: encap_ready_control encap_ready_adjacency)

lemma fixup_cong: "s_encap_ip_csum0 s = s_encap_ip_csum0 s' \<Longrightarrow> l2tvpp_fixup cs s b = l2tvpp_fixup cs s' b"
  by (simp add: l2tvpp_fixup_def)

text \<open>Claim C16: (safety) an encapsulation stays valid for the life of its session: once \<open>l2tvpp_update_adj\<close>
  has installed rewrite and fixup data for a session, then after any further tunnel, session, route and
  handoff operations and adjacency updates that do not delete that session, the fixup data still leads to
  the session, and rewrite and fixup still make a packet for the tunnel's peer with a valid IP header,
  as long as the memory of the session pool has not been moved.  Once it has, the fixup data leads
  nowhere.\<close>

theorem installed_encap_stays_valid:
  assumes "obj_reachable bh lm" and "bihash_ok bh" and "csum_ok cs"
    and "session_of_sw_if_index lm sw = Some si" and "pool_elt (sessions lm) si = Some s"
    and "pool_elt (tunnels lm) (s_tunnel_index s) = Some t"
    and "l2tvpp_update_adj cs lm sw ai VNET_LINK_IP4 = Some (lm1, calls)"
    and "adj_life bh cs si \<lparr>pm_main = lm1, pm_base = base\<rparr> pm"
  shows "\<exists>rw. Adj_nbr_midchain_update_rewrite ai si rw \<in> set calls
    \<and> (if pm_base pm = base
       then \<exists>s'. fixup_read pm (base, si) = Some s'
         \<and> (\<forall>b inner. wf_buffer b \<and> cur_bytes b = rw @ inner \<longrightarrow> (\<exists>b'. l2tvpp_fixup cs s' b = Some b'
              \<and> ones_sum (take 20 (cur_bytes b')) mod 65535 = 0
              \<and> take 4 (drop 16 (cur_bytes b')) = st32 (ip46_ip4 (t_peer_ip t))))
       else fixup_read pm (base, si) = None)"
proof -
  note inv = reachable_inv [OF assms(1,2)]
  obtain rw s1 where bld: "l2tvpp_build_rewrite_i cs t s VNET_LINK_IP4 = Some (rw, s1)"
    by (simp add: l2tvpp_build_rewrite_i_def link_proto_def)
  have upd: "lm1 = lm\<lparr>sessions := pool_set (sessions lm) si s1\<rparr>" "Adj_nbr_midchain_update_rewrite ai si rw \<in> set calls"
    by (rule update_adj_session [OF inv assms(4), of cs ai VNET_LINK_IP4]; use assms(5-7) bld in simp)+
  have s1: "s1 = s\<lparr>s_encap_ip_csum0 := ip4_header_checksum cs (rewrite_ip t)\<rparr>" by (rule build_rewrite_Some [OF bld])
  have "objects_inv bh lm1" using update_adj_run [OF inv, of cs sw ai VNET_LINK_IP4] assms(7) by auto
  then have "encap_ready bh cs si t lm1" using assms(6) by (auto simp: encap_ready_def upd(1) s1 pool_elt_set)
  with adj_life_ready [OF assms(8)] have ready: "encap_ready bh cs si t (pm_main pm)" by simp
  then obtain s' where s': "pool_elt (sessions (pm_main pm)) si = Some s'"
    "s_encap_ip_csum0 s' = ip4_header_checksum cs (rewrite_ip t)"
    by (auto simp: encap_ready_def)
  have fx: "l2tvpp_fixup cs s' b = l2tvpp_fixup cs s1 b" for b by (rule fixup_cong) (simp add: s' s1)
  have "\<exists>b'. l2tvpp_fixup cs s' b = Some b' \<and> ones_sum (take 20 (cur_bytes b')) mod 65535 = 0
      \<and> take 4 (drop 16 (cur_bytes b')) = st32 (ip46_ip4 (t_peer_ip t))"
    if "wf_buffer b" "cur_bytes b = rw @ inner" for b inner
    unfolding fx by (rule encap_wire_header [OF assms(3) bld that]) (intro exI conjI)
  with s'(1) upd(2) show ?thesis by (intro exI [of _ rw]) (auto simp: fixup_read_def)
qed


theorem installed_encap_stays_valid_witness:
  "\<exists>lm1 calls lm2 rw s'. l2tvpp_update_adj ref_csum ex_main 5 9 VNET_LINK_IP4 = Some (lm1, calls)
    \<and> fst (snd (l2tvpp_set_handoff lm1 1)) = lm2 \<and> Adj_nbr_midchain_update_rewrite 9 0 rw \<in> set calls
    \<and> fixup_read \<lparr>pm_main = lm2, pm_base = 0\<rparr> (0, 0) = Some s'"
proof -
  have t: "pool_elt (tunnels ex_main) (s_tunnel_index ex_session) =
      Some ((new_tunnel ex_local ex_peer 1701 1701 100 200)\<lparr>t_n_sessions := 1\<rparr>)"
    by (simp add: ex_main_eq pool_elt_def ex_session_def)
  obtain lm1 calls where u: "l2tvpp_update_adj ref_csum ex_main 5 9 VNET_LINK_IP4 = Some (lm1, calls)"
    using update_adj_run [OF ex_main_inv, of ref_csum 5 9 VNET_LINK_IP4] by blast
  obtain rv lm2 cs2 where h: "l2tvpp_set_handoff lm1 1 = (rv, lm2, cs2)" by (metis surj_pair)
  have "pool_elt (sessions lm2) 0 \<noteq> None"
  proof (rule update_adj_session [OF ex_main_inv ex_main_session_of, of ref_csum 9 VNET_LINK_IP4])
    fix s t
    assume "l2tvpp_update_adj ref_csum ex_main 5 9 VNET_LINK_IP4 = Some
      (case l2tvpp_build_rewrite_i ref_csum t s VNET_LINK_IP4 of
         None \<Rightarrow> (ex_main, [])
       | Some (rw, s') \<Rightarrow> (ex_main\<lparr>sessions := pool_set (sessions ex_main) 0 s'\<rparr>,
           [Adj_nbr_midchain_update_rewrite 9 0 rw,
            Adj_midchain_delegate_stack 9 (t_encap_fib_index t) (ip46_ip4 (t_peer_ip t))]))"
    then have "pool_elt (sessions lm1) 0 \<noteq> None"
      using u ex_session_live by (auto simp: pool_elt_set split: option.splits)
    moreover have "sessions lm2 = sessions lm1" using h by (auto simp: l2tvpp_set_handoff_def Let_def split: if_splits)
    ultimately show ?thesis by simp
  qed
  then have "adj_life alist_bihash ref_csum 0 \<lparr>pm_main = lm1, pm_base = 0\<rparr> \<lparr>pm_main = lm2, pm_base = 0\<rparr>"
    using adj_life.control [OF adj_life.refl, of alist_bihash "\<lparr>pm_main = lm1, pm_base = 0\<rparr>" lm2 0 0 ref_csum]
      obj_step.handoff [OF h, of alist_bihash] by simp
  from installed_encap_stays_valid [OF ex_reachable alist_bihash_ok ref_csum_ok ex_main_session_of ex_session_live t u this]
  obtain rw s' where "Adj_nbr_midchain_update_rewrite 9 0 rw \<in> set calls"
    "fixup_read \<lparr>pm_main = lm2, pm_base = 0\<rparr> (0, 0) = Some s'"
    by auto
  with u h show ?thesis by auto
qed

text \<open>The pool can be moved: adding a second session to the example makes it longer.\<close>

lemma moved_pool_strands_fixup:
  assumes "l2tvpp_session_add_del alist_bihash 1 8 6 ex_main 0 1001 2001 0 0 True = Some (rv, lm', out, calls)"
  shows "adj_life alist_bihash cs 0 \<lparr>pm_main = ex_main, pm_base = 0\<rparr> \<lparr>pm_main = lm', pm_base = 1\<rparr>
    \<and> fixup_read \<lparr>pm_main = lm', pm_base = 1\<rparr> (0, 0) = None"
proof -
  have "bh_search alist_bihash (session_by_key ex_main) (l2tvpp_session_key 100 1001) = None"
    by (simp add: ex_main_eq alist_bihash_def session_key_inj)
  then have lm': "sessions lm' = pool_set (sessions ex_main) 1 \<lparr>s_tunnel_index = 0, s_local_tid = 100, s_local_sid = 1001,
      s_peer_sid = 2001, s_acfc = 0, s_pfc = 0, s_sw_if_index = 6, s_hw_if_index = 8, s_encap_ip_csum0 = 0\<rparr>"
    using assms by (auto simp: l2tvpp_session_add_del_def l2tvpp_session_add_def ex_main_eq pool_elt_def new_tunnel_def)
  have "obj_step alist_bihash ex_main lm'"
    by (rule obj_step.session [OF _ _ _ assms])
      (simp_all add: pool_is_free_index_def pool_elt_def ex_main_eq session_of_sw_if_index_def)
  moreover have "pool_elt (sessions lm') 0 \<noteq> None" "length (sessions ex_main) < length (sessions lm')"
    by (simp_all add: lm' ex_main_eq pool_set_def pool_elt_def)
  ultimately show ?thesis
    using adj_life.control [OF adj_life.refl, of alist_bihash "\<lparr>pm_main = ex_main, pm_base = 0\<rparr>" lm' 0 1 cs]
    by (simp add: fixup_read_def)
qed

end
