(* ===== verification/Upstream.thy ===== *)
theory Upstream
  imports Flow_Dispatch
begin

text \<open>
  From the LAC to the subscriber's interface through the flow handoff fast path.  \<open>Flow_Properties\<close>
  shows that the fast path takes only packets that pass the checks it bypasses; here is the converse for
  the packets \<open>l2tvpp-input\<close> finds IP in.  A data frame of a live session then goes from the wire to its
  session's interface, and the packets of one inner 5-tuple flow go to one worker in order.
\<close>

section \<open>The classifier's walk is the walk of l2tvpp-input\<close>

lemma input_skip_flow_skip:
  assumes "k \<le> length bs" and "l2tvpp_input_skip (drop k bs) (length bs - k) flags off = Some (Walk_to cur err)"
  shows "flow_skip bs flags (k + off) = Some (Some (k + cur))"
proof (cases "flags AND L2TVPP_HDR_O \<noteq> 0")
  case True
  define c1 where "c1 = (if flags AND L2TVPP_HDR_S \<noteq> 0 then off + 4 else off)"
  from True assms(2) obtain sz where sz: "rd16 (drop k bs) c1 = Some sz" "cur = c1 + 2 + unat sz"
    "cur + 4 \<le> length bs - k"
    by (auto simp: l2tvpp_input_skip_def Let_def bind_eq_Some_conv c1_def [symmetric] split: if_splits)
  moreover have "(if flags AND L2TVPP_HDR_S \<noteq> 0 then k + off + 4 else k + off) = k + c1"
    by (simp add: c1_def)
  ultimately show ?thesis
    using True assms(1) by (simp add: flow_skip_def Let_def rd16_drop)
next
  case False
  with assms show ?thesis
    by (auto simp: flow_skip_def l2tvpp_input_skip_def Let_def split: if_splits)
qed

text \<open>The part of a frame behind the outer headers is a data packet in which \<open>l2tvpp-input\<close> finds IPv4
  or IPv6.\<close>

definition carries_ip :: "bytes \<Rightarrow> bool" where
  "carries_ip bs \<longleftrightarrow> (\<exists>flags tid sid off cur err ppp cur2.
     l2tvpp_parse_hdr bs (length bs) = Some (L2TVPP_HDR_DATA flags tid sid off)
     \<and> l2tvpp_input_skip bs (length bs) flags off = Some (Walk_to cur err)
     \<and> l2tvpp_input_ppp bs cur = Some (ppp, cur2) \<and> (ppp = PPP_PROTO_IP4 \<or> ppp = PPP_PROTO_IP6))"

lemma input_ppp_drop:
  assumes "k \<le> length bs"
  shows "l2tvpp_input_ppp bs (k + cur) = map_option (\<lambda>(p, c). (p, k + c)) (l2tvpp_input_ppp (drop k bs) cur)"
  using input_ppp_shift [of "take k bs" "drop k bs" cur] assms by simp

lemma flow_walk_iff:
  assumes "l2tvpp_parse_hdr (drop 42 bs) (length bs - 42) = Some (L2TVPP_HDR_DATA flags tid sid off)"
  shows "carries_ip (drop 42 bs) \<longleftrightarrow>
    (\<exists>cur inner. flow_skip bs flags (42 + off) = Some (Some cur) \<and> flow_ppp bs cur = Some (Some inner))"
proof
  have len: "42 \<le> length bs" using parse_data_length [OF assms] by simp
  {
    assume "carries_ip (drop 42 bs)"
    then obtain cur err ppp cur2 where
      w: "l2tvpp_input_skip (drop 42 bs) (length bs - 42) flags off = Some (Walk_to cur err)"
      and p: "l2tvpp_input_ppp (drop 42 bs) cur = Some (ppp, cur2)" "ppp = PPP_PROTO_IP4 \<or> ppp = PPP_PROTO_IP6"
      using assms by (auto simp: carries_ip_def)
    note sk = input_skip_flow_skip [OF len w]
    have "l2tvpp_input_ppp bs (42 + cur) = Some (ppp, 42 + cur2)"
      using p(1) by (simp add: input_ppp_drop [OF len])
    with p(2) flow_ppp_input_ppp [OF flow_skip_room [OF sk]]
    have "flow_ppp bs (42 + cur) = Some (Some (42 + cur2))" by simp
    with sk show "\<exists>cur inner. flow_skip bs flags (42 + off) = Some (Some cur) \<and> flow_ppp bs cur = Some (Some inner)"
      by blast
  }
  assume "\<exists>cur inner. flow_skip bs flags (42 + off) = Some (Some cur) \<and> flow_ppp bs cur = Some (Some inner)"
  then obtain cur inner where sk: "flow_skip bs flags (42 + off) = Some (Some cur)"
    and pp: "flow_ppp bs cur = Some (Some inner)" by blast
  obtain err where w: "l2tvpp_input_skip (drop 42 bs) (length bs - 42) flags off = Some (Walk_to (cur - 42) err)"
    and c: "42 \<le> cur"
    using flow_skip_input_skip [OF len sk] by blast
  obtain ppp where ip: "l2tvpp_input_ppp bs cur = Some (ppp, inner)" "ppp = PPP_PROTO_IP4 \<or> ppp = PPP_PROTO_IP6"
    by (rule flow_ppp_Some [OF flow_skip_room [OF sk] pp])
  have "l2tvpp_input_ppp bs (42 + (cur - 42)) = Some (ppp, inner)" using ip(1) c by simp
  then obtain c2 where "l2tvpp_input_ppp (drop 42 bs) (cur - 42) = Some (ppp, c2)"
    unfolding input_ppp_drop [OF len] by auto
  with assms w ip(2) show "carries_ip (drop 42 bs)"
    by (auto simp: carries_ip_def)
qed

section \<open>The fast path is complete\<close>

lemma flow_l2tp_is_fast:
  assumes "want_hash \<longrightarrow> (\<exists>cur inner. flow_skip bs flags (l2tp + off) = Some (Some cur) \<and> flow_ppp bs cur = Some (Some inner))"
  shows "\<exists>c. flow_l2tp crc b bs want_hash True p udp l2tp flags off = Some c \<and> fc_kind c = L2TVPP_FLOW_KIND_FAST"
proof (cases want_hash)
  case True
  with assms obtain cur inner where w: "flow_skip bs flags (l2tp + off) = Some (Some cur)"
    "flow_ppp bs cur = Some (Some inner)" by blast
  obtain h where "l2tvpp_hash_ip crc bs inner = Some h" using hash_ip_defined by blast
  with True w show ?thesis by (cases h) (simp_all add: flow_l2tp_def)
qed (simp add: flow_l2tp_def)

lemma and_submask:
  fixes x :: u16
  assumes "x AND m = 0" and "m AND n = n"
  shows "x AND n = 0"
proof -
  have "x AND n = (x AND m) AND n" by (simp only: and.assoc assms(2))
  then show ?thesis by (simp add: assms(1))
qed

lemma flow_ip4_is_fast:
  assumes checks: "outer_checks csum_valid lm bs 14" and walk: "want_hash \<longrightarrow> carries_ip (drop 42 bs)"
  shows "\<exists>c. flow_ip4 crc csum_valid lm b bs True want_hash 14 False = Some c \<and> fc_kind c = L2TVPP_FLOW_KIND_FAST"
proof -
  obtain frag len dst flags tid sid off where
    ip: "rd8 bs 14 = Some 0x45" "rd8 bs 23 = Some 17" "csum_valid (take 20 (drop 14 bs))"
      "rd16 bs 20 = Some frag" "frag AND 0x3fff = 0" "rd16 bs 16 = Some len" "unat len \<le> length bs - 14"
      "34 \<le> unat len" "ld32 bs 30 = Some dst" "dst \<in> set (local_ip4s lm)" "rd16 bs 36 = Some L2TVPP_UDP_PORT"
    and hdr: "l2tvpp_parse_hdr (drop 42 bs) (length bs - 42) = Some (L2TVPP_HDR_DATA flags tid sid off)"
    using checks by (auto simp: outer_checks_def)
  have len: "48 \<le> length bs" using parse_data_length [OF hdr] by simp
  have frag: "frag AND 0x1fff = 0" "frag AND 0x2000 = 0"
    using and_submask [OF ip(5), of "0x1fff"] and_submask [OF ip(5), of "0x2000"] by simp_all
  have "flow_fast_checks csum_valid lm bs 14 True False = Some True"
    using ip len by (simp add: flow_fast_checks_def rdn_def l2tvpp_is_local_ip4_def list_ex_iff)
  moreover have "\<exists>c. flow_l2tp crc b bs want_hash True 14 34 42 flags off = Some c \<and> fc_kind c = L2TVPP_FLOW_KIND_FAST"
    using walk flow_walk_iff [OF hdr] by (intro flow_l2tp_is_fast) simp
  moreover have "ip4_header_bytes 0x45 = 20" by (simp add: ip4_header_bytes_def)
  ultimately show ?thesis
    using ip hdr len frag by (simp add: flow_ip4_def Let_def FLOW_IP_PROTOCOL_UDP_def)
qed

lemma classify_is_fast:
  assumes "rd16 (cur_bytes b) 12 = Some ETHERNET_TYPE_IP4" and "outer_checks csum_valid lm (cur_bytes b) 14"
    and "want_hash \<longrightarrow> carries_ip (drop 42 (cur_bytes b))"
  shows "\<exists>c. l2tvpp_flow_classify crc csum_valid lm b True want_hash = Some c \<and> fc_kind c = L2TVPP_FLOW_KIND_FAST"
proof -
  have "flow_ethernet (cur_bytes b) = Some (Some (ETHERNET_TYPE_IP4, 14, False))"
    using assms(1) rd16_eq_None_iff [of "cur_bytes b" 12]
    by (auto simp: flow_ethernet_def ETHERNET_TYPE_IP4_def ETHERNET_TYPE_VLAN_def)
  then show ?thesis
    using flow_ip4_is_fast [OF assms(2,3), of crc b] by (simp add: l2tvpp_flow_classify_def)
qed

text \<open>Claim C22: (equivalence) what the fast path takes: the classifier runs on every packet.  It sends a
  packet straight to \<open>l2tvpp-input\<close> only if the fast path is on for its interface and the packet is
  untagged IPv4 without options, not a fragment, with a valid header checksum, a total length inside the
  frame and large enough, addressed to one of our tunnel endpoints, UDP to port 1701, with an L2TPv2 data
  header; and it does so with every such packet when no hash is needed to choose a worker, and with every
  such packet that carries IPv4 or IPv6 in any case.  The buffer is then handed over at the L2TP header,
  42 bytes in, with the IP header recorded 14 bytes in.  Data that carries neither and has to be hashed is
  not claimed here: the comments of the source let it take the fast path too, the code does not
  (\<open>non_ip_ppp_leaves_fast_path\<close>).\<close>

theorem fast_path_takes_ip_data:
  assumes "wf_buffer b"
  shows "\<exists>c. l2tvpp_flow_classify crc csum_valid lm b fastpath want_hash = Some c
    \<and> (fc_kind c = L2TVPP_FLOW_KIND_FAST \<longrightarrow> fastpath \<and> rd16 (cur_bytes b) 12 = Some ETHERNET_TYPE_IP4
        \<and> outer_checks csum_valid lm (cur_bytes b) 14 \<and> cur_bytes (fast_buffer c) = drop 42 (cur_bytes b)
        \<and> b_l3_hdr_offset (fast_buffer c) = b_current_data b + 14)
    \<and> (fastpath \<and> rd16 (cur_bytes b) 12 = Some ETHERNET_TYPE_IP4 \<and> outer_checks csum_valid lm (cur_bytes b) 14
        \<and> (want_hash \<longrightarrow> carries_ip (drop 42 (cur_bytes b))) \<longrightarrow> fc_kind c = L2TVPP_FLOW_KIND_FAST)"
proof -
  obtain c where c: "l2tvpp_flow_classify crc csum_valid lm b fastpath want_hash = Some c"
    using classify_defined by blast
  moreover have "fc_kind c = L2TVPP_FLOW_KIND_FAST"
    if "fastpath" "rd16 (cur_bytes b) 12 = Some ETHERNET_TYPE_IP4" "outer_checks csum_valid lm (cur_bytes b) 14"
      "want_hash \<longrightarrow> carries_ip (drop 42 (cur_bytes b))"
    using classify_is_fast [OF that(2-4), of crc] c that(1) by simp
  ultimately show ?thesis
    using classify_fast [OF c] fast_buffer_facts(2,3) [OF assms c] by blast
qed

theorem fast_path_takes_ip_data_witness:
  "\<exists>c. l2tvpp_flow_classify (\<lambda>k. 7 :: u32) (\<lambda>h. True) ex_main (ex_buffer (ex_eth_frame PPP_PROTO_IP4)) True True = Some c
    \<and> fc_kind c = L2TVPP_FLOW_KIND_FAST \<and> cur_bytes (fast_buffer c) = drop 42 (ex_eth_frame PPP_PROTO_IP4)"
proof -
  let ?b = "ex_buffer (ex_eth_frame PPP_PROTO_IP4)"
  obtain c where c: "l2tvpp_flow_classify (\<lambda>k. 7 :: u32) (\<lambda>h. True) ex_main ?b True True = Some c"
    "fc_kind c = L2TVPP_FLOW_KIND_FAST"
    using ex_fast_class by blast
  then show ?thesis
    using fast_path_takes_ip_data [where b = ?b and crc = "\<lambda>k. 7 :: u32" and csum_valid = "\<lambda>h. True" and lm = ex_main
        and fastpath = True and want_hash = True]
    by auto
qed

section \<open>What a LAC sends\<close>

text \<open>Specification: a datagram as a LAC sends it.\<close>

definition lac_outer :: "bytes \<Rightarrow> u8 \<Rightarrow> u16 \<Rightarrow> u16 \<Rightarrow> u16 \<Rightarrow> u8 \<Rightarrow> u16 \<Rightarrow> u32 \<Rightarrow> u32 \<Rightarrow> u16 \<Rightarrow> u16 \<Rightarrow> u16 \<Rightarrow> bytes" where
  "lac_outer macs tos len ident frag ttl csum src dst sport ulen ucsum =
     macs @ put16 ETHERNET_TYPE_IP4
     @ [0x45, tos] @ put16 len @ put16 ident @ put16 frag @ [ttl, 17] @ st16 csum @ st32 src @ st32 dst
     @ put16 sport @ put16 L2TVPP_UDP_PORT @ put16 ulen @ st16 ucsum"

lemma length_lac_outer: "length macs = 12 \<Longrightarrow>
    length (lac_outer macs tos len ident frag ttl csum src dst sport ulen ucsum) = 42"
  by (simp add: lac_outer_def)

lemma rd_append_12:
  assumes "length macs = 12" and "12 \<le> i"
  shows "rd8 (macs @ xs) i = rd8 xs (i - 12)" and "rd16 (macs @ xs) i = rd16 xs (i - 12)"
    and "ld32 (macs @ xs) i = ld32 xs (i - 12)"
proof -
  show r8: "rd8 (macs @ xs) i = rd8 xs (i - 12)" using rd8_append_right [of macs xs "i - 12"] assms by simp
  have r: "rd8 (macs @ xs) (i + k) = rd8 xs (i - 12 + k)" for k
    using rd8_append_right [of macs xs "i - 12 + k"] assms by simp
  show "rd16 (macs @ xs) i = rd16 xs (i - 12)" "ld32 (macs @ xs) i = ld32 xs (i - 12)"
    by (simp_all only: rd16_def ld32_def r8 r)
qed

lemma lac_outer_checks:
  assumes "length macs = 12" and "frag AND 0x3fff = 0" and "34 \<le> unat len" and "unat len \<le> 28 + length payload"
    and "csum_valid (take 20 (drop 14 (lac_outer macs tos len ident frag ttl csum src dst sport ulen ucsum)))"
    and "dst \<in> set (local_ip4s lm)"
    and "l2tvpp_parse_hdr payload (length payload) = Some (L2TVPP_HDR_DATA flags tid sid off)"
  shows "outer_checks csum_valid lm (lac_outer macs tos len ident frag ttl csum src dst sport ulen ucsum @ payload) 14"
    and "rd16 (lac_outer macs tos len ident frag ttl csum src dst sport ulen ucsum @ payload) 12 = Some ETHERNET_TYPE_IP4"
proof -
  let ?o = "lac_outer macs tos len ident frag ttl csum src dst sport ulen ucsum"
  note len = length_lac_outer [OF assms(1), of tos len ident frag ttl csum src dst sport ulen ucsum]
  have rd: "rd8 (?o @ payload) 14 = Some 0x45" "rd8 (?o @ payload) 23 = Some 17"
    "rd16 (?o @ payload) 16 = Some len" "rd16 (?o @ payload) 20 = Some frag" "rd16 (?o @ payload) 36 = Some L2TVPP_UDP_PORT"
    "ld32 (?o @ payload) 30 = Some dst"
    by (simp_all add: lac_outer_def rd_append_12 [OF assms(1)])
      (simp_all add: put16_def st16_def st32_def rd16_def rd8_def ld32_def)
  have "drop 42 (?o @ payload) = payload" "take 20 (drop 14 (?o @ payload)) = take 20 (drop 14 ?o)"
    "length (?o @ payload) - 14 = 28 + length payload" "length (?o @ payload) - 42 = length payload"
    by (simp_all add: len)
  with rd assms show "outer_checks csum_valid lm (?o @ payload) 14"
    by (simp add: outer_checks_def)
  show "rd16 (?o @ payload) 12 = Some ETHERNET_TYPE_IP4"
    by (simp add: lac_outer_def rd_append_12 [OF assms(1)])
qed

lemma carries_ip_rfc:
  assumes "rfc_offset_ok h" and "3 \<le> length inner" and "proto = PPP_PROTO_IP4 \<or> proto = PPP_PROTO_IP6"
    and "payload = rfc_encode h @ ppp_encode acfc pfc proto @ inner"
  shows "l2tvpp_parse_hdr payload (length payload) =
      Some (L2TVPP_HDR_DATA (rfc_flags h) (rh_tid h) (rh_sid h) (length (rfc_fixed h)))"
    and "carries_ip payload"
proof -
  show p: "l2tvpp_parse_hdr payload (length payload) =
      Some (L2TVPP_HDR_DATA (rfc_flags h) (rh_tid h) (rh_sid h) (length (rfc_fixed h)))"
    using parse_rfc_fixed [of h "rfc_optional h @ ppp_encode acfc pfc proto @ inner"]
    by (simp add: assms(4) rfc_encode_def)
  have "4 \<le> length (ppp_encode acfc pfc proto @ inner)" using assms(2) by (simp add: ppp_encode_def)
  from input_skip_rfc [OF assms(1) this] input_ppp_encode [OF assms(3), of "rfc_encode h" acfc pfc inner]
  show "carries_ip payload"
    using p assms(3) unfolding carries_ip_def assms(4) by blast
qed

section \<open>Flows\<close>





















section \<open>From the wire to the session\<close>

text \<open>Claim C12: (functional) a data frame reaches its subscriber's interface: in every state the control
  plane can reach, an unfragmented frame that a LAC sends to the endpoint of a live session's tunnel, with
  any of the optional L2TP fields and any PPP framing of IPv4 or IPv6, arriving on an interface with the
  fast path on (hashing or spraying over its workers), leaves the flow-handoff node for \<open>l2tvpp-input\<close> on
  one of the interface's workers (on the receiving thread when that is the worker, or when there is none).
  On the receiving thread, or when the session queue takes it, \<open>l2tvpp-input\<close> there delivers exactly the
  inner packet on the session's interface and nothing is counted; a full queue refuses it, and then it
  is counted as one congestion drop.\<close>

theorem upstream_end_to_end:
  fixes fm :: l2tvpp_flow_handoff_main and b :: vlib_buffer
  defines "ifd \<equiv> fm_if_data fm ! unat (b_rx b)"
  assumes "obj_reachable bh lm" and "bihash_ok bh" and "pow2_ok is_pow2"
    and "pool_elt (sessions lm) si = Some s" and "pool_elt (tunnels lm) (s_tunnel_index s) = Some t"
    and "\<forall>i \<in> set (fm_if_data fm). length (fi_workers i) < 2 ^ 32"
    and "unat (b_rx b) < length (fm_if_data fm)" and "fi_fastpath ifd"
    and "wf_buffer b" and "cur_bytes b = outer @ payload"
    and "outer = lac_outer macs tos len ident frag ttl csum src (ip46_ip4 (t_local_ip t)) sport ulen ucsum"
    and "length macs = 12" and "frag AND 0x3fff = 0" and "34 \<le> unat len" and "unat len \<le> 28 + length payload"
    and "csum_valid (take 20 (drop 14 outer))"
    and "payload = rfc_encode h @ ppp_encode acfc pfc proto @ inner"
    and "rfc_offset_ok h" and "3 \<le> length inner" and "proto = PPP_PROTO_IP4 \<or> proto = PPP_PROTO_IP6"
    and "rh_tid h = s_local_tid s" and "rh_sid h = s_local_sid s"
    and "\<forall>q xs. unat (enqueue q xs) \<le> length xs"
  shows "\<exists>eff b' w r. l2tvpp_flow_handoff_node crc csum_valid is_pow2 enqueue lm fm this_thread [b] = Some eff
    \<and> (if fi_workers ifd = [] then w = ucast this_thread else w \<in> set (fi_workers ifd))
    \<and> snd (fe_eth eff) = []
    \<and> (if ucast w = this_thread
       then fe_local eff = [(b', L2TVPP_FLOW_HANDOFF_NEXT_L2TVPP_INPUT)] \<and> snd (fe_l2tp eff) = [] \<and> fe_congestion eff = []
       else fe_local eff = [] \<and> fe_l2tp eff = (handoff_frame_queue_index lm, [(b', w)])
         \<and> fe_congestion eff = (if enqueue (handoff_frame_queue_index lm) [(b', w)] = 0 then [1] else []))
    \<and> l2tvpp_input_packet (inner_ip4_no_checksum lm) (bh_search bh (session_by_key lm)) (pool_elt (sessions lm)) b' = Some r
    \<and> cur_bytes (ir_buffer r) = inner \<and> b_rx (ir_buffer r) = s_sw_if_index s \<and> delivered (ir_next r)"
proof -
  let ?cls = "flow_class_of crc csum_valid lm fm"
  let ?c = "?cls b"
  let ?w = "flow_worker ?cls fm this_thread [] b"
  note pl = carries_ip_rfc [OF assms(19-21,18)]
  have "ip46_ip4 (t_local_ip t) \<in> set (local_ip4s lm)"
    using reachable_endpoints [OF assms(2)] assms(6) by (auto simp: endpoints_inv_def)
  from lac_outer_checks [where csum_valid = csum_valid, OF assms(13-16) assms(17) [unfolded assms(12)] this pl(1)]
  have chk: "outer_checks csum_valid lm (cur_bytes b) 14" "rd16 (cur_bytes b) 12 = Some ETHERNET_TYPE_IP4"
    unfolding assms(11,12) by blast+
  have d42: "drop 42 (cur_bytes b) = payload" using length_lac_outer [OF assms(13)] by (simp add: assms(11,12))
  have ifd: "flow_ifd fm b = ifd" by (simp add: flow_ifd_def ifd_def)
  have cls: "l2tvpp_flow_classify crc csum_valid lm b True (flow_want_hash ifd) = Some ?c"
    using flow_class_of_eq [of crc csum_valid lm b fm] assms(9) by (simp add: ifd)
  then have fast: "fc_kind ?c = L2TVPP_FLOW_KIND_FAST"
    using classify_is_fast [OF chk(2,1), of "flow_want_hash ifd" crc] pl(2) by (simp add: d42)
  note fb = fast_buffer_facts(1,2) [OF assms(10) cls fast]
  have ok: "ifs_ok (fm_if_data fm) [b]" using assms(7,8) by (simp add: ifs_ok_def workers_ok_def)
  have one: "flow_congestion enqueue q [x] = (if enqueue q [x] = 0 then [1] else [])" for q x
  proof -
    have "unat (enqueue q [x]) \<le> 1" using assms(24) [rule_format, of q "[x]"] by simp
    then have "unat (enqueue q [x]) = 0 \<or> unat (enqueue q [x]) = 1" by linarith
    then have "enqueue q [x] = 0 \<or> enqueue q [x] = 1" by (simp add: word_unat_eq_iff)
    then show ?thesis by (auto simp: flow_congestion_def)
  qed
  have node: "\<exists>eff. l2tvpp_flow_handoff_node crc csum_valid is_pow2 enqueue lm fm this_thread [b] = Some eff
      \<and> snd (fe_eth eff) = []
      \<and> (if ucast ?w = this_thread
         then fe_local eff = [(fast_buffer ?c, L2TVPP_FLOW_HANDOFF_NEXT_L2TVPP_INPUT)] \<and> snd (fe_l2tp eff) = []
           \<and> fe_congestion eff = []
         else fe_local eff = [] \<and> fe_l2tp eff = (handoff_frame_queue_index lm, [(fast_buffer ?c, ?w)])
           \<and> fe_congestion eff = (if enqueue (handoff_frame_queue_index lm) [(fast_buffer ?c, ?w)] = 0 then [1] else []))"
  proof (rule flow_node_spec [OF assms(4) ok, where crc = crc and csum_valid = csum_valid and enqueue = enqueue
        and lm = lm and this_thread = this_thread], goal_cases)
    case (1 eff)
    then show ?case
      using fast by (intro exI [of _ eff])
        (simp add: outs_defs is_fast_def flow_out_buffer_def flow_out_next_def one flow_congestion_def)
  qed
  have "unat n mod length xs < length xs" if "xs \<noteq> []" for n :: u32 and xs :: "u16 list" using that by simp
  then have w: "if fi_workers ifd = [] then ?w = ucast this_thread else ?w \<in> set (fi_workers ifd)"
    using fast by (simp add: flow_worker_def Let_def ifd)
  have bytes: "cur_bytes (fast_buffer ?c) = rfc_encode h @ ppp_encode acfc pfc proto @ inner"
    using fb(2) d42 assms(18) by simp
  note dec = packet_rfc [OF reachable_inv [OF assms(2,3)] fb(1) assms(19,20) bytes assms(21,5) assms(22,23) [symmetric]]
  have "\<exists>r. node_packet bh lm (fast_buffer ?c) = Some r \<and> cur_bytes (ir_buffer r) = inner
      \<and> b_rx (ir_buffer r) = s_sw_if_index s \<and> delivered (ir_next r)"
    unfolding dec using packet_rfc_bytes [OF fb(1) bytes]
    by (simp add: result_simps input_next_def delivered_def)
  with node w show ?thesis by blast
qed

theorem upstream_end_to_end_witness:
  "\<exists>eff b' w r. l2tvpp_flow_handoff_node (\<lambda>k. 7) (\<lambda>h. True) is_pow2_ref (\<lambda>q xs. of_nat (length xs)) ex_main ex_flow_main 9
      [ex_buffer (ex_eth_frame PPP_PROTO_IP4)] = Some eff
    \<and> w \<in> {1, 2, 3} \<and> snd (fe_l2tp eff) = [(b', w)] \<and> fe_congestion eff = []
    \<and> node_packet alist_bihash ex_main b' = Some r \<and> cur_bytes (ir_buffer r) = ex_ip_inner \<and> b_rx (ir_buffer r) = 5"
proof -
  let ?b = "ex_buffer (ex_eth_frame PPP_PROTO_IP4)"
  let ?h = "\<lparr>rh_length = None, rh_priority = False, rh_tid = 100, rh_sid = 1000, rh_seq = None, rh_offset = None\<rparr>"
  let ?p = "rfc_encode ?h @ ppp_encode False False PPP_PROTO_IP4 @ ex_ip_inner"
  let ?o = "lac_outer [2, 0, 0, 0, 0, 1, 2, 0, 0, 0, 0, 2] 0 60 0 0 64 0 (le32 10 0 0 2) ip_10_0_0_1 1701 40 0"
  let ?enq = "\<lambda>(q :: u32) (xs :: (vlib_buffer \<times> u16) list). of_nat (length xs) :: u32"
  have t: "pool_elt (tunnels ex_main) (s_tunnel_index ex_session) =
      Some ((new_tunnel ex_local ex_peer 1701 1701 100 200)\<lparr>t_n_sessions := 1\<rparr>)"
    by (simp add: ex_main_eq pool_elt_def ex_session_def)
  have bytes: "cur_bytes ?b = ?o @ ?p"
    by (simp add: lac_outer_def ex_eth_frame_def rfc_encode_def rfc_fixed_def rfc_optional_def rfc_flags_def
        ppp_encode_def put16_def st16_def st32_def ip_10_0_0_1_def le32_def ETHERNET_TYPE_IP4_def L2TVPP_UDP_PORT_def
        PPP_PROTO_IP4_def)
  have ifd: "fm_if_data ex_flow_main ! unat (b_rx ?b) = ex_flow_if" by (simp add: ex_flow_main_def)
  have c: "\<forall>i \<in> set (fm_if_data ex_flow_main). length (fi_workers i) < 2 ^ 32"
    "unat (b_rx ?b) < length (fm_if_data ex_flow_main)" "fi_fastpath (fm_if_data ex_flow_main ! unat (b_rx ?b))"
    "wf_buffer ?b"
    by (simp_all add: ex_flow_main_def ex_flow_if_def flow_if_zero_def)
  have o: "?o = lac_outer [2, 0, 0, 0, 0, 1, 2, 0, 0, 0, 0, 2] 0 60 0 0 64 0 (le32 10 0 0 2)
      (ip46_ip4 (t_local_ip ((new_tunnel ex_local ex_peer 1701 1701 100 200)\<lparr>t_n_sessions := 1\<rparr>))) 1701 40 0"
    by (simp add: new_tunnel_def ex_local_def)
  have enq: "\<forall>q xs. unat (?enq q xs) \<le> length xs" by (simp add: unat_of_nat)
  note res = upstream_end_to_end [of alist_bihash ex_main is_pow2_ref 0 ex_session _ ex_flow_main ?b, unfolded ifd,
      OF ex_reachable alist_bihash_ok pow2_ref_ok ex_session_live t c(1,2) c(3) [unfolded ifd] c(4) bytes o _ _ _ _ _ refl
        _ _ _ _ _ enq, of "\<lambda>h. True" "\<lambda>k. 7" 9]
  have "\<exists>eff b' w r. l2tvpp_flow_handoff_node (\<lambda>k. 7) (\<lambda>h. True) is_pow2_ref ?enq ex_main ex_flow_main 9 [?b] = Some eff
    \<and> (if fi_workers ex_flow_if = [] then w = ucast (9 :: u32) else w \<in> set (fi_workers ex_flow_if))
    \<and> snd (fe_eth eff) = []
    \<and> (if ucast w = (9 :: u32)
       then fe_local eff = [(b', L2TVPP_FLOW_HANDOFF_NEXT_L2TVPP_INPUT)] \<and> snd (fe_l2tp eff) = [] \<and> fe_congestion eff = []
       else fe_local eff = [] \<and> fe_l2tp eff = (handoff_frame_queue_index ex_main, [(b', w)])
         \<and> fe_congestion eff = (if ?enq (handoff_frame_queue_index ex_main) [(b', w)] = 0 then [1] else []))
    \<and> node_packet alist_bihash ex_main b' = Some r
    \<and> cur_bytes (ir_buffer r) = ex_ip_inner \<and> b_rx (ir_buffer r) = s_sw_if_index ex_session \<and> delivered (ir_next r)"
    by (rule res)
      (simp_all add: ex_session_def rfc_offset_ok_def ex_ip_inner_def rfc_encode_def rfc_fixed_def rfc_optional_def
        ppp_encode_def)
  then show ?thesis by (auto simp: ex_flow_if_def ex_session_def)
qed

end
