(* ===== verification/Worker_Pipeline.thy ===== *)
theory Worker_Pipeline
  imports Session_Handoff "HOL-Library.Sublist"
begin

text \<open>
  The receive side as it runs on several threads.  UDP port 1701 leads to \<open>l2tvpp-handoff\<close> while
  \<open>handoff_enabled\<close> is set and to \<open>l2tvpp-input\<close> otherwise (\<open>l2tvpp_set_handoff\<close> moves the port and the
  flag together, behind the barrier).  With handoff on a frame goes through \<open>l2tvpp-handoff\<close>, which
  queues its packets for the workers; every worker takes frames from its own queue into \<open>l2tvpp-input\<close>;
  with handoff off a frame goes to \<open>l2tvpp-input\<close> at once; and the control plane changes tunnels,
  sessions and the handoff switch in between (VPP runs it behind a barrier, so it is atomic towards the
  nodes).  \<open>pipe_step\<close> interleaves these steps in any order.

  VPP's frame queues are not part of the program: what is relied on is that a queue between two threads
  hands over, first in first out, what it took, and that \<open>vlib_buffer_enqueue_to_thread\<close> may refuse
  packets, which are then lost (\<open>taken\<close> below is any subsequence).

  The state keeps histories that the program does not have: all packets that arrived, those of them that
  arrived while handoff was off, and all packets that were processed with what became of them.
\<close>

section \<open>The system\<close>

record 'h pipe =
  pp_main :: "'h l2tvpp_main"
  pp_queue :: "u16 \<Rightarrow> vlib_buffer list"
  pp_arrived :: "vlib_buffer list"
  pp_direct :: "vlib_buffer list"
  pp_done :: "(vlib_buffer \<times> vlib_buffer \<times> l2tvpp_input_next) list"

text \<open>A worker takes a frame from the front of its queue through \<open>l2tvpp-input\<close>.\<close>

inductive pipe_work :: "'h bihash_8_8 \<Rightarrow> 'h pipe \<Rightarrow> 'h pipe \<Rightarrow> bool" for bh :: "'h bihash_8_8" where
  work: "pp_queue s w = frame @ rest \<Longrightarrow> frame \<noteq> [] \<Longrightarrow> l2tvpp_input_node bh (pp_main s) frame = Some eff \<Longrightarrow>
    s' = s\<lparr>pp_queue := (pp_queue s)(w := rest), pp_done := pp_done s @ zip frame (ie_out eff)\<rparr> \<Longrightarrow>
    pipe_work bh s s'"

inductive pipe_step :: "'h bihash_8_8 \<Rightarrow> u32 \<Rightarrow> 'h pipe \<Rightarrow> 'h pipe \<Rightarrow> bool"
  for bh :: "'h bihash_8_8" and n_workers :: u32 where
  receive: "handoff_enabled (pp_main s) \<Longrightarrow> \<forall>b \<in> set frame. wf_buffer b \<Longrightarrow>
    l2tvpp_handoff_node enqueue n_workers this_thread (pp_main s) frame = Some eff \<Longrightarrow>
    subseq taken (he_enqueue eff) \<Longrightarrow>
    s' = s\<lparr>pp_queue := \<lambda>w. pp_queue s w @ thread_queue taken w, pp_arrived := pp_arrived s @ frame\<rparr> \<Longrightarrow>
    pipe_step bh n_workers s s'"
| direct: "\<not> handoff_enabled (pp_main s) \<Longrightarrow> \<forall>b \<in> set frame. wf_buffer b \<Longrightarrow>
    l2tvpp_input_node bh (pp_main s) frame = Some eff \<Longrightarrow>
    s' = s\<lparr>pp_arrived := pp_arrived s @ frame, pp_direct := pp_direct s @ frame,
      pp_done := pp_done s @ zip frame (ie_out eff)\<rparr> \<Longrightarrow>
    pipe_step bh n_workers s s'"
| worker: "pipe_work bh s s' \<Longrightarrow> pipe_step bh n_workers s s'"
| control: "obj_step bh (pp_main s) lm' \<Longrightarrow> pipe_step bh n_workers s (s\<lparr>pp_main := lm'\<rparr>)"

inductive pipe_reachable :: "'h bihash_8_8 \<Rightarrow> u32 \<Rightarrow> 'h pipe \<Rightarrow> bool"
  for bh :: "'h bihash_8_8" and n_workers :: u32 where
  start: "obj_reachable bh lm \<Longrightarrow>
    pipe_reachable bh n_workers \<lparr>pp_main = lm, pp_queue = \<lambda>w. [], pp_arrived = [], pp_direct = [], pp_done = []\<rparr>"
| step: "pipe_reachable bh n_workers s \<Longrightarrow> pipe_step bh n_workers s s' \<Longrightarrow> pipe_reachable bh n_workers s'"

inductive_cases pipe_work_elim: "pipe_work bh s s'"

section \<open>The invariant\<close>

text \<open>The thread a session is bound to.\<close>

definition session_thread :: "u32 \<Rightarrow> u16 \<times> u16 \<Rightarrow> u16" where
  "session_thread n_workers k = (case l2tvpp_handoff_worker (fst k) (snd k) n_workers of Some w \<Rightarrow> w | None \<Rightarrow> 0)"

lemma handoff_target_session:
  assumes "session_of_packet b = Some k" and "0 < n_workers"
  shows "handoff_target n_workers this_thread b = session_thread n_workers k"
  using assms by (cases k) (auto simp: handoff_target_def session_thread_def l2tvpp_handoff_worker_def)

abbreviation session_flow :: "u16 \<times> u16 \<Rightarrow> vlib_buffer list \<Rightarrow> vlib_buffer list" where
  "session_flow k \<equiv> flow_of session_of_packet k"

lemma session_flow_append: "session_flow k (xs @ ys) = session_flow k xs @ session_flow k ys"
  by (simp add: flow_of_def)

text \<open>No other queue than the session's holds a packet of the session; and if none of its packets arrived
  while handoff was off, what is done and what waits in that queue is, in order, a subsequence of what
  arrived.\<close>

definition pipe_inv :: "'h bihash_8_8 \<Rightarrow> u32 \<Rightarrow> 'h pipe \<Rightarrow> bool" where
  "pipe_inv bh n_workers s \<longleftrightarrow> objects_inv bh (pp_main s)
     \<and> (\<forall>w. \<forall>b \<in> set (pp_queue s w). wf_buffer b)
     \<and> (\<forall>k. (session_flow k (pp_direct s) = [] \<longrightarrow>
            subseq (session_flow k (map fst (pp_done s)) @ session_flow k (pp_queue s (session_thread n_workers k)))
              (session_flow k (pp_arrived s)))
          \<and> (\<forall>w. w \<noteq> session_thread n_workers k \<longrightarrow> session_flow k (pp_queue s w) = []))"

lemma pipe_invD:
  assumes "pipe_inv bh n_workers s"
  shows "session_flow k (pp_direct s) = [] \<Longrightarrow>
      subseq (session_flow k (map fst (pp_done s)) @ session_flow k (pp_queue s (session_thread n_workers k)))
        (session_flow k (pp_arrived s))"
    and "w \<noteq> session_thread n_workers k \<Longrightarrow> session_flow k (pp_queue s w) = []"
  using assms unfolding pipe_inv_def by blast+

lemma input_node_out:
  assumes "objects_inv bh lm" and "\<forall>b \<in> set frame. wf_buffer b"
  obtains eff where "l2tvpp_input_node bh lm frame = Some eff" and "length (ie_out eff) = length frame"
proof -
  obtain rs where "list_all2 (\<lambda>b r. node_packet bh lm b = Some r) frame rs"
    and "l2tvpp_input_node bh lm frame = Some (input_finish (fold input_account rs input_loop_start))"
    by (rule node_results [OF assms])
  with that show thesis by (auto dest: list_all2_lengthD)
qed

lemma subseq_set: "subseq xs ys \<Longrightarrow> set xs \<subseteq> set ys"
  using list_emb_set [of "(=)" xs ys] by blast

lemma taken_targets:
  assumes "subseq taken (map (\<lambda>b. (b, f b)) frame)"
  shows "taken = map (\<lambda>b. (b, f b)) (map fst taken)" and "subseq (map fst taken) frame"
proof -
  have "set taken \<subseteq> (\<lambda>b. (b, f b)) ` set frame"
    using subseq_set [OF assms] by simp
  then show "taken = map (\<lambda>b. (b, f b)) (map fst taken)"
    by (induction taken) auto
  show "subseq (map fst taken) frame"
    using subseq_map [OF assms, of fst] by (simp add: comp_def)
qed

lemma receive_inv:
  assumes inv: "pipe_inv bh n_workers s" and n: "0 < n_workers" and wf: "\<forall>b \<in> set frame. wf_buffer b"
    and node: "l2tvpp_handoff_node enqueue n_workers this_thread (pp_main s) frame = Some eff"
    and taken: "subseq taken (he_enqueue eff)"
  shows "pipe_inv bh n_workers
    (s\<lparr>pp_queue := \<lambda>w. pp_queue s w @ thread_queue taken w, pp_arrived := pp_arrived s @ frame\<rparr>)"
proof -
  let ?t = "handoff_target n_workers this_thread"
  have enq: "he_enqueue eff = map (\<lambda>b. (b, ?t b)) frame"
    using handoff_node_run [OF wf] node by (metis option.inject)
  note tk = taken_targets [OF taken [unfolded enq]]
  have queue: "thread_queue taken w = worker_queue ?t w (map fst taken)" for w
    using tk(1) thread_queue_map [of ?t "map fst taken" w] by simp
  have part: "session_flow k (thread_queue taken w) =
      (if w = session_thread n_workers k then session_flow k (map fst taken) else [])" for k w
    unfolding queue
    by (auto simp: flow_of_def worker_queue_def filter_empty_conv handoff_target_session [OF _ n] intro: filter_cong)
  have sub: "subseq (session_flow k (map fst taken)) (session_flow k frame)" for k
    unfolding flow_of_def by (rule subseq_filter [OF tk(2)])
  have "wf_buffer b" if "b \<in> set (thread_queue taken w)" for b w
    using wf that subseq_set [OF tk(2)] by (auto simp: queue worker_queue_def)
  with inv sub part show ?thesis
    unfolding pipe_inv_def
    by (auto simp: session_flow_append simp flip: append_assoc intro: list_emb_append_mono)
qed

lemma work_inv:
  assumes inv: "pipe_inv bh n_workers s" and work: "pipe_work bh s s'"
  shows "pipe_inv bh n_workers s'"
proof -
  obtain w frame rest eff where q: "pp_queue s w = frame @ rest"
    and node: "l2tvpp_input_node bh (pp_main s) frame = Some eff"
    and s': "s' = s\<lparr>pp_queue := (pp_queue s)(w := rest), pp_done := pp_done s @ zip frame (ie_out eff)\<rparr>"
    using work by (auto elim: pipe_work_elim)
  have wf: "\<forall>b \<in> set (frame @ rest). wf_buffer b" using inv q unfolding pipe_inv_def by metis
  then have "length (ie_out eff) = length frame"
    using inv node input_node_out [of bh "pp_main s" frame] by (auto simp: pipe_inv_def)
  then have dn: "map fst (pp_done s') = map fst (pp_done s) @ frame" by (simp add: s')
  have other: "session_flow k frame = [] \<and> session_flow k rest = []" if "w \<noteq> session_thread n_workers k" for k
    using inv that q session_flow_append [of k frame rest] unfolding pipe_inv_def by (metis append_is_Nil_conv)
  have "subseq (session_flow k (map fst (pp_done s')) @ session_flow k (pp_queue s' (session_thread n_workers k)))
      (session_flow k (pp_arrived s))" if d: "session_flow k (pp_direct s) = []" for k
  proof (cases "w = session_thread n_workers k")
    case True
    with pipe_invD(1) [OF inv d] q show ?thesis by (simp add: dn session_flow_append) (simp add: s')
  next
    case False
    with pipe_invD(1) [OF inv d] other show ?thesis by (simp add: dn session_flow_append) (simp add: s')
  qed
  with inv other wf show ?thesis
    unfolding pipe_inv_def by (auto simp: s')
qed

lemma direct_inv:
  assumes inv: "pipe_inv bh n_workers s" and wf: "\<forall>b \<in> set frame. wf_buffer b"
    and node: "l2tvpp_input_node bh (pp_main s) frame = Some eff"
  shows "pipe_inv bh n_workers (s\<lparr>pp_arrived := pp_arrived s @ frame, pp_direct := pp_direct s @ frame,
    pp_done := pp_done s @ zip frame (ie_out eff)\<rparr>)"
proof -
  have "length (ie_out eff) = length frame"
    using inv node input_node_out [of bh "pp_main s" frame] wf by (auto simp: pipe_inv_def)
  with inv show ?thesis by (simp add: pipe_inv_def session_flow_append)
qed

lemma pipe_reachable_inv:
  assumes "pipe_reachable bh n_workers s" and "bihash_ok bh" and "0 < n_workers"
  shows "pipe_inv bh n_workers s"
  using assms(1)
proof (induction rule: pipe_reachable.induct)
  case (start lm)
  with reachable_inv [OF _ assms(2)] show ?case by (simp add: pipe_inv_def flow_of_def)
next
  case (step s s')
  from step(2) show ?case
  proof (cases rule: pipe_step.cases)
    case receive
    with receive_inv [OF step.IH assms(3)] show ?thesis by blast
  next
    case direct
    with direct_inv [OF step.IH] show ?thesis by blast
  next
    case worker
    with work_inv [OF step.IH] show ?thesis by blast
  next
    case (control lm')
    with step.IH obj_step_inv show ?thesis by (auto simp: pipe_inv_def)
  qed
qed

section \<open>Order\<close>

text \<open>Claim C17: (invariant) no interleaving reorders a session while session handoff is on: in every state
  the receive side can reach, with frames arriving on any thread, workers running in any order, packets
  refused by full queues, and tunnels, sessions and the handoff switch changing in between, take a
  (tunnel id, session id) pair none of whose packets arrived while handoff was off.  Its packets that have
  been through \<open>l2tvpp-input\<close> are, in the order they went through it, a subsequence of those that
  arrived; those still waiting come after them and are all in the queue of one existing worker.  The
  condition is needed: packets that arrive while handoff is off go straight to \<open>l2tvpp-input\<close> and may
  overtake queued ones (\<open>handoff_off_overtakes\<close>).\<close>

theorem pipeline_keeps_session_order:
  assumes "pipe_reachable bh n_workers s" and "bihash_ok bh" and "0 < n_workers" and "n_workers < 65536"
    and "session_flow k (pp_direct s) = []"
  shows "\<exists>w. 1 \<le> unat w \<and> unat w \<le> unat n_workers
    \<and> subseq (session_flow k (map fst (pp_done s)) @ session_flow k (pp_queue s w)) (session_flow k (pp_arrived s))
    \<and> (\<forall>w'. w' \<noteq> w \<longrightarrow> session_flow k (pp_queue s w') = [])"
proof (intro exI conjI allI impI)
  note inv = pipe_reachable_inv [OF assms(1-3)]
  obtain w where w: "l2tvpp_handoff_worker (fst k) (snd k) n_workers = Some w"
    using assms(3) handoff_worker_Some_iff [of "fst k" "snd k" n_workers] by auto
  then have "unat (session_thread n_workers k) = 1 + unat (session_hash (fst k) (snd k)) mod unat n_workers"
    using handoff_worker_value [OF assms(3,4) w] by (simp add: session_thread_def)
  moreover have "unat (session_hash (fst k) (snd k)) mod unat n_workers < unat n_workers"
    using assms(3) by (simp add: word_less_nat_alt)
  ultimately show "1 \<le> unat (session_thread n_workers k)" "unat (session_thread n_workers k) \<le> unat n_workers"
    by simp_all
  show "subseq (session_flow k (map fst (pp_done s)) @ session_flow k (pp_queue s (session_thread n_workers k)))
      (session_flow k (pp_arrived s))"
    by (rule pipe_invD(1) [OF inv assms(5)])
  show "session_flow k (pp_queue s w') = []" if "w' \<noteq> session_thread n_workers k" for w'
    by (rule pipe_invD(2) [OF inv that])
qed

text \<open>An example: handoff is switched on in the example state, then two packets of the example session and
  a control message between them arrive at four workers; nothing is processed yet.\<close>

definition ex_main_on :: "(u64 \<times> u64) list l2tvpp_main" where
  "ex_main_on = fst (snd (l2tvpp_set_handoff ex_main 1))"

definition ex_arrivals :: "vlib_buffer list" where
  "ex_arrivals = [ex_data, ex_control, ex_data]"

definition ex_pipe :: "(u64 \<times> u64) list pipe" where
  "ex_pipe = \<lparr>pp_main = ex_main_on, pp_queue = (\<lambda>w. worker_queue (handoff_target 4 0) w ex_arrivals),
     pp_arrived = ex_arrivals, pp_direct = [], pp_done = []\<rparr>"

lemma ex_main_on: "obj_reachable alist_bihash ex_main_on" "handoff_enabled ex_main_on"
proof -
  obtain rv calls where h: "l2tvpp_set_handoff ex_main 1 = (rv, ex_main_on, calls)"
    unfolding ex_main_on_def by (metis prod.collapse)
  show "obj_reachable alist_bihash ex_main_on"
    by (rule obj_reachable.step [OF ex_reachable obj_step.handoff [OF h]])
  show "handoff_enabled ex_main_on" by (simp add: ex_main_on_def l2tvpp_set_handoff_def ex_main_rest)
qed

lemma ex_pipe_reachable: "pipe_reachable alist_bihash 4 ex_pipe"
proof -
  let ?s = "\<lparr>pp_main = ex_main_on, pp_queue = (\<lambda>w. []), pp_arrived = [], pp_direct = [], pp_done = []\<rparr> :: (u64 \<times> u64) list pipe"
  have wf: "\<forall>b \<in> set ex_arrivals. wf_buffer b" by (simp add: ex_arrivals_def)
  obtain eff where node: "l2tvpp_handoff_node (\<lambda>q xs. of_nat (length xs)) 4 0 ex_main_on ex_arrivals = Some eff"
    and enq: "he_enqueue eff = map (\<lambda>b. (b, handoff_target 4 0 b)) ex_arrivals"
    by (rule handoff_node_run [OF wf])
  have "pipe_step alist_bihash 4 ?s ex_pipe"
    using wf node ex_main_on(2)
    by (intro pipe_step.receive [where taken = "he_enqueue eff"])
      (auto simp: enq thread_queue_map ex_pipe_def)
  moreover have "pipe_reachable alist_bihash 4 ?s" by (rule pipe_reachable.start [OF ex_main_on(1)])
  ultimately show ?thesis by (rule pipe_reachable.step [rotated])
qed

theorem pipeline_keeps_session_order_witness:
  "\<exists>w. 1 \<le> unat w \<and> unat w \<le> 4
    \<and> subseq (session_flow (100, 1000) (pp_queue ex_pipe w)) (session_flow (100, 1000) ex_arrivals)"
  using pipeline_keeps_session_order [OF ex_pipe_reachable alist_bihash_ok, of "(100, 1000)"]
  by (auto simp: ex_pipe_def flow_of_def)

text \<open>Switching handoff off under load reorders: a packet waits in its worker's queue, handoff is switched
  off, the next packet of the session (on interface 3, to tell them apart) goes straight through
  \<open>l2tvpp-input\<close>, and only then the worker takes the first.\<close>

definition ex_data_if3 :: vlib_buffer where
  "ex_data_if3 = ex_data\<lparr>b_rx := 3\<rparr>"

lemma ex_data_if3_simps: "wf_buffer ex_data_if3" "session_of_packet ex_data_if3 = session_of_packet ex_data" "ex_data_if3 \<noteq> ex_data"
proof -
  show "wf_buffer ex_data_if3" using ex_wf(1) by (simp add: ex_data_if3_def wf_buffer_def)
  show "session_of_packet ex_data_if3 = session_of_packet ex_data"
    by (simp add: ex_data_if3_def session_of_packet_def cur_bytes_def)
  have "b_rx ex_data_if3 = 3" "b_rx ex_data = 1" by (simp_all add: ex_data_if3_def ex_data_def ex_buffer_def)
  then show "ex_data_if3 \<noteq> ex_data" by auto
qed

lemma handoff_off_overtakes:
  "\<exists>s. pipe_reachable alist_bihash 4 s \<and> pp_arrived s = [ex_data, ex_data_if3]
    \<and> map fst (pp_done s) = [ex_data_if3, ex_data]"
proof -
  let ?w = "handoff_target 4 0 ex_data"
  let ?s0 = "\<lparr>pp_main = ex_main_on, pp_queue = (\<lambda>w. []), pp_arrived = [], pp_direct = [], pp_done = []\<rparr> :: (u64 \<times> u64) list pipe"
  let ?q = "\<lambda>w. if w = ?w then [ex_data] else []"
  let ?s1 = "?s0\<lparr>pp_queue := ?q, pp_arrived := [ex_data]\<rparr>"
  have wf: "\<forall>b \<in> set [ex_data]. wf_buffer b" "\<forall>b \<in> set [ex_data_if3]. wf_buffer b"
    by (simp_all add: ex_data_if3_simps)
  obtain eff where node: "l2tvpp_handoff_node (\<lambda>q xs. of_nat (length xs)) 4 0 ex_main_on [ex_data] = Some eff"
    and enq: "he_enqueue eff = map (\<lambda>b. (b, handoff_target 4 0 b)) [ex_data]"
    by (rule handoff_node_run [OF wf(1)])
  have "pipe_step alist_bihash 4 ?s0 ?s1"
    using wf(1) node ex_main_on(2)
    by (intro pipe_step.receive [where taken = "he_enqueue eff" and frame = "[ex_data]"])
      (auto simp: enq thread_queue_def fun_eq_iff)
  with pipe_reachable.start [OF ex_main_on(1)] have s1: "pipe_reachable alist_bihash 4 ?s1" by (rule pipe_reachable.step)
  obtain rv lm calls where h: "l2tvpp_set_handoff ex_main_on 0 = (rv, lm, calls)" by (metis surj_pair)
  then have off: "\<not> handoff_enabled lm" by (auto simp: l2tvpp_set_handoff_def ex_main_on(2))
  have inv: "objects_inv alist_bihash lm"
    using obj_step_inv [OF obj_step.handoff [OF h]] reachable_inv [OF ex_main_on(1) alist_bihash_ok] by blast
  let ?s2 = "?s1\<lparr>pp_main := lm\<rparr>"
  have "pipe_step alist_bihash 4 ?s1 ?s2" using obj_step.handoff [OF h] by (intro pipe_step.control) simp
  with s1 have s2: "pipe_reachable alist_bihash 4 ?s2" by (rule pipe_reachable.step)
  obtain e3 where e3: "l2tvpp_input_node alist_bihash lm [ex_data_if3] = Some e3" "length (ie_out e3) = 1"
    by (rule input_node_out [OF inv wf(2)]) simp
  let ?s3 = "?s2\<lparr>pp_arrived := [ex_data, ex_data_if3], pp_direct := [ex_data_if3], pp_done := zip [ex_data_if3] (ie_out e3)\<rparr>"
  have "pipe_step alist_bihash 4 ?s2 ?s3"
    by (rule pipe_step.direct [where frame = "[ex_data_if3]" and eff = e3]) (use off wf(2) e3 in simp_all)
  with s2 have s3: "pipe_reachable alist_bihash 4 ?s3" by (rule pipe_reachable.step)
  obtain e4 where e4: "l2tvpp_input_node alist_bihash lm [ex_data] = Some e4" "length (ie_out e4) = 1"
    by (rule input_node_out [OF inv wf(1)]) simp
  let ?s4 = "?s3\<lparr>pp_queue := ?q(?w := []), pp_done := zip [ex_data_if3] (ie_out e3) @ zip [ex_data] (ie_out e4)\<rparr>"
  have "pipe_work alist_bihash ?s3 ?s4"
    by (rule pipe_work.work [where w = ?w and frame = "[ex_data]" and rest = "[]" and eff = e4]) (use e4 in simp_all)
  with s3 have "pipe_reachable alist_bihash 4 ?s4" by (blast intro: pipe_reachable.step pipe_step.worker)
  with e3(2) e4(2) show ?thesis by (intro exI [of _ ?s4]) (auto simp: length_Suc_conv)
qed

end
