(* ===== verification/Xdp_Steer.thy ===== *)
theory Xdp_Steer
  imports Session_Handoff
begin

text \<open>
  \<^verbatim>\<open>src/xdp/l2tp_steer.bpf.c\<close>: the XDP program that spreads L2TPv2 data over the cores of a host
  that runs the kernel's L2TP stack instead of VPP.  A frame is the list of its bytes; a read at or
  beyond \<open>data_end\<close> is \<open>None\<close>.  Each stage of the parser either hands on what it found (\<open>Inr\<close>) or
  is a \<open>return pass (stat)\<close> (\<open>Inl\<close>).  The array maps are lists; \<open>stats\<close> is the slice of the CPU the
  program runs on.  The helper \<open>bpf_redirect_map\<close> is a parameter: given the CPU map, the key and the
  flags it returns the action, \<open>XDP_REDIRECT\<close> exactly when the map has an entry for the key
  (\<open>redirect_map_ok\<close>).
\<close>

section \<open>Constants and maps\<close>

definition L2TP_UDP_PORT :: u16 where "L2TP_UDP_PORT = 1701"
definition MAX_CPUS :: nat where "MAX_CPUS = 256"

definition L2TP_HDR_T :: u16 where "L2TP_HDR_T = 0x8000"
definition L2TP_HDR_L :: u16 where "L2TP_HDR_L = 0x4000"
definition L2TP_HDR_VER :: u16 where "L2TP_HDR_VER = 0x000F"

definition ETH_P_IP :: u16 where "ETH_P_IP = 0x0800"
definition ETH_P_IPV6 :: u16 where "ETH_P_IPV6 = 0x86DD"
definition ETH_P_8021Q :: u16 where "ETH_P_8021Q = 0x8100"
definition ETH_P_8021AD :: u16 where "ETH_P_8021AD = 0x88A8"
definition IPPROTO_UDP :: u8 where "IPPROTO_UDP = 17"

lemmas xdp_consts = L2TP_UDP_PORT_def L2TP_HDR_T_def L2TP_HDR_L_def L2TP_HDR_VER_def
  ETH_P_IP_def ETH_P_IPV6_def ETH_P_8021Q_def ETH_P_8021AD_def IPPROTO_UDP_def

datatype stat_idx = STAT_PASS_OTHER | STAT_PASS_CTRL | STAT_REDIRECT | STAT_REDIRECT_FAIL

fun stat_index :: "stat_idx \<Rightarrow> nat" where
  "stat_index STAT_PASS_OTHER = 0"
| "stat_index STAT_PASS_CTRL = 1"
| "stat_index STAT_REDIRECT = 2"
| "stat_index STAT_REDIRECT_FAIL = 3"

definition STAT_MAX :: nat where "STAT_MAX = 4"

datatype xdp_action = XDP_ABORTED | XDP_DROP | XDP_PASS | XDP_TX | XDP_REDIRECT

text \<open>\<open>cpu_map\<close> gives the queue size of the cores that have an entry.\<close>

record xdp_maps =
  cpu_map :: "u32 \<rightharpoonup> u32"
  cpus_available :: "u32 list"
  cpu_count :: "u32 list"
  stats :: "u64 list"

definition xdp_maps_init :: xdp_maps where
  "xdp_maps_init = \<lparr>cpu_map = Map.empty, cpus_available = replicate MAX_CPUS 0, cpu_count = [0],
     stats = replicate STAT_MAX 0\<rparr>"

definition array_lookup :: "'a list \<Rightarrow> u32 \<Rightarrow> 'a option" where
  "array_lookup m k = (if unat k < length m then Some (m ! unat k) else None)"

type_synonym redirect_map = "(u32 \<rightharpoonup> u32) \<Rightarrow> u32 \<Rightarrow> u64 \<Rightarrow> xdp_action"

definition redirect_map_ok :: "redirect_map \<Rightarrow> bool" where
  "redirect_map_ok redirect \<longleftrightarrow> (\<forall>m k. redirect m k 0 = XDP_REDIRECT \<longleftrightarrow> k \<in> dom m)"

section \<open>The parser\<close>

type_synonym 'a xdp_step = "(stat_idx + 'a) option"

definition xdp_bind :: "'a xdp_step \<Rightarrow> ('a \<Rightarrow> 'b xdp_step) \<Rightarrow> 'b xdp_step" where
  "xdp_bind m f = (case m of None \<Rightarrow> None | Some (Inl s) \<Rightarrow> Some (Inl s) | Some (Inr x) \<Rightarrow> f x)"

abbreviation pass_other :: "'a xdp_step" where "pass_other \<equiv> Some (Inl STAT_PASS_OTHER)"

definition xdp_ethernet :: "bytes \<Rightarrow> (u16 \<times> nat) xdp_step" where
  "xdp_ethernet bs = (if length bs < 14 then pass_other
     else do { proto \<leftarrow> rd16 bs 12; Some (Inr (proto, 14)) })"

fun xdp_vlan :: "nat \<Rightarrow> bytes \<Rightarrow> u16 \<Rightarrow> nat \<Rightarrow> (u16 \<times> nat) xdp_step" where
  "xdp_vlan 0 bs proto cur = Some (Inr (proto, cur))"
| "xdp_vlan (Suc i) bs proto cur =
     (if proto = ETH_P_8021Q \<or> proto = ETH_P_8021AD then
        if length bs < cur + 4 then pass_other
        else do { proto' \<leftarrow> rd16 bs (cur + 2); xdp_vlan i bs proto' (cur + 4) }
      else xdp_vlan i bs proto cur)"

text \<open>The protocol of layer 4 and its position.\<close>

definition xdp_ip :: "bytes \<Rightarrow> u16 \<Rightarrow> nat \<Rightarrow> (u8 \<times> nat) xdp_step" where
  "xdp_ip bs proto cur =
     (if proto = ETH_P_IP then
        if length bs < cur + 20 then pass_other
        else do {
          vihl \<leftarrow> rd8 bs cur;
          let ihl = unat (vihl AND 0x0f);
          if ihl < 5 then pass_other
          else do {
            frag_off \<leftarrow> rd16 bs (cur + 6);
            if frag_off AND 0x1fff \<noteq> 0 then pass_other
            else do { l4proto \<leftarrow> rd8 bs (cur + 9); Some (Inr (l4proto, cur + ihl * 4)) } } }
      else if proto = ETH_P_IPV6 then
        if length bs < cur + 40 then pass_other
        else do { l4proto \<leftarrow> rd8 bs (cur + 6); Some (Inr (l4proto, cur + 40)) }
      else pass_other)"

definition xdp_udp :: "bytes \<Rightarrow> u8 \<Rightarrow> nat \<Rightarrow> nat xdp_step" where
  "xdp_udp bs l4proto cur =
     (if l4proto \<noteq> IPPROTO_UDP then pass_other
      else if length bs < cur + 8 then pass_other
      else do {
        dest \<leftarrow> rd16 bs (cur + 2);
        if dest \<noteq> L2TP_UDP_PORT then pass_other else Some (Inr (cur + 8)) })"

definition xdp_l2tp :: "bytes \<Rightarrow> nat \<Rightarrow> (u16 \<times> u16) xdp_step" where
  "xdp_l2tp bs cur =
     (if length bs < cur + 2 then pass_other
      else do {
        flags \<leftarrow> rd16 bs cur;
        if flags AND L2TP_HDR_VER \<noteq> 2 then pass_other
        else if flags AND L2TP_HDR_T \<noteq> 0 then Some (Inl STAT_PASS_CTRL)
        else do {
          let idp = (if flags AND L2TP_HDR_L \<noteq> 0 then cur + 4 else cur + 2);
          if length bs < idp + 4 then pass_other
          else do {
            tunnel_id \<leftarrow> rd16 bs idp;
            session_id \<leftarrow> rd16 bs (idp + 2);
            Some (Inr (tunnel_id, session_id)) } } })"

definition xdp_parse :: "bytes \<Rightarrow> (u16 \<times> u16) xdp_step" where
  "xdp_parse bs =
     xdp_bind (xdp_ethernet bs) (\<lambda>(proto, cur).
     xdp_bind (xdp_vlan 2 bs proto cur) (\<lambda>(proto, cur).
     xdp_bind (xdp_ip bs proto cur) (\<lambda>(l4proto, cur).
     xdp_bind (xdp_udp bs l4proto cur) (xdp_l2tp bs))))"

section \<open>The program\<close>

definition xdp_hash :: "u32 \<Rightarrow> u32 \<Rightarrow> u32" where
  "xdp_hash tunnel_id session_id =
     (let h = (push_bit 16 tunnel_id OR session_id) * 0x9E3779B1 in h XOR drop_bit 16 h)"

definition xdp_count :: "xdp_maps \<Rightarrow> stat_idx \<Rightarrow> xdp_maps" where
  "xdp_count m idx =
     (if stat_index idx < length (stats m)
      then m\<lparr>stats := (stats m)[stat_index idx := stats m ! stat_index idx + 1]\<rparr> else m)"

text \<open>The result: the action, the core a redirected frame goes to, and the maps.\<close>

record xdp_result =
  xr_action :: xdp_action
  xr_cpu :: "u32 option"
  xr_maps :: xdp_maps

definition xdp_pass :: "xdp_maps \<Rightarrow> stat_idx \<Rightarrow> xdp_result" where
  "xdp_pass m idx = \<lparr>xr_action = XDP_PASS, xr_cpu = None, xr_maps = xdp_count m idx\<rparr>"

definition xdp_redirect :: "redirect_map \<Rightarrow> xdp_maps \<Rightarrow> u16 \<Rightarrow> u16 \<Rightarrow> xdp_result" where
  "xdp_redirect redirect m tunnel_id session_id =
     (case array_lookup (cpu_count m) 0 of
        None \<Rightarrow> xdp_pass m STAT_REDIRECT_FAIL
      | Some n \<Rightarrow>
          if n = 0 then xdp_pass m STAT_REDIRECT_FAIL
          else (case array_lookup (cpus_available m) (xdp_hash (ucast tunnel_id) (ucast session_id) mod n) of
             None \<Rightarrow> xdp_pass m STAT_REDIRECT_FAIL
           | Some cpu \<Rightarrow>
               if redirect (cpu_map m) cpu 0 \<noteq> XDP_REDIRECT then xdp_pass m STAT_REDIRECT_FAIL
               else \<lparr>xr_action = XDP_REDIRECT, xr_cpu = Some cpu, xr_maps = xdp_count m STAT_REDIRECT\<rparr>))"

definition l2tp_steer :: "redirect_map \<Rightarrow> xdp_maps \<Rightarrow> bytes \<Rightarrow> xdp_result option" where
  "l2tp_steer redirect m bs =
     map_option (\<lambda>r. case r of Inl s \<Rightarrow> xdp_pass m s
                     | Inr (tunnel_id, session_id) \<Rightarrow> xdp_redirect redirect m tunnel_id session_id)
       (xdp_parse bs)"

section \<open>The parser never leaves the frame\<close>

text \<open>A stage reads inside the frame and passes only as ``other'' or as control.\<close>

definition stage_ok :: "'a xdp_step \<Rightarrow> bool" where
  "stage_ok m \<longleftrightarrow> m \<noteq> None \<and> (\<forall>s. m = Some (Inl s) \<longrightarrow> s = STAT_PASS_OTHER \<or> s = STAT_PASS_CTRL)"

lemma xdp_ethernet_ok: "stage_ok (xdp_ethernet bs)"
  by (auto simp: stage_ok_def xdp_ethernet_def rd_simps)

lemma xdp_vlan_ok: "stage_ok (xdp_vlan i bs proto cur)"
  by (induction i bs proto cur rule: xdp_vlan.induct) (auto simp: stage_ok_def rd_simps)

lemma xdp_ip_ok: "stage_ok (xdp_ip bs proto cur)"
  by (auto simp: stage_ok_def xdp_ip_def rd_simps Let_def)

lemma xdp_udp_ok: "stage_ok (xdp_udp bs l4proto cur)"
  by (auto simp: stage_ok_def xdp_udp_def rd_simps)

lemma xdp_l2tp_ok: "stage_ok (xdp_l2tp bs cur)"
  by (auto simp: stage_ok_def xdp_l2tp_def rd_simps Let_def)

lemma xdp_bind_ok: "stage_ok m \<Longrightarrow> (\<And>x. stage_ok (f x)) \<Longrightarrow> stage_ok (xdp_bind m f)"
  unfolding stage_ok_def xdp_bind_def by (auto split: option.split sum.split)

lemma xdp_bind_pair_ok: "stage_ok m \<Longrightarrow> (\<And>a b. stage_ok (f a b)) \<Longrightarrow> stage_ok (xdp_bind m (\<lambda>(a, b). f a b))"
  by (rule xdp_bind_ok) auto

lemma xdp_parse_ok: "stage_ok (xdp_parse bs)"
  unfolding xdp_parse_def
  by (intro xdp_bind_pair_ok xdp_bind_ok xdp_ethernet_ok xdp_vlan_ok xdp_ip_ok xdp_udp_ok xdp_l2tp_ok)

section \<open>Agreement with the plugin\<close>

lemma xdp_hash_eq: "xdp_hash (ucast tid) (ucast sid) = session_hash tid sid"
  by (simp add: xdp_hash_def session_hash_def)

lemma xdp_l2tp_data_iff:
  "xdp_l2tp bs cur = Some (Inr (tid, sid)) \<longleftrightarrow>
     (\<exists>f off. l2tvpp_parse_hdr (drop cur bs) (length bs - cur) = Some (L2TVPP_HDR_DATA f tid sid off))"
proof (cases "length bs < cur + 6")
  case True
  then show ?thesis
    by (auto simp: xdp_l2tp_def l2tvpp_parse_hdr_def Let_def rd_simps split: if_splits)
next
  case False
  then show ?thesis
    by (auto simp: xdp_l2tp_def l2tvpp_parse_hdr_def Let_def rd_simps xdp_consts hdr_consts rd16_drop
        add.assoc split: if_splits)
qed

lemma xdp_l2tp_not_data:
  assumes "l2tvpp_parse_hdr (drop cur bs) (length bs - cur) = Some rc"
  shows "rc = L2TVPP_HDR_CONTROL \<Longrightarrow> xdp_l2tp bs cur = Some (Inl STAT_PASS_CTRL)"
    and "rc = L2TVPP_HDR_NOT_V2 \<Longrightarrow> xdp_l2tp bs cur = pass_other"
  using assms
  by (auto simp: xdp_l2tp_def l2tvpp_parse_hdr_def Let_def xdp_consts hdr_consts rd16_drop rd_simps
      split: if_splits)

text \<open>A header the plugin finds too short: the program has read at most its first two bytes.\<close>

definition xdp_truncated :: "u16 option \<Rightarrow> stat_idx" where
  "xdp_truncated flags = (case flags of
     Some f \<Rightarrow> if f AND L2TP_HDR_VER = 2 \<and> f AND L2TP_HDR_T \<noteq> 0 then STAT_PASS_CTRL else STAT_PASS_OTHER
   | None \<Rightarrow> STAT_PASS_OTHER)"

lemma xdp_l2tp_too_short:
  assumes "l2tvpp_parse_hdr (drop cur bs) (length bs - cur) = Some L2TVPP_HDR_TOO_SHORT"
  shows "xdp_l2tp bs cur = Some (Inl (xdp_truncated (rd16 bs cur)))"
proof (cases "length bs < cur + 2")
  case True
  then have "rd16 bs cur = None" by (simp add: rd16_eq_None_iff)
  with True show ?thesis by (simp add: xdp_l2tp_def xdp_truncated_def)
next
  case False
  then obtain f where f: "rd16 bs cur = Some f" by (simp add: rd_simps)
  show ?thesis
    using assms False f
    by (auto simp: xdp_l2tp_def l2tvpp_parse_hdr_def Let_def xdp_consts hdr_consts rd16_drop xdp_truncated_def add.assoc
        bind_eq_Some_conv split: if_splits)
qed

text \<open>Claim C9: (equivalence) the XDP program and the plugin agree on L2TP headers: at every position of every
  frame the program's decision is a function of what the plugin's parser finds there.  It steers by
  (tunnel id, session id) exactly the packets in which the plugin finds a data header, with the same ids;
  it passes what the plugin finds to be a control message as control and what is not version 2 as other;
  and a header the plugin finds truncated is never steered, but passed, as control when its first two
  bytes are there and say version 2 and control, as other otherwise.  The slot it picks among n cores is
  the one the plugin's session handoff picks among n workers.\<close>

theorem xdp_agrees_with_plugin:
  "(\<exists>rc. l2tvpp_parse_hdr (drop cur bs) (length bs - cur) = Some rc
     \<and> xdp_l2tp bs cur = Some (case rc of
         L2TVPP_HDR_DATA f tid sid off \<Rightarrow> Inr (tid, sid)
       | L2TVPP_HDR_CONTROL \<Rightarrow> Inl STAT_PASS_CTRL
       | L2TVPP_HDR_NOT_V2 \<Rightarrow> Inl STAT_PASS_OTHER
       | L2TVPP_HDR_TOO_SHORT \<Rightarrow> Inl (case rd16 bs cur of
           Some flags \<Rightarrow> if flags AND 0x000f = 2 \<and> flags AND 0x8000 \<noteq> 0 then STAT_PASS_CTRL else STAT_PASS_OTHER
         | None \<Rightarrow> STAT_PASS_OTHER)))
   \<and> (0 < n \<and> n < 65536 \<longrightarrow> (\<exists>w. l2tvpp_handoff_worker tid sid n = Some w
        \<and> unat w = 1 + unat (xdp_hash (ucast tid) (ucast sid) mod n)))"
proof -
  have "\<exists>w. l2tvpp_handoff_worker tid sid n = Some w \<and> unat w = 1 + unat (session_hash tid sid mod n)"
    if n: "0 < n" "n < 65536"
  proof -
    obtain w where w: "l2tvpp_handoff_worker tid sid n = Some w"
      using n(1) handoff_worker_Some_iff [of tid sid n] by auto
    then show ?thesis
      using handoff_worker_value [OF n w] by (simp add: unat_mod)
  qed
  moreover obtain rc where rc: "l2tvpp_parse_hdr (drop cur bs) (length bs - cur) = Some rc"
    using parse_hdr_no_fault [of "length bs - cur" "drop cur bs"] by auto
  moreover have "xdp_l2tp bs cur = Some (case rc of
         L2TVPP_HDR_DATA f tid sid off \<Rightarrow> Inr (tid, sid)
       | L2TVPP_HDR_CONTROL \<Rightarrow> Inl STAT_PASS_CTRL
       | L2TVPP_HDR_NOT_V2 \<Rightarrow> Inl STAT_PASS_OTHER
       | L2TVPP_HDR_TOO_SHORT \<Rightarrow> Inl (case rd16 bs cur of
           Some flags \<Rightarrow> if flags AND 0x000f = 2 \<and> flags AND 0x8000 \<noteq> 0 then STAT_PASS_CTRL else STAT_PASS_OTHER
         | None \<Rightarrow> STAT_PASS_OTHER))"
  proof (cases rc)
    case L2TVPP_HDR_TOO_SHORT
    with rc show ?thesis
      using xdp_l2tp_too_short [of cur bs] unfolding xdp_truncated_def L2TP_HDR_VER_def L2TP_HDR_T_def by simp
  next
    case (L2TVPP_HDR_DATA f tid' sid' off)
    with rc show ?thesis using xdp_l2tp_data_iff [of bs cur tid' sid'] by auto
  qed (use xdp_l2tp_not_data [OF rc] in simp_all)
  ultimately show ?thesis unfolding xdp_hash_eq by blast
qed

theorem xdp_agrees_with_plugin_witness:
  "l2tvpp_parse_hdr [0x80, 2] 2 = Some L2TVPP_HDR_TOO_SHORT \<and> xdp_l2tp [0x80, 2] 0 = Some (Inl STAT_PASS_CTRL)
    \<and> (\<exists>w. l2tvpp_handoff_worker 100 1000 4 = Some w \<and> unat w = 1 + unat (xdp_hash 100 1000 mod 4))"
proof -
  have short: "l2tvpp_parse_hdr [0x80, 2] n = Some L2TVPP_HDR_TOO_SHORT" if "n = 2" for n using that by (simp add: l2tvpp_parse_hdr_def)
  have flags: "rd16 [0x80, 2] 0 = Some 0x8002" by (simp add: rd16_def rd8_def be16_def)
  show ?thesis
    using xdp_agrees_with_plugin [of 0 "[0x80, 2]" 4 100 1000] by (auto simp: short flags)
qed

section \<open>Every data frame is steered\<close>

text \<open>The frames of the specification: up to two VLAN tags behind the addresses, an IPv4 header of any
  length that is not a later fragment or a plain IPv6 header, UDP to the L2TP port.\<close>

fun first_type :: "(u16 \<times> u16) list \<Rightarrow> u16 \<Rightarrow> u16" where
  "first_type [] type = type"
| "first_type ((tpid, tci) # tags) type = tpid"

fun tag_bytes :: "(u16 \<times> u16) list \<Rightarrow> u16 \<Rightarrow> bytes" where
  "tag_bytes [] type = []"
| "tag_bytes ((tpid, tci) # tags) type = put16 tci @ put16 (first_type tags type) @ tag_bytes tags type"

definition eth_bytes :: "bytes \<Rightarrow> (u16 \<times> u16) list \<Rightarrow> u16 \<Rightarrow> bytes" where
  "eth_bytes addrs tags type = addrs @ put16 (first_type tags type) @ tag_bytes tags type"

definition ip_carries_udp :: "u16 \<Rightarrow> bytes \<Rightarrow> bool" where
  "ip_carries_udp type ip \<longleftrightarrow>
     type = ETH_P_IP \<and> 20 \<le> length ip \<and> length ip = unat (ip ! 0 AND 0x0f) * 4
       \<and> be16 (ip ! 6) (ip ! 7) AND 0x1fff = 0 \<and> ip ! 9 = IPPROTO_UDP
     \<or> type = ETH_P_IPV6 \<and> length ip = 40 \<and> ip ! 6 = IPPROTO_UDP"

definition vlan_tags_ok :: "(u16 \<times> u16) list \<Rightarrow> bool" where
  "vlan_tags_ok tags \<longleftrightarrow> length tags \<le> 2 \<and> (\<forall>(tpid, tci) \<in> set tags. tpid = ETH_P_8021Q \<or> tpid = ETH_P_8021AD)"

lemma xdp_bind_Inr [simp]: "xdp_bind (Some (Inr x)) f = f x"
  by (simp add: xdp_bind_def)

lemma xdp_vlan_plain:
  "type \<noteq> ETH_P_8021Q \<Longrightarrow> type \<noteq> ETH_P_8021AD \<Longrightarrow> xdp_vlan i bs type cur = Some (Inr (type, cur))"
  by (induction i) simp_all

lemma xdp_vlan_tags:
  assumes "type \<noteq> ETH_P_8021Q" and "type \<noteq> ETH_P_8021AD"
  shows "length tags \<le> i \<Longrightarrow> \<forall>(tpid, tci) \<in> set tags. tpid = ETH_P_8021Q \<or> tpid = ETH_P_8021AD \<Longrightarrow>
    xdp_vlan i (pre @ tag_bytes tags type @ rest) (first_type tags type) (length pre) =
      Some (Inr (type, length pre + length (tag_bytes tags type)))"
proof (induction tags arbitrary: i pre)
  case Nil
  then show ?case using xdp_vlan_plain [OF assms] by simp
next
  case (Cons tag tags)
  obtain tpid tci where tag: "tag = (tpid, tci)" by (cases tag)
  obtain j where i: "i = Suc j" using Cons.prems(1) by (cases i) auto
  let ?pre = "pre @ put16 tci @ put16 (first_type tags type)"
  have "rd16 (pre @ put16 tci @ put16 (first_type tags type) @ tag_bytes tags type @ rest) (length pre + 2) =
      Some (first_type tags type)"
    using rd16_append_right [of "pre @ put16 tci" "put16 (first_type tags type) @ tag_bytes tags type @ rest" 0]
    by simp
  then show ?case
    using Cons.IH [of j ?pre] Cons.prems by (auto simp: tag i add.assoc)
qed

lemma xdp_ip_udp:
  assumes "ip_carries_udp type ip"
  shows "xdp_ip (pre @ ip @ rest) type (length pre) = Some (Inr (IPPROTO_UDP, length pre + length ip))"
proof -
  have rd: "rd8 (pre @ ip @ rest) (length pre + i) = Some (ip ! i)" if "i < length ip" for i
    using that by (simp add: rd8_def nth_append)
  have rd0: "rd8 (pre @ ip @ rest) (length pre) = Some (ip ! 0)" if "0 < length ip"
    using rd [OF that] by simp
  have rd2: "rd16 (pre @ ip @ rest) (length pre + 6) = Some (be16 (ip ! 6) (ip ! 7))" if "7 < length ip"
    using that rd [of 6] rd [of 7] by (simp add: rd16_def ac_simps)
  show ?thesis
    using assms by (auto simp: ip_carries_udp_def xdp_ip_def rd rd0 rd2 Let_def xdp_consts)
qed

definition udp_bytes :: "u16 \<Rightarrow> u16 \<Rightarrow> u16 \<Rightarrow> bytes" where
  "udp_bytes sport len csum = put16 sport @ put16 L2TP_UDP_PORT @ put16 len @ put16 csum"

lemma xdp_udp_1701:
  "xdp_udp (pre @ udp_bytes sport len csum @ rest) IPPROTO_UDP (length pre) = Some (Inr (length pre + 8))"
  using rd16_append_right [of "pre @ put16 sport" "put16 L2TP_UDP_PORT @ put16 len @ put16 csum @ rest" 0]
  by (simp add: xdp_udp_def udp_bytes_def)

lemma xdp_parse_data:
  assumes "length addrs = 12" and "vlan_tags_ok tags" and "ip_carries_udp type ip"
  shows "xdp_parse (eth_bytes addrs tags type @ ip @ udp_bytes sport len csum @ rfc_encode h @ payload) =
    Some (Inr (rh_tid h, rh_sid h))"
proof -
  let ?tail = "ip @ udp_bytes sport len csum @ rfc_encode h @ payload"
  let ?bs = "eth_bytes addrs tags type @ ?tail"
  let ?pre = "addrs @ put16 (first_type tags type)"
  let ?eth = "eth_bytes addrs tags type"
  have type: "type \<noteq> ETH_P_8021Q" "type \<noteq> ETH_P_8021AD"
    using assms(3) by (auto simp: ip_carries_udp_def xdp_consts)
  have bs: "?bs = ?pre @ tag_bytes tags type @ ?tail" by (simp add: eth_bytes_def)
  have e: "xdp_ethernet ?bs = Some (Inr (first_type tags type, 14))"
    using rd16_append_right [of addrs "put16 (first_type tags type) @ tag_bytes tags type @ ?tail" 0] assms(1)
    by (simp add: xdp_ethernet_def eth_bytes_def)
  have v: "xdp_vlan 2 ?bs (first_type tags type) 14 = Some (Inr (type, length ?eth))"
    using xdp_vlan_tags [OF type, of tags 2 ?pre ?tail] assms(1,2)
    by (simp add: vlan_tags_ok_def eth_bytes_def)
  have u: "xdp_udp ?bs IPPROTO_UDP (length ?eth + length ip) = Some (Inr (length ?eth + length ip + 8))"
    using xdp_udp_1701 [of "?eth @ ip" sport len csum "rfc_encode h @ payload"] by simp
  have d: "drop (length ?eth + length ip + 8) ?bs = rfc_encode h @ payload"
    by (simp add: udp_bytes_def)
  have "\<exists>f off. l2tvpp_parse_hdr (rfc_encode h @ payload) (length (rfc_encode h @ payload)) =
      Some (L2TVPP_HDR_DATA f (rh_tid h) (rh_sid h) off)"
    using parse_rfc_fixed [of h "rfc_optional h @ payload"] by (auto simp: rfc_encode_def)
  moreover have "length ?bs - (length ?eth + length ip + 8) = length (rfc_encode h @ payload)"
    by (simp add: udp_bytes_def)
  ultimately have l: "xdp_l2tp ?bs (length ?eth + length ip + 8) = Some (Inr (rh_tid h, rh_sid h))"
    unfolding xdp_l2tp_data_iff d by simp
  show ?thesis
    using xdp_ip_udp [OF assms(3), of ?eth "udp_bytes sport len csum @ rfc_encode h @ payload"]
    by (simp only: xdp_parse_def e v u l xdp_bind_Inr prod.case)
qed

text \<open>Maps as the loader leaves them for a list of cores.\<close>

definition steer_ready :: "xdp_maps \<Rightarrow> u32 list \<Rightarrow> bool" where
  "steer_ready m cpus \<longleftrightarrow> cpus \<noteq> [] \<and> length cpus \<le> MAX_CPUS \<and> cpu_count m = [of_nat (length cpus)]
     \<and> length (cpus_available m) = MAX_CPUS \<and> take (length cpus) (cpus_available m) = cpus
     \<and> set cpus \<subseteq> dom (cpu_map m)"

definition steer_cpu :: "u32 list \<Rightarrow> u16 \<Rightarrow> u16 \<Rightarrow> u32" where
  "steer_cpu cpus tid sid = cpus ! (unat (session_hash tid sid) mod length cpus)"

lemma xdp_redirect_ready:
  assumes "steer_ready m cpus" and "redirect_map_ok redirect"
  shows "xdp_redirect redirect m tid sid =
    \<lparr>xr_action = XDP_REDIRECT, xr_cpu = Some (steer_cpu cpus tid sid), xr_maps = xdp_count m STAT_REDIRECT\<rparr>"
proof -
  note r = assms(1) [unfolded steer_ready_def MAX_CPUS_def]
  define n :: u32 where "n = of_nat (length cpus)"
  have n: "unat n = length cpus" using r by (simp add: n_def unat_of_nat)
  then have "n \<noteq> 0" using r by auto
  let ?i = "session_hash tid sid mod n"
  have i: "unat ?i = unat (session_hash tid sid) mod length cpus" by (simp add: unat_mod n)
  then have lt: "unat ?i < length cpus" using r by simp
  have "cpus_available m ! unat ?i = cpus ! unat ?i"
    using r lt by (metis nth_take)
  moreover have "unat ?i < length (cpus_available m)" using lt r by linarith
  ultimately have "array_lookup (cpus_available m) ?i = Some (steer_cpu cpus tid sid)"
    by (simp add: array_lookup_def steer_cpu_def i)
  moreover have "steer_cpu cpus tid sid \<in> dom (cpu_map m)"
    using r lt unfolding steer_cpu_def i [symmetric] by (meson nth_mem subsetD)
  moreover have "array_lookup (cpu_count m) 0 = Some n" using r by (simp add: array_lookup_def n_def)
  ultimately show ?thesis
    using \<open>n \<noteq> 0\<close> assms(2) by (simp add: xdp_redirect_def xdp_hash_eq redirect_map_ok_def)
qed

text \<open>Claim C30: (functional) every L2TPv2 data frame is steered: with up to two VLAN tags, over IPv4 with
  or without options (also in a first fragment) or over IPv6, to UDP port 1701 with any RFC 2661 data
  header, the program redirects the frame to core number (session hash modulo the number of cores) of
  the loaded list and counts one redirect.\<close>

theorem xdp_steers_every_data_frame:
  assumes "length addrs = 12" and "vlan_tags_ok tags" and "ip_carries_udp type ip"
    and "steer_ready m cpus" and "redirect_map_ok redirect"
  shows "l2tp_steer redirect m
      (eth_bytes addrs tags type @ ip @ udp_bytes sport len csum @ rfc_encode h @ payload) =
    Some \<lparr>xr_action = XDP_REDIRECT, xr_cpu = Some (cpus ! (unat (session_hash (rh_tid h) (rh_sid h)) mod length cpus)),
      xr_maps = xdp_count m STAT_REDIRECT\<rparr>"
  using xdp_parse_data [OF assms(1-3)] xdp_redirect_ready [OF assms(4,5)]
  by (simp add: l2tp_steer_def steer_cpu_def)

definition ref_redirect :: redirect_map where
  "ref_redirect m k fl = (case m k of Some q \<Rightarrow> XDP_REDIRECT | None \<Rightarrow> XDP_ABORTED)"

lemma ref_redirect_ok: "redirect_map_ok ref_redirect"
  by (auto simp: redirect_map_ok_def ref_redirect_def split: option.split)

definition ex_xdp_maps :: xdp_maps where
  "ex_xdp_maps = xdp_maps_init\<lparr>cpu_map := [2 \<mapsto> 2048, 3 \<mapsto> 2048], cpus_available := [2, 3] @ replicate 254 0,
     cpu_count := [2]\<rparr>"

lemma ex_xdp_ready: "steer_ready ex_xdp_maps [2, 3]"
  by (simp add: steer_ready_def ex_xdp_maps_def MAX_CPUS_def)

definition ex_rfc_hdr :: rfc_hdr where
  "ex_rfc_hdr = \<lparr>rh_length = Some 20, rh_priority = False, rh_tid = 100, rh_sid = 1000, rh_seq = Some (1, 2),
     rh_offset = None\<rparr>"

definition ex_ip_udp :: bytes where
  "ex_ip_udp = [0x45, 0, 0, 48, 0, 0, 0x20, 0, 64, 17, 0, 0, 10, 0, 0, 2, 10, 0, 0, 1]"

theorem xdp_steers_every_data_frame_witness:
  "\<exists>r. l2tp_steer ref_redirect ex_xdp_maps
      (eth_bytes (replicate 12 0) [(ETH_P_8021AD, 5), (ETH_P_8021Q, 7)] ETH_P_IP @ ex_ip_udp
        @ udp_bytes 1701 28 0 @ rfc_encode ex_rfc_hdr @ [0xff, 3]) = Some r
    \<and> xr_action r = XDP_REDIRECT \<and> xr_cpu r = Some ([2, 3] ! (unat (session_hash 100 1000) mod 2))"
proof -
  have "length (replicate 12 0 :: bytes) = 12" "vlan_tags_ok [(ETH_P_8021AD, 5), (ETH_P_8021Q, 7)]"
    by (simp_all add: vlan_tags_ok_def)
  moreover have "ip_carries_udp ETH_P_IP ex_ip_udp"
    by (simp add: ip_carries_udp_def ex_ip_udp_def be16_def xdp_consts)
  ultimately show ?thesis
    using xdp_steers_every_data_frame [OF _ _ _ ex_xdp_ready ref_redirect_ok, where h = ex_rfc_hdr]
    by (simp add: ex_rfc_hdr_def eval_nat_numeral)
qed

section \<open>Runs of the program\<close>

text \<open>The program on the frames one core receives, in order.\<close>

fun steer_run :: "redirect_map \<Rightarrow> xdp_maps \<Rightarrow> bytes list \<Rightarrow> (xdp_result list \<times> xdp_maps) option" where
  "steer_run redirect m [] = Some ([], m)"
| "steer_run redirect m (f # fs) = do {
     r \<leftarrow> l2tp_steer redirect m f;
     (rs, m') \<leftarrow> steer_run redirect (xr_maps r) fs;
     Some (r # rs, m') }"

definition xdp_session :: "bytes \<Rightarrow> (u16 \<times> u16) option" where
  "xdp_session bs = (case xdp_parse bs of Some (Inr ids) \<Rightarrow> Some ids | _ \<Rightarrow> None)"

definition xdp_target :: "redirect_map \<Rightarrow> xdp_maps \<Rightarrow> bytes \<Rightarrow> xdp_action \<times> u32 option" where
  "xdp_target redirect m bs =
     (case xdp_session bs of
        None \<Rightarrow> (XDP_PASS, None)
      | Some (tid, sid) \<Rightarrow> (let r = xdp_redirect redirect m tid sid in (xr_action r, xr_cpu r)))"

interpretation xdp_dispatch: keyed_dispatch xdp_session "xdp_target redirect m"
  by unfold_locales (simp add: xdp_target_def)

lemma xdp_count_simps [simp]:
  "cpu_map (xdp_count m i) = cpu_map m" "cpus_available (xdp_count m i) = cpus_available m"
  "cpu_count (xdp_count m i) = cpu_count m" "length (stats (xdp_count m i)) = length (stats m)"
  by (simp_all add: xdp_count_def)

lemma xdp_pass_sel [simp]:
  "xr_action (xdp_pass m i) = XDP_PASS" "xr_cpu (xdp_pass m i) = None" "xr_maps (xdp_pass m i) = xdp_count m i"
  by (simp_all add: xdp_pass_def)

text \<open>Every run of the program counts one packet, under the action it takes.\<close>

lemma xdp_redirect_result:
  "\<exists>i. xr_maps (xdp_redirect redirect m tid sid) = xdp_count m i
     \<and> (i = STAT_REDIRECT \<longleftrightarrow> xr_action (xdp_redirect redirect m tid sid) = XDP_REDIRECT)"
proof -
  let ?cpu = "array_lookup (cpus_available m) (xdp_hash (ucast tid) (ucast sid) mod (the (array_lookup (cpu_count m) 0)))"
  show ?thesis
    by (cases "array_lookup (cpu_count m) 0"; cases ?cpu) (auto simp: xdp_redirect_def)
qed

lemma l2tp_steer_result:
  obtains r i where "l2tp_steer redirect m bs = Some r" and "xr_maps r = xdp_count m i"
    and "(xr_action r, xr_cpu r) = xdp_target redirect m bs"
    and "i = STAT_REDIRECT \<longleftrightarrow> xr_action r = XDP_REDIRECT"
proof -
  obtain v where v: "xdp_parse bs = Some v" using xdp_parse_ok [of bs] by (auto simp: stage_ok_def)
  show thesis
  proof (cases v)
    case (Inl s)
    then have "s \<noteq> STAT_REDIRECT" using xdp_parse_ok [of bs] v by (auto simp: stage_ok_def)
    then show thesis
      using v Inl that [of "xdp_pass m s" s] by (simp add: l2tp_steer_def xdp_target_def xdp_session_def)
  next
    case (Inr ids)
    obtain tid sid where ids: "ids = (tid, sid)" by (cases ids)
    obtain i where "xr_maps (xdp_redirect redirect m tid sid) = xdp_count m i"
      "i = STAT_REDIRECT \<longleftrightarrow> xr_action (xdp_redirect redirect m tid sid) = XDP_REDIRECT"
      using xdp_redirect_result by blast
    then show thesis
      using v Inr ids that [of "xdp_redirect redirect m tid sid" i]
      by (simp add: l2tp_steer_def xdp_target_def xdp_session_def Let_def)
  qed
qed

lemma xdp_target_cong:
  "cpu_map m' = cpu_map m \<Longrightarrow> cpus_available m' = cpus_available m \<Longrightarrow> cpu_count m' = cpu_count m \<Longrightarrow>
     xdp_target redirect m' bs = xdp_target redirect m bs"
  by (auto simp: xdp_target_def xdp_redirect_def Let_def split: option.split)

lemma steer_run_targets:
  "\<exists>rs m'. steer_run redirect m fs = Some (rs, m')
     \<and> map (\<lambda>r. (xr_action r, xr_cpu r)) rs = map (xdp_target redirect m) fs"
proof (induction fs arbitrary: m)
  case (Cons f fs)
  obtain r i where r: "l2tp_steer redirect m f = Some r" "xr_maps r = xdp_count m i"
    "(xr_action r, xr_cpu r) = xdp_target redirect m f"
    by (rule l2tp_steer_result)
  then have "xdp_target redirect (xr_maps r) = xdp_target redirect m"
    by (intro ext xdp_target_cong) simp_all
  with Cons.IH [of "xr_maps r"] r show ?case by auto
qed simp

text \<open>Claim C31: (safety) the program keeps every session in order: on any frames whatever it runs
  without reading beyond \<open>data_end\<close>, only passes or redirects, and for each (tunnel id, session id)
  there is one destination (one core, or the core it arrived on) to which all frames of the session go,
  in arrival order, and none of them goes anywhere else.\<close>

theorem xdp_keeps_session_order:
  "\<exists>rs m'. steer_run redirect m fs = Some (rs, m') \<and> length rs = length fs
     \<and> (\<forall>r \<in> set rs. xr_action r = XDP_PASS \<and> xr_cpu r = None
          \<or> xr_action r = XDP_REDIRECT \<and> xr_cpu r \<noteq> None)
     \<and> (\<forall>tid sid. \<exists>w. \<forall>w'. filter (\<lambda>f. xdp_session f = Some (tid, sid))
            (map fst (filter (\<lambda>(f, r). (xr_action r, xr_cpu r) = w') (zip fs rs))) =
          (if w' = w then filter (\<lambda>f. xdp_session f = Some (tid, sid)) fs else []))"
proof -
  obtain rs m' where run: "steer_run redirect m fs = Some (rs, m')"
    and t: "map (\<lambda>r. (xr_action r, xr_cpu r)) rs = map (xdp_target redirect m) fs"
    using steer_run_targets by blast
  have len: "length rs = length fs" using arg_cong [OF t, of length] by simp
  have tgt: "xdp_target redirect m f \<in> insert (XDP_PASS, None) (Pair XDP_REDIRECT ` range Some)" for f
    by (auto simp: xdp_target_def xdp_redirect_def Let_def split: option.split)
  have acts: "xr_action r = XDP_PASS \<and> xr_cpu r = None \<or> xr_action r = XDP_REDIRECT \<and> xr_cpu r \<noteq> None"
    if "r \<in> set rs" for r
  proof -
    have "(xr_action r, xr_cpu r) \<in> set (map (xdp_target redirect m) fs)"
      using that by (simp flip: t)
    then obtain f where "(xr_action r, xr_cpu r) = xdp_target redirect m f" by auto
    with tgt [of f] show ?thesis by auto
  qed
  have q: "map fst (filter (\<lambda>(f, r). (xr_action r, xr_cpu r) = w) (zip fs rs)) =
      worker_queue (xdp_target redirect m) w fs" for w
    using len t
  proof (induction fs rs rule: list_induct2')
    case (4 f fs r rs)
    then show ?case by (simp add: worker_queue_def)
  qed (simp_all add: worker_queue_def)
  have "\<exists>w. \<forall>w'. flow_of xdp_session k (worker_queue (xdp_target redirect m) w' fs) =
      (if w' = w then flow_of xdp_session k fs else [])" for k
    using xdp_dispatch.flow_order_kept [of k redirect m fs] by metis
  then have "\<forall>tid sid. \<exists>w. \<forall>w'. filter (\<lambda>f. xdp_session f = Some (tid, sid))
        (map fst (filter (\<lambda>(f, r). (xr_action r, xr_cpu r) = w') (zip fs rs))) =
      (if w' = w then filter (\<lambda>f. xdp_session f = Some (tid, sid)) fs else [])"
    unfolding q flow_of_def by blast
  with run len acts show ?thesis by (intro exI [of _ rs] exI [of _ m']) blast
qed

theorem xdp_keeps_session_order_witness:
  "\<exists>rs m'. steer_run ref_redirect ex_xdp_maps [[], [0]] = Some (rs, m') \<and> length rs = 2"
proof -
  have "length [[], [0 :: u8]] = 2" by simp
  then show ?thesis
    using xdp_keeps_session_order [of ref_redirect ex_xdp_maps "[[], [0]]"] by metis
qed

section \<open>Counters\<close>

lemma steer_run_stats:
  assumes "length (stats m) = STAT_MAX" and "steer_run redirect m fs = Some (rs, m')"
  shows "length (stats m') = STAT_MAX \<and> sum_list (stats m') = sum_list (stats m) + of_nat (length fs)
    \<and> stats m' ! 2 = stats m ! 2 + of_nat (length (filter (\<lambda>r. xr_action r = XDP_REDIRECT) rs))"
  using assms
proof (induction fs arbitrary: m rs)
  case (Cons f fs)
  obtain r i where r: "l2tp_steer redirect m f = Some r" "xr_maps r = xdp_count m i"
    "(xr_action r, xr_cpu r) = xdp_target redirect m f" "i = STAT_REDIRECT \<longleftrightarrow> xr_action r = XDP_REDIRECT"
    by (rule l2tp_steer_result)
  obtain rs' where rs': "steer_run redirect (xr_maps r) fs = Some (rs', m')" "rs = r # rs'"
    using Cons.prems(2) r(1) by (auto simp: bind_eq_Some_conv)
  obtain a b c d where st: "stats m = [a, b, c, d]"
    using Cons.prems(1) by (auto simp: STAT_MAX_def length_Suc_conv eval_nat_numeral)
  have "sum_list (stats (xdp_count m i)) = sum_list (stats m) + 1
    \<and> stats (xdp_count m i) ! 2 = stats m ! 2 + (if i = STAT_REDIRECT then 1 else 0)"
    by (cases i) (simp_all add: xdp_count_def st)
  moreover have "length (stats (xr_maps r)) = STAT_MAX" using Cons.prems(1) r(2) by simp
  ultimately show ?case
    using Cons.IH [OF _ rs'(1)] r(2,4) by (auto simp: rs'(2) ac_simps)
qed simp

text \<open>The counters account for every frame: over a run the four counters of a core
  together grow by the number of frames, and the redirect counter by the number of redirected frames,
  in the 64-bit arithmetic of the map.\<close>

theorem xdp_counters_exact:
  assumes "length (stats m) = STAT_MAX"
  shows "\<exists>rs m'. steer_run redirect m fs = Some (rs, m') \<and> length (stats m') = STAT_MAX
    \<and> sum_list (stats m') = sum_list (stats m) + of_nat (length fs)
    \<and> stats m' ! stat_index STAT_REDIRECT =
        stats m ! stat_index STAT_REDIRECT + of_nat (length (filter (\<lambda>r. xr_action r = XDP_REDIRECT) rs))"
  using steer_run_targets [of redirect m fs] steer_run_stats [OF assms] by fastforce

theorem xdp_counters_exact_witness:
  "\<exists>rs m'. steer_run ref_redirect ex_xdp_maps [[], []] = Some (rs, m') \<and> sum_list (stats m') = 2"
proof -
  have "length (stats ex_xdp_maps) = STAT_MAX" and s: "sum_list (stats ex_xdp_maps) = 0"
    by (simp_all add: ex_xdp_maps_def xdp_maps_init_def sum_list_replicate)
  from xdp_counters_exact [OF this(1), of ref_redirect "[[], []]"] show ?thesis
    unfolding s by (auto simp del: steer_run.simps)
qed

end
