(* ===== verification/Xdp_Loader.thy ===== *)
theory Xdp_Loader
  imports Xdp_Steer
begin

text \<open>
  \<^verbatim>\<open>src/xdp/l2tp_steer.c\<close>: the program that loads the XDP program, fills its maps and attaches it.
  The C library functions it calls on text (\<open>strtok_r\<close>, \<open>sscanf\<close> with \<open>%u\<close>, \<open>atoi\<close>,
  \<open>strrchr\<close>) are written out, with the conversions of out-of-range numbers as glibc does them; what
  the kernel and libbpf answer is the record \<open>loader_env\<close>, and what is asked of them is listed in
  order as \<open>bpf_call\<close>.  Two loops are \<open>partial_function\<close>s: the one over the items of a range could run
  forever for a range that ends at the largest number, and that it does not is a theorem; the one that
  prints the counters every \<open>-w\<close> seconds does run forever unless a lookup fails.
\<close>

section \<open>Scanning numbers\<close>

definition is_space :: "char \<Rightarrow> bool" where
  "is_space c \<longleftrightarrow> (of_char c :: nat) = 32 \<or> 9 \<le> (of_char c :: nat) \<and> (of_char c :: nat) \<le> 13"

text \<open>An optionally signed decimal number behind white space: sign, magnitude and what follows.\<close>

definition scan_number :: "string \<Rightarrow> (bool \<times> nat \<times> string) option" where
  "scan_number s =
     (let s1 = dropWhile is_space s;
          (neg, s2) = (case s1 of c # r \<Rightarrow> if c = CHR ''-'' then (True, r)
                                           else if c = CHR ''+'' then (False, r) else (False, s1)
                       | [] \<Rightarrow> (False, s1));
          ds = takeWhile is_digit s2
      in if ds = [] then None else Some (neg, digits_value ds, dropWhile is_digit s2))"

text \<open>\<open>strtoul\<close> to 64 bits, stored through an \<open>unsigned *\<close>; \<open>strtol\<close> converted to \<open>int\<close>.\<close>

definition to_unsigned :: "bool \<Rightarrow> nat \<Rightarrow> u32" where
  "to_unsigned neg n = of_int (if 2 ^ 64 \<le> n then 2 ^ 64 - 1 else if neg then - int n else int n)"

definition atoi :: "string \<Rightarrow> int" where
  "atoi s = (case scan_number s of
     None \<Rightarrow> 0
   | Some (neg, n, r) \<Rightarrow>
       signed_take_bit 31 (if neg then max (- (2 ^ 63)) (- int n) else min (2 ^ 63 - 1) (int n)))"

definition sscanf_u :: "string \<Rightarrow> u32 option" where
  "sscanf_u tok = map_option (\<lambda>(neg, n, r). to_unsigned neg n) (scan_number tok)"

definition sscanf_u_u :: "string \<Rightarrow> (u32 \<times> u32) option" where
  "sscanf_u_u tok = (case scan_number tok of
     None \<Rightarrow> None
   | Some (neg, n, r) \<Rightarrow>
       (case r of
          c # r' \<Rightarrow> if c = CHR ''-'' then map_option (\<lambda>b. (to_unsigned neg n, b)) (sscanf_u r') else None
        | [] \<Rightarrow> None))"

text \<open>The tokens \<open>strtok_r\<close> returns for a one-character separator.\<close>

fun strtok :: "char \<Rightarrow> string \<Rightarrow> string \<Rightarrow> string list" where
  "strtok sep tok [] = (if tok = [] then [] else [tok])"
| "strtok sep tok (c # cs) =
     (if c = sep then (if tok = [] then [] else [tok]) @ strtok sep [] cs else strtok sep (tok @ [c]) cs)"

section \<open>The list of cores\<close>

datatype loader_error =
    Bad_cpu_list_item string
  | Too_many_cpus
  | Unknown_interface string
  | Cpu_does_not_exist u32
  | Readlink_failed
  | Open_failed string
  | Load_failed int
  | Object_incomplete
  | Cpumap_add_failed u32
  | Pin_failed int
  | Attach_failed int

text \<open>\<open>for (unsigned c = a; c <= b; c++)\<close>\<close>

partial_function (option) cpu_range :: "u32 \<Rightarrow> u32 \<Rightarrow> nat \<Rightarrow> u32 list \<Rightarrow> (loader_error + u32 list) option" where
  "cpu_range c b lim cpus =
     (if c \<le> b then
        if lim \<le> length cpus then Some (Inl Too_many_cpus) else cpu_range (c + 1) b lim (cpus @ [c])
      else Some (Inr cpus))"

fun parse_cpu_items :: "string list \<Rightarrow> nat \<Rightarrow> u32 list \<Rightarrow> (loader_error + u32 list) option" where
  "parse_cpu_items [] lim cpus = Some (Inr cpus)"
| "parse_cpu_items (tok # toks) lim cpus =
     (case (case sscanf_u_u tok of Some ab \<Rightarrow> Some ab
            | None \<Rightarrow> map_option (\<lambda>a. (a, a)) (sscanf_u tok)) of
        None \<Rightarrow> Some (Inl (Bad_cpu_list_item tok))
      | Some (a, b) \<Rightarrow> do {
          r \<leftarrow> cpu_range a b lim cpus;
          case r of Inl e \<Rightarrow> Some (Inl e) | Inr cpus' \<Rightarrow> parse_cpu_items toks lim cpus' })"

definition parse_cpulist :: "string \<Rightarrow> nat \<Rightarrow> (loader_error + u32 list) option" where
  "parse_cpulist s lim = parse_cpu_items (strtok CHR '','' [] s) lim []"

section \<open>Counters\<close>

definition stat_names :: "string list" where
  "stat_names = [''pass_other'', ''pass_ctrl'', ''redirect'', ''redirect_fail'']"

text \<open>A line of the output: name, total over the cores and, with an interval, the rate.\<close>

type_synonym stat_line = "string \<times> u64 \<times> u64 option"

text \<open>One round: for each counter the values of all cores, or \<open>None\<close> where the lookup fails.\<close>

definition show_stats_round ::
  "int \<Rightarrow> u64 list \<Rightarrow> u64 list option list \<Rightarrow> (stat_line list \<times> u64 list) option" where
  "show_stats_round interval prev vals =
     (if None \<in> set vals then None
      else
        let cur = map (\<lambda>v. sum_list (the v)) vals in
        Some (map (\<lambda>(name, c, p). (name, c,
                if interval \<noteq> 0 then Some ((c - p) div of_int interval) else None))
              (zip stat_names (zip cur prev)), cur))"

text \<open>The loop \<open>for (;;)\<close>: \<open>rounds k\<close> is what the lookups of round \<open>k\<close> give, \<open>out\<close> what has been printed.  The
  result is what was printed and the return value; \<open>None\<close> when the loop does not end.\<close>

partial_function (option) show_stats_rounds ::
  "int \<Rightarrow> (nat \<Rightarrow> u64 list option list) \<Rightarrow> u64 list \<Rightarrow> nat \<Rightarrow> stat_line list list \<Rightarrow> (stat_line list list \<times> int) option" where
  "show_stats_rounds interval rounds prev k out =
     (case show_stats_round interval prev (rounds k) of
        None \<Rightarrow> Some (out, 1)
      | Some (lines, cur) \<Rightarrow>
          if interval = 0 then Some (out @ [lines], 0)
          else show_stats_rounds interval rounds cur (Suc k) (out @ [lines]))"

definition show_stats :: "bool \<Rightarrow> int \<Rightarrow> (nat \<Rightarrow> u64 list option list) \<Rightarrow> (stat_line list list \<times> int) option" where
  "show_stats opened interval rounds =
     (if \<not> opened then Some ([], 1) else show_stats_rounds interval rounds (replicate STAT_MAX 0) 0 [])"

section \<open>Detaching\<close>

definition PIN_DIR :: string where "PIN_DIR = ''/sys/fs/bpf/l2tp_steer''"

datatype bpf_call =
    Bpf_xdp_attach u32 bool
  | Bpf_xdp_detach u32 bool
  | Bpf_object_pin_maps string
  | Bpf_object_unpin_maps string
  | Mkdir string
  | Unlink string
  | Rmdir string

text \<open>The mode is \<open>True\<close> for generic (skb) XDP.\<close>

definition detach :: "int \<Rightarrow> u32 \<Rightarrow> bool \<Rightarrow> int \<times> bpf_call list" where
  "detach err ifindex skb =
     (if err \<noteq> 0 then 1 else 0,
      [Bpf_xdp_detach ifindex skb]
      @ map (\<lambda>m. Unlink (PIN_DIR @ ''/'' @ m)) [''cpu_map'', ''cpus_available'', ''cpu_count'', ''stats'']
      @ [Rmdir PIN_DIR])"

section \<open>The loader\<close>

text \<open>The options as \<open>getopt\<close> returns them.\<close>

datatype loader_opt =
    Opt_i string | Opt_c string | Opt_q string | Opt_S | Opt_o string | Opt_d | Opt_s | Opt_w string | Opt_other

record loader_opts =
  lo_iface :: "string option"
  lo_cpulist :: "string option"
  lo_objpath :: "string option"
  lo_qsize :: u32
  lo_detach :: bool
  lo_stats :: bool
  lo_interval :: int
  lo_skb :: bool

definition loader_opts_default :: loader_opts where
  "loader_opts_default = \<lparr>lo_iface = None, lo_cpulist = None, lo_objpath = None, lo_qsize = 2048,
     lo_detach = False, lo_stats = False, lo_interval = 0, lo_skb = False\<rparr>"

text \<open>\<open>None\<close> is \<open>usage\<close>, which exits.\<close>

fun loader_getopt :: "loader_opts \<Rightarrow> loader_opt list \<Rightarrow> loader_opts option" where
  "loader_getopt o1 [] = Some o1"
| "loader_getopt o1 (Opt_i a # os) = loader_getopt (o1\<lparr>lo_iface := Some a\<rparr>) os"
| "loader_getopt o1 (Opt_c a # os) = loader_getopt (o1\<lparr>lo_cpulist := Some a\<rparr>) os"
| "loader_getopt o1 (Opt_q a # os) = loader_getopt (o1\<lparr>lo_qsize := of_int (atoi a)\<rparr>) os"
| "loader_getopt o1 (Opt_S # os) = loader_getopt (o1\<lparr>lo_skb := True\<rparr>) os"
| "loader_getopt o1 (Opt_o a # os) = loader_getopt (o1\<lparr>lo_objpath := Some a\<rparr>) os"
| "loader_getopt o1 (Opt_d # os) = loader_getopt (o1\<lparr>lo_detach := True\<rparr>) os"
| "loader_getopt o1 (Opt_s # os) = loader_getopt (o1\<lparr>lo_stats := True\<rparr>) os"
| "loader_getopt o1 (Opt_w a # os) = loader_getopt (o1\<lparr>lo_interval := atoi a\<rparr>) os"
| "loader_getopt o1 (Opt_other # os) = None"

record loader_env =
  le_stats_opened :: bool
  le_stats_rounds :: "nat \<Rightarrow> u64 list option list"
  le_if_nametoindex :: "string \<Rightarrow> u32"
  le_detach_err :: int
  le_num_possible_cpus :: int
  le_exe :: "string option"
  le_open :: "string \<Rightarrow> bool"
  le_load_err :: int
  le_found :: bool
  le_cpumap_update :: "(u32 \<rightharpoonup> u32) \<Rightarrow> u32 \<Rightarrow> u32 \<Rightarrow> int"
  le_pin_err :: int
  le_attach_err :: int

text \<open>\<open>(int) cpus[i] >= possible\<close>\<close>

definition cpu_missing :: "int \<Rightarrow> u32 \<Rightarrow> bool" where
  "cpu_missing possible cpu \<longleftrightarrow> possible \<le> sint cpu"

text \<open>The object next to the binary; \<open>readlink\<close> fills at most \<open>sizeof (objbuf) - 32\<close> bytes.\<close>

definition default_objpath :: "string \<Rightarrow> string" where
  "default_objpath exe =
     (let p = take (512 - 32) exe in
      (if CHR ''/'' \<in> set p then rev (dropWhile (\<lambda>c. c \<noteq> CHR ''/'') (rev p)) else [])
      @ ''l2tp_steer.bpf.o'')"

fun fill_maps ::
  "((u32 \<rightharpoonup> u32) \<Rightarrow> u32 \<Rightarrow> u32 \<Rightarrow> int) \<Rightarrow> u32 \<Rightarrow> nat \<Rightarrow> u32 list \<Rightarrow> xdp_maps \<Rightarrow> loader_error + xdp_maps" where
  "fill_maps update qsize i [] m = Inr m"
| "fill_maps update qsize i (key # cpus) m =
     (if update (cpu_map m) key qsize \<noteq> 0 then Inl (Cpumap_add_failed key)
      else fill_maps update qsize (Suc i) cpus
        (m\<lparr>cpu_map := (cpu_map m)(key \<mapsto> qsize), cpus_available := (cpus_available m)[i := key]\<rparr>))"

text \<open>From the point where the list of cores is known: open, load, fill, pin, attach.\<close>

definition loader_attach ::
  "loader_env \<Rightarrow> u32 \<Rightarrow> loader_opts \<Rightarrow> u32 list \<Rightarrow> (loader_error + xdp_maps) \<times> bpf_call list" where
  "loader_attach env ifindex opts cpus =
     (case (case lo_objpath opts of Some p \<Rightarrow> Some p | None \<Rightarrow> map_option default_objpath (le_exe env)) of
        None \<Rightarrow> (Inl Readlink_failed, [])
      | Some objpath \<Rightarrow>
          if \<not> le_open env objpath then (Inl (Open_failed objpath), [])
          else if le_load_err env \<noteq> 0 then (Inl (Load_failed (le_load_err env)), [])
          else if \<not> le_found env then (Inl Object_incomplete, [])
          else (case fill_maps (le_cpumap_update env) (lo_qsize opts) 0 cpus xdp_maps_init of
             Inl e \<Rightarrow> (Inl e, [])
           | Inr m \<Rightarrow>
               let m' = m\<lparr>cpu_count := (cpu_count m)[0 := of_nat (length cpus)]\<rparr>;
                   calls = [Mkdir ''/sys/fs/bpf'', Bpf_object_pin_maps PIN_DIR]
               in if le_pin_err env \<noteq> 0 then (Inl (Pin_failed (le_pin_err env)), calls)
                  else if le_attach_err env \<noteq> 0
                  then (Inl (Attach_failed (le_attach_err env)),
                        calls @ [Bpf_xdp_attach ifindex (lo_skb opts), Bpf_object_unpin_maps PIN_DIR])
                  else (Inr m', calls @ [Bpf_xdp_attach ifindex (lo_skb opts)])))"

datatype loader_outcome =
    Usage
  | Stats_shown "stat_line list list" int
  | Detached int
  | Failed loader_error
  | Attached xdp_maps "u32 list"

text \<open>The exit status is 1 after \<open>Usage\<close> and \<open>Failed\<close>, 0 after \<open>Attached\<close>; \<open>None\<close> is a loop
  that does not end.\<close>

definition loader_start ::
  "loader_env \<Rightarrow> u32 \<Rightarrow> loader_opts \<Rightarrow> string \<Rightarrow> (loader_outcome \<times> bpf_call list) option" where
  "loader_start env ifindex opts cpulist = do {
     r \<leftarrow> parse_cpulist cpulist MAX_CPUS;
     case r of
       Inl e \<Rightarrow> Some (Failed e, [])
     | Inr cpus \<Rightarrow>
         (case find (cpu_missing (le_num_possible_cpus env)) cpus of
            Some cpu \<Rightarrow> Some (Failed (Cpu_does_not_exist cpu), [])
          | None \<Rightarrow>
              (case loader_attach env ifindex opts cpus of
                 (Inl e, calls) \<Rightarrow> Some (Failed e, calls)
               | (Inr m, calls) \<Rightarrow> Some (Attached m cpus, calls))) }"

definition loader_main :: "loader_env \<Rightarrow> loader_opt list \<Rightarrow> (loader_outcome \<times> bpf_call list) option" where
  "loader_main env argv =
     (case loader_getopt loader_opts_default argv of
        None \<Rightarrow> Some (Usage, [])
      | Some opts \<Rightarrow>
          if lo_stats opts
          then map_option (\<lambda>(out, rv). (Stats_shown out rv, []))
            (show_stats (le_stats_opened env) (lo_interval opts) (le_stats_rounds env))
          else (case lo_iface opts of
             None \<Rightarrow> Some (Usage, [])
           | Some iface \<Rightarrow>
               let ifindex = le_if_nametoindex env iface in
               if ifindex = 0 then Some (Failed (Unknown_interface iface), [])
               else if lo_detach opts
               then (case detach (le_detach_err env) ifindex (lo_skb opts) of (rv, calls) \<Rightarrow> Some (Detached rv, calls))
               else (case lo_cpulist opts of
                  None \<Rightarrow> Some (Usage, [])
                | Some cpulist \<Rightarrow> loader_start env ifindex opts cpulist)))"

section \<open>Ranges\<close>

text \<open>The loop over a range ends: every turn adds an entry, and a full table ends it.\<close>

lemma cpu_range_ends:
  "\<exists>r. cpu_range c b lim cpus = Some r \<and>
     (case r of Inl e \<Rightarrow> e = Too_many_cpus | Inr cpus' \<Rightarrow> length cpus' \<le> max lim (length cpus))"
proof (induction "lim - length cpus" arbitrary: c cpus)
  case 0
  then show ?case by (subst cpu_range.simps) auto
next
  case (Suc k)
  then have "k = lim - length (cpus @ [c])" by simp
  from Suc.hyps(1) [OF this, of "c + 1"] Suc.hyps(2) show ?case
    by (subst cpu_range.simps) (auto split: sum.splits)
qed

lemma cpu_range_upto:
  assumes "b < 2 ^ 32 - 1"
  shows "a \<le> Suc b \<Longrightarrow> length cpus + (Suc b - a) \<le> lim \<Longrightarrow>
    cpu_range (of_nat a) (of_nat b) lim cpus = Some (Inr (cpus @ map of_nat [a..<Suc b]))"
proof (induction "Suc b - a" arbitrary: a cpus)
  case 0
  then have a: "a = Suc b" by simp
  have "\<not> (of_nat (Suc b) :: u32) \<le> of_nat b"
    using assms by (simp only: word_le_nat_alt unat_of_nat) simp
  then show ?case using a by (subst cpu_range.simps) simp
next
  case (Suc k)
  then have ab: "a \<le> b" by simp
  then have "(of_nat a :: u32) \<le> of_nat b"
    using assms by (simp only: word_le_nat_alt unat_of_nat) simp
  moreover have "cpu_range (of_nat (Suc a)) (of_nat b) lim (cpus @ [of_nat a]) =
      Some (Inr ((cpus @ [of_nat a]) @ map of_nat [Suc a..<Suc b]))"
    using Suc.hyps(2) Suc.prems ab by (intro Suc.hyps(1)) auto
  moreover have "\<not> lim \<le> length cpus" using Suc.prems(2) ab by simp
  moreover have "[a..<Suc b] = a # [Suc a..<Suc b]" using ab by (simp add: upt_conv_Cons del: upt_Suc)
  ultimately show ?case
    by (subst cpu_range.simps) (simp add: add.commute del: upt_Suc)
qed

text \<open>A range that ends at the largest number never reaches its end: it is refused.\<close>

lemma cpu_range_max: "cpu_range c (- 1) lim cpus = Some (Inl Too_many_cpus)"
proof (induction "lim - length cpus" arbitrary: c cpus)
  case 0
  then show ?case by (subst cpu_range.simps) simp
next
  case (Suc k)
  then have "k = lim - length (cpus @ [c])" by simp
  from Suc.hyps(1) [OF this, of "c + 1"] Suc.hyps(2) show ?case by (subst cpu_range.simps) simp
qed

lemma parse_cpu_items_end:
  "length cpus \<le> lim \<Longrightarrow> \<exists>r. parse_cpu_items toks lim cpus = Some r \<and>
     (case r of Inl e \<Rightarrow> e = Too_many_cpus \<or> (\<exists>tok \<in> set toks. e = Bad_cpu_list_item tok)
      | Inr cpus' \<Rightarrow> length cpus' \<le> lim)"
proof (induction toks arbitrary: cpus)
  case (Cons tok toks)
  show ?case
  proof (cases "case sscanf_u_u tok of Some ab \<Rightarrow> Some ab | None \<Rightarrow> map_option (\<lambda>a. (a, a)) (sscanf_u tok)")
    case (Some ab)
    obtain a b where ab: "ab = (a, b)" by (cases ab)
    obtain r where r: "cpu_range a b lim cpus = Some r"
      "case r of Inl e \<Rightarrow> e = Too_many_cpus | Inr cpus' \<Rightarrow> length cpus' \<le> max lim (length cpus)"
      using cpu_range_ends by blast
    show ?thesis
    proof (cases r)
      case (Inl e)
      then show ?thesis using Some ab r by simp
    next
      case (Inr cpus')
      then have "length cpus' \<le> lim" using r(2) Cons.prems by simp
      from Cons.IH [OF this] show ?thesis using Some ab r(1) Inr by (auto split: sum.splits)
    qed
  qed simp
qed simp

text \<open>Claim C32: (termination) reading the list of cores always ends: for every text the parser returns,
  with a table that has at most the given number of entries or with one of the two errors, although
  the loop of a range such as \<open>7-4294967295\<close> has a condition that is never false.\<close>

theorem parse_cpulist_returns:
  "(\<exists>r. parse_cpulist s lim = Some r \<and>
      (case r of Inl e \<Rightarrow> e = Too_many_cpus \<or> (\<exists>tok. e = Bad_cpu_list_item tok)
       | Inr cpus \<Rightarrow> length cpus \<le> lim))
   \<and> cpu_range a 0xFFFFFFFF lim cpus = Some (Inl Too_many_cpus)"
proof -
  have m: "(0xFFFFFFFF :: u32) = - 1" by simp
  obtain r where "parse_cpulist s lim = Some r"
    "case r of Inl e \<Rightarrow> e = Too_many_cpus \<or> (\<exists>tok \<in> set (strtok CHR '','' [] s). e = Bad_cpu_list_item tok)
      | Inr cpus \<Rightarrow> length cpus \<le> lim"
    using parse_cpu_items_end [of "[]" lim "strtok CHR '','' [] s"] unfolding parse_cpulist_def by auto
  then show ?thesis unfolding m cpu_range_max by (cases r) auto
qed

section \<open>Reading back a printed list\<close>

fun cpu_item :: "nat \<times> nat \<Rightarrow> string" where
  "cpu_item (a, b) = (if a = b then dec a else dec a @ CHR ''-'' # dec b)"

fun comma_list :: "string list \<Rightarrow> string" where
  "comma_list [] = []"
| "comma_list [x] = x"
| "comma_list (x # y # xs) = x @ CHR '','' # comma_list (y # xs)"

lemma is_digit_not: "is_digit c \<Longrightarrow> \<not> is_space c \<and> c \<noteq> CHR ''-'' \<and> c \<noteq> CHR ''+'' \<and> c \<noteq> CHR '',''"
  by (auto simp: is_digit_def is_space_def)

lemma scan_dec:
  assumes "rest = [] \<or> \<not> is_digit (hd rest)"
  shows "scan_number (dec n @ rest) = Some (False, n, rest)"
proof -
  obtain c cs where dec: "dec n = c # cs" using dec_simps(2) by (cases "dec n") auto
  have c: "is_digit c" using dec_simps(1) [of c n] dec by simp
  have "takeWhile is_digit (dec n @ rest) = dec n" "dropWhile is_digit (dec n @ rest) = rest"
    using assms dec_simps(1) [of _ n] by (cases rest; simp add: takeWhile_append2 dropWhile_append2)+
  moreover have "dropWhile is_space (dec n @ rest) = dec n @ rest"
    using is_digit_not [OF c] by (simp add: dec)
  ultimately show ?thesis
    using is_digit_not [OF c] by (simp add: scan_number_def dec_simps dec)
      (metis dec dec_simps(3))
qed

lemma to_unsigned_small: "n < 2 ^ 32 \<Longrightarrow> to_unsigned False n = of_nat n"
  by (simp add: to_unsigned_def)

lemma parse_item:
  assumes "a < 2 ^ 32" and "b < 2 ^ 32"
  shows "(case sscanf_u_u (cpu_item (a, b)) of Some ab \<Rightarrow> Some ab
      | None \<Rightarrow> map_option (\<lambda>a. (a, a)) (sscanf_u (cpu_item (a, b)))) = Some (of_nat a, of_nat b)"
proof -
  have "\<not> is_digit CHR ''-''" by (simp add: is_digit_def)
  then show ?thesis
    using assms scan_dec [of "[]" a] scan_dec [of "[]" b] scan_dec [of "CHR ''-'' # dec b" a]
    by (simp add: sscanf_u_u_def sscanf_u_def to_unsigned_small)
qed

lemma strtok_word: "sep \<notin> set x \<Longrightarrow> strtok sep tok (x @ rest) = strtok sep (tok @ x) rest"
  by (induction x arbitrary: tok) auto

lemma strtok_comma_list:
  "\<forall>x \<in> set xs. x \<noteq> [] \<and> CHR '','' \<notin> set x \<Longrightarrow> strtok CHR '','' [] (comma_list xs) = xs"
proof (induction xs rule: comma_list.induct)
  case (2 x)
  then show ?case using strtok_word [of "CHR '',''" x "[]" "[]"] by simp
next
  case (3 x y xs)
  then show ?case using strtok_word [of "CHR '',''" x "[]"] by simp
qed simp

lemma cpu_item_text: "cpu_item ab \<noteq> [] \<and> CHR '','' \<notin> set (cpu_item ab)"
proof (cases ab)
  case (Pair a b)
  have "CHR '','' \<notin> set (dec n)" for n
    using dec_simps(1) [of "CHR '',''" n] by (auto simp: is_digit_def)
  then show ?thesis using Pair dec_simps(2) by simp
qed

lemma parse_cpu_items_print:
  "\<forall>(a, b) \<in> set items. a \<le> b \<and> b < 2 ^ 32 - 1 \<Longrightarrow>
   length cpus + sum_list (map (\<lambda>(a, b). Suc b - a) items) \<le> lim \<Longrightarrow>
   parse_cpu_items (map cpu_item items) lim cpus =
     Some (Inr (cpus @ concat (map (\<lambda>(a, b). map of_nat [a..<Suc b]) items)))"
proof (induction items arbitrary: cpus)
  case (Cons ab items)
  obtain a b where ab: "ab = (a, b)" by (cases ab)
  have le: "a \<le> b" "b < 2 ^ 32 - 1" using Cons.prems(1) ab by auto
  then have "a < 2 ^ 32" "b < 2 ^ 32" by simp_all
  note p = parse_item [OF this]
  have r: "cpu_range (of_nat a) (of_nat b) lim cpus = Some (Inr (cpus @ map of_nat [a..<Suc b]))"
    using le Cons.prems(2) ab by (intro cpu_range_upto) auto
  have "parse_cpu_items (map cpu_item items) lim (cpus @ map of_nat [a..<Suc b]) =
      Some (Inr ((cpus @ map of_nat [a..<Suc b]) @ concat (map (\<lambda>(a, b). map of_nat [a..<Suc b]) items)))"
    using Cons.prems ab le(1) by (intro Cons.IH) auto
  then show ?case
    using p r by (simp add: ab del: cpu_item.simps upt_Suc)
qed simp

lemma parse_cpulist_print:
  assumes "\<forall>(a, b) \<in> set items. a \<le> b \<and> b < 2 ^ 32 - 1"
    and "sum_list (map (\<lambda>(a, b). Suc b - a) items) \<le> lim"
  shows "parse_cpulist (comma_list (map cpu_item items)) lim =
    Some (Inr (concat (map (\<lambda>(a, b). map of_nat [a..<Suc b]) items)))"
proof -
  have "strtok CHR '','' [] (comma_list (map cpu_item items)) = map cpu_item items"
    using cpu_item_text by (intro strtok_comma_list) auto
  then show ?thesis
    using parse_cpu_items_print [OF assms(1), of "[]" lim] assms(2) by (simp add: parse_cpulist_def)
qed

text \<open>Claim C24: (roundtrip) a printed list of cores is read back: for any list of ranges of cores below
  the largest number that fits the table, the text with the ranges separated by commas (a single core
  as one number) is parsed to exactly those cores, in order.\<close>

theorem cpulist_roundtrip:
  assumes "\<forall>(a, b) \<in> set items. a \<le> b \<and> b < 2 ^ 32 - 1"
    and "sum_list (map (\<lambda>(a, b). Suc b - a) items) \<le> lim"
  shows "parse_cpulist (comma_list (map cpu_item items)) lim =
    Some (Inr (concat (map (\<lambda>(a, b). map of_nat [a..<Suc b]) items)))"
  by (rule parse_cpulist_print [OF assms])

theorem cpulist_roundtrip_witness:
  "parse_cpulist ''1-3,5,8-9'' 256 = Some (Inr [1, 2, 3, 5, 8, 9])"
proof -
  have "comma_list (map cpu_item [(1, 3), (5, 5), (8, 9)]) = ''1-3,5,8-9''"
    by (simp add: dec.simps char_of_def bit_0)
  then show ?thesis
    using cpulist_roundtrip [of "[(1, 3), (5, 5), (8, 9)]" 256] by (simp add: upt_rec)
qed

section \<open>The loaded program\<close>

lemma fill_maps_result:
  "fill_maps update qsize i cpus m = Inr m' \<Longrightarrow> i + length cpus \<le> length (cpus_available m) \<Longrightarrow>
    dom (cpu_map m') = dom (cpu_map m) \<union> set cpus
    \<and> length (cpus_available m') = length (cpus_available m)
    \<and> take (i + length cpus) (cpus_available m') = take i (cpus_available m) @ cpus
    \<and> cpu_count m' = cpu_count m \<and> stats m' = stats m"
proof (induction cpus arbitrary: i m)
  case (Cons c cpus)
  define m1 where "m1 = m\<lparr>cpu_map := (cpu_map m)(c \<mapsto> qsize), cpus_available := (cpus_available m)[i := c]\<rparr>"
  have "fill_maps update qsize (Suc i) cpus m1 = Inr m'"
    using Cons.prems(1) by (simp add: m1_def split: if_splits)
  moreover have "Suc i + length cpus \<le> length (cpus_available m1)" using Cons.prems(2) by (simp add: m1_def)
  moreover have "take (Suc i) (cpus_available m1) = take i (cpus_available m) @ [c]"
    using Cons.prems(2) by (simp add: m1_def take_Suc_conv_app_nth)
  ultimately show ?case
    using Cons.IH [of "Suc i" m1] by (auto simp: m1_def)
qed simp

lemma parse_cpulist_length: "parse_cpulist s lim = Some (Inr cpus) \<Longrightarrow> length cpus \<le> lim"
  using parse_cpu_items_end [of "[]" lim "strtok CHR '','' [] s"] by (auto simp: parse_cpulist_def)

lemma loader_attach_Inr:
  assumes "loader_attach env ifindex opts cpus = (Inr m, calls)"
  obtains m0 where "fill_maps (le_cpumap_update env) (lo_qsize opts) 0 cpus xdp_maps_init = Inr m0"
    and "m = m0\<lparr>cpu_count := (cpu_count m0)[0 := of_nat (length cpus)]\<rparr>"
    and "le_attach_err env = 0"
    and "calls = [Mkdir ''/sys/fs/bpf'', Bpf_object_pin_maps PIN_DIR, Bpf_xdp_attach ifindex (lo_skb opts)]"
  using assms by (auto simp: loader_attach_def Let_def split: option.splits if_splits sum.splits)

lemma loader_attach_ready:
  assumes "loader_attach env ifindex opts cpus = (Inr m, calls)" and "length cpus \<le> MAX_CPUS" and "cpus \<noteq> []"
  shows "steer_ready m cpus"
proof -
  obtain m0 where "fill_maps (le_cpumap_update env) (lo_qsize opts) 0 cpus xdp_maps_init = Inr m0"
    and m: "m = m0\<lparr>cpu_count := (cpu_count m0)[0 := of_nat (length cpus)]\<rparr>"
    by (rule loader_attach_Inr [OF assms(1)])
  then show ?thesis
    using fill_maps_result [of "le_cpumap_update env" "lo_qsize opts" 0 cpus xdp_maps_init m0] assms(2,3)
    by (simp add: steer_ready_def xdp_maps_init_def)
qed

lemma loader_start_cases:
  obtains (failed) e where "loader_start env ifindex opts cpulist = Some (Failed e, [])"
  | (attach_failed) cpus e calls where "loader_start env ifindex opts cpulist = Some (Failed e, calls)"
      and "loader_attach env ifindex opts cpus = (Inl e, calls)"
  | (attached) cpus m calls where "loader_start env ifindex opts cpulist = Some (Attached m cpus, calls)"
      and "parse_cpulist cpulist MAX_CPUS = Some (Inr cpus)"
      and "find (cpu_missing (le_num_possible_cpus env)) cpus = None"
      and "loader_attach env ifindex opts cpus = (Inr m, calls)"
proof -
  obtain r where r: "parse_cpulist cpulist MAX_CPUS = Some r"
    using parse_cpu_items_end [of "[]" MAX_CPUS "strtok CHR '','' [] cpulist"]
    by (auto simp: parse_cpulist_def)
  show thesis
  proof (cases r)
    case (Inl e)
    then show thesis using r by (intro failed) (simp add: loader_start_def)
  next
    case (Inr cpus)
    obtain v calls where v: "loader_attach env ifindex opts cpus = (v, calls)" by (metis surj_pair)
    show thesis
    proof (cases "find (cpu_missing (le_num_possible_cpus env)) cpus")
      case None
      then show thesis
        using r Inr v attach_failed attached by (cases v) (simp_all add: loader_start_def)
    next
      case (Some cpu)
      then show thesis using r Inr by (intro failed) (simp add: loader_start_def)
    qed
  qed
qed

lemma loader_main_attached:
  assumes "loader_main env argv = Some (Attached m cpus, calls)"
  obtains opts iface cpulist where "loader_getopt loader_opts_default argv = Some opts"
    and "lo_iface opts = Some iface" and "lo_cpulist opts = Some cpulist"
    and "parse_cpulist cpulist MAX_CPUS = Some (Inr cpus)"
    and "find (cpu_missing (le_num_possible_cpus env)) cpus = None"
    and "loader_attach env (le_if_nametoindex env iface) opts cpus = (Inr m, calls)"
proof -
  obtain opts iface cpulist where o: "loader_getopt loader_opts_default argv = Some opts"
    "lo_iface opts = Some iface" "lo_cpulist opts = Some cpulist"
    and s: "loader_start env (le_if_nametoindex env iface) opts cpulist = Some (Attached m cpus, calls)"
    using assms by (auto simp: loader_main_def Let_def split: option.splits if_splits prod.splits)
  show thesis
    by (rule loader_start_cases [of env "le_if_nametoindex env iface" opts cpulist])
      (use o s that in auto)
qed

text \<open>Claim C20: (refinement) loader and program together spread sessions over the cores asked for: once
  the loader reports success for a list that names at least one core, every L2TPv2 data frame is
  redirected to a core of the parsed \<open>-c\<close> list, the one at the position of the session hash modulo the
  length of the list, which has a queue in the CPU map.\<close>

theorem loaded_program_steers:
  assumes "loader_main env argv = Some (Attached m cpus, calls)" and "cpus \<noteq> []"
    and "redirect_map_ok redirect" and "length addrs = 12" and "vlan_tags_ok tags" and "ip_carries_udp type ip"
  shows "\<exists>opts cpulist r cpu. loader_getopt loader_opts_default argv = Some opts \<and> lo_cpulist opts = Some cpulist
    \<and> parse_cpulist cpulist MAX_CPUS = Some (Inr cpus)
    \<and> l2tp_steer redirect m
        (eth_bytes addrs tags type @ ip @ udp_bytes sport len csum @ rfc_encode h @ payload) = Some r
    \<and> xr_action r = XDP_REDIRECT \<and> xr_cpu r = Some cpu \<and> cpu \<in> set cpus \<and> cpu \<in> dom (cpu_map m)
    \<and> cpu = cpus ! (unat (session_hash (rh_tid h) (rh_sid h)) mod length cpus)"
proof -
  obtain opts iface cpulist where o: "loader_getopt loader_opts_default argv = Some opts" "lo_cpulist opts = Some cpulist"
    and p: "parse_cpulist cpulist MAX_CPUS = Some (Inr cpus)"
    and a: "loader_attach env (le_if_nametoindex env iface) opts cpus = (Inr m, calls)"
    by (rule loader_main_attached [OF assms(1)])
  note ready = loader_attach_ready [OF a parse_cpulist_length [OF p] assms(2)]
  have "unat (session_hash (rh_tid h) (rh_sid h)) mod length cpus < length cpus" using assms(2) by simp
  then have mem: "cpus ! (unat (session_hash (rh_tid h) (rh_sid h)) mod length cpus) \<in> set cpus" by (rule nth_mem)
  moreover have "set cpus \<subseteq> dom (cpu_map m)" using ready by (simp add: steer_ready_def)
  ultimately show ?thesis
    using o p xdp_redirect_ready [OF ready assms(3)] xdp_parse_data [OF assms(4-6)]
    by (simp add: l2tp_steer_def steer_cpu_def subsetD)
qed

definition ex_loader_env :: loader_env where
  "ex_loader_env = \<lparr>le_stats_opened = True, le_stats_rounds = (\<lambda>k. []), le_if_nametoindex = (\<lambda>i. 3),
     le_detach_err = 0, le_num_possible_cpus = 8, le_exe = None, le_open = (\<lambda>p. True), le_load_err = 0,
     le_found = True, le_cpumap_update = (\<lambda>m k q. if unat k < 256 then 0 else - 7), le_pin_err = 0,
     le_attach_err = 0\<rparr>"

definition ex_loader_args :: "string \<Rightarrow> loader_opt list" where
  "ex_loader_args cpus = [Opt_i ''eth8'', Opt_c cpus, Opt_o ''l2tp_steer.bpf.o'']"

lemma ex_parse_2_3: "parse_cpulist ''2-3'' MAX_CPUS = Some (Inr [2, 3])"
proof -
  have "comma_list (map cpu_item [(2, 3)]) = ''2-3''"
    by (simp add: dec.simps char_of_def bit_0)
  then show ?thesis
    using parse_cpulist_print [of "[(2, 3)]" MAX_CPUS] by (simp add: upt_rec MAX_CPUS_def)
qed

lemma ex_loader_run:
  assumes "parse_cpulist cl MAX_CPUS = Some (Inr cpus)" and "find (cpu_missing 8) cpus = None"
    and "fill_maps (le_cpumap_update ex_loader_env) 2048 0 cpus xdp_maps_init = Inr m0"
  shows "loader_main ex_loader_env (ex_loader_args cl) =
    Some (Attached (m0\<lparr>cpu_count := (cpu_count m0)[0 := of_nat (length cpus)]\<rparr>) cpus,
      [Mkdir ''/sys/fs/bpf'', Bpf_object_pin_maps PIN_DIR, Bpf_xdp_attach 3 False])"
  using assms
  by (simp add: loader_main_def loader_start_def loader_attach_def ex_loader_args_def loader_opts_default_def
      ex_loader_env_def Let_def)

lemma ex_loader_2_3: "\<exists>m calls. loader_main ex_loader_env (ex_loader_args ''2-3'') = Some (Attached m [2, 3], calls)"
proof -
  have "find (cpu_missing 8) [2, 3] = None" by (simp add: cpu_missing_def)
  moreover have "\<exists>m0. fill_maps (le_cpumap_update ex_loader_env) 2048 0 [2, 3] xdp_maps_init = Inr m0"
    by (simp add: ex_loader_env_def)
  ultimately show ?thesis using ex_loader_run [OF ex_parse_2_3] by blast
qed

theorem loaded_program_steers_witness:
  "\<exists>m calls r cpu. loader_main ex_loader_env (ex_loader_args ''2-3'') = Some (Attached m [2, 3], calls)
    \<and> l2tp_steer ref_redirect m (eth_bytes (replicate 12 0) [] ETH_P_IP @ ex_ip_udp
        @ udp_bytes 1701 28 0 @ rfc_encode ex_rfc_hdr @ []) = Some r
    \<and> xr_cpu r = Some cpu \<and> cpu \<in> {2, 3}"
proof -
  obtain m calls where l: "loader_main ex_loader_env (ex_loader_args ''2-3'') = Some (Attached m [2, 3], calls)"
    using ex_loader_2_3 by blast
  have "[2, 3] \<noteq> ([] :: u32 list)" "length (replicate 12 0 :: bytes) = 12" "vlan_tags_ok []"
    by (simp_all add: vlan_tags_ok_def)
  moreover have "ip_carries_udp ETH_P_IP ex_ip_udp"
    by (simp add: ip_carries_udp_def ex_ip_udp_def be16_def xdp_consts)
  ultimately have "\<exists>r cpu. l2tp_steer ref_redirect m (eth_bytes (replicate 12 0) [] ETH_P_IP @ ex_ip_udp
        @ udp_bytes 1701 28 0 @ rfc_encode ex_rfc_hdr @ []) = Some r
      \<and> xr_cpu r = Some cpu \<and> cpu \<in> set [2, 3]"
    using loaded_program_steers [OF l _ ref_redirect_ok] by blast
  with l show ?thesis by auto
qed

section \<open>Failures\<close>

lemma loader_attach_failed:
  assumes "loader_attach env ifindex opts cpus = (Inl e, calls)"
  shows "(\<exists>err. e = Attach_failed err \<and> err \<noteq> 0
      \<and> calls = [Mkdir ''/sys/fs/bpf'', Bpf_object_pin_maps PIN_DIR, Bpf_xdp_attach ifindex (lo_skb opts),
                 Bpf_object_unpin_maps PIN_DIR])
    \<or> (\<forall>i skb. Bpf_xdp_attach i skb \<notin> set calls)
      \<and> (Bpf_object_pin_maps PIN_DIR \<in> set calls \<longrightarrow> e = Pin_failed (le_pin_err env) \<and> le_pin_err env \<noteq> 0)"
  using assms by (auto simp: loader_attach_def Let_def split: option.splits if_splits sum.splits)

text \<open>The counters: with an interval the loop ends only when a lookup fails.\<close>

lemma stats_rounds_returned:
  assumes "show_stats_rounds interval rounds prev k out = Some res"
  shows "interval \<noteq> 0 \<longrightarrow> (\<exists>j \<ge> k. None \<in> set (rounds j))"
proof (rule show_stats_rounds.raw_induct [OF _ assms], goal_cases)
  case (1 loop interval rounds prev k out res)
  show ?case
  proof (intro impI, cases "None \<in> set (rounds k)")
    case False
    assume i: "interval \<noteq> 0"
    with False 1(2) obtain cur out2 where "loop interval rounds cur (Suc k) out2 = Some res"
      by (auto simp: show_stats_round_def Let_def)
    from 1(1) [OF this] i show "\<exists>j \<ge> k. None \<in> set (rounds j)" by (auto dest: Suc_leD)
  qed auto
qed

lemma stats_rounds_return:
  assumes "None \<in> set (rounds (k + d))"
  shows "\<exists>out' rv. show_stats_rounds interval rounds prev k out = Some (out', rv)"
  using assms
proof (induction d arbitrary: k prev out)
  case 0
  then show ?case by (subst show_stats_rounds.simps) (simp add: show_stats_round_def)
next
  case (Suc d)
  have next_round: "\<exists>out' rv. show_stats_rounds interval rounds cur (Suc k) out2 = Some (out', rv)" for cur out2
    using Suc.prems by (intro Suc.IH) simp
  then show ?case
    by (subst show_stats_rounds.simps) (simp add: show_stats_round_def Let_def)
qed

lemma stats_rounds_once: "\<exists>out' rv. show_stats_rounds 0 rounds prev k out = Some (out', rv)"
  by (subst show_stats_rounds.simps) (auto split: option.split)

lemma show_stats_None_iff:
  "show_stats opened interval rounds = None \<longleftrightarrow> interval \<noteq> 0 \<and> opened \<and> (\<forall>k. None \<notin> set (rounds k))"
proof (cases "opened \<and> interval \<noteq> 0")
  case True
  let ?s = "show_stats_rounds interval rounds (replicate STAT_MAX 0) 0 []"
  have "(\<exists>k. None \<in> set (rounds k)) \<longleftrightarrow> ?s \<noteq> None"
  proof
    assume "\<exists>k. None \<in> set (rounds k)"
    then obtain k where "None \<in> set (rounds (0 + k))" by auto
    from stats_rounds_return [of rounds 0 k, OF this] show "?s \<noteq> None" by fastforce
  next
    assume "?s \<noteq> None"
    then obtain res where "?s = Some res" by auto
    from stats_rounds_returned [OF this] True show "\<exists>k. None \<in> set (rounds k)" by blast
  qed
  with True show ?thesis by (auto simp: show_stats_def)
next
  case False
  then show ?thesis using stats_rounds_once [of rounds "replicate STAT_MAX 0" 0 "[]"] by (auto simp: show_stats_def)
qed

text \<open>Claim C33: (error) what the loader leaves behind: it ends on every command line except one, the
  statistics with an interval (\<open>-s -w N\<close>), which runs until a lookup fails, and then only if the pinned
  map could be opened.  When it reports a failure it has either not asked for the program to be attached,
  and not asked for the maps to be pinned unless pinning is what failed, or the attach itself was
  refused and it asked for the maps to be unpinned afterwards; when it reports success the attach
  succeeded and was its last step.\<close>

theorem loader_failure_undone:
  "(loader_main env argv = None \<longleftrightarrow>
      (\<exists>opts. loader_getopt loader_opts_default argv = Some opts \<and> lo_stats opts \<and> lo_interval opts \<noteq> 0
         \<and> le_stats_opened env \<and> (\<forall>k. None \<notin> set (le_stats_rounds env k))))
   \<and> (\<forall>out calls. loader_main env argv = Some (out, calls) \<longrightarrow>
     (case out of
        Failed e \<Rightarrow>
          (\<exists>err i skb. e = Attach_failed err \<and> err \<noteq> 0 \<and> calls = [Mkdir ''/sys/fs/bpf'',
             Bpf_object_pin_maps PIN_DIR, Bpf_xdp_attach i skb, Bpf_object_unpin_maps PIN_DIR])
          \<or> (\<forall>i skb. Bpf_xdp_attach i skb \<notin> set calls)
            \<and> (Bpf_object_pin_maps PIN_DIR \<in> set calls \<longrightarrow> e = Pin_failed (le_pin_err env) \<and> le_pin_err env \<noteq> 0)
      | Attached m cpus \<Rightarrow> le_attach_err env = 0 \<and> (\<exists>i skb. last calls = Bpf_xdp_attach i skb)
      | Detached rv \<Rightarrow> rv = (if le_detach_err env = 0 then 0 else 1)
      | _ \<Rightarrow> calls = []))"
proof (cases "loader_getopt loader_opts_default argv")
  case None
  then show ?thesis by (simp add: loader_main_def)
next
  case (Some opts)
  note opts = Some
  consider "lo_stats opts" | "\<not> lo_stats opts" "lo_iface opts = None"
    | iface where "\<not> lo_stats opts" "lo_iface opts = Some iface" by fastforce
  then show ?thesis
  proof cases
    case 1
    then show ?thesis using opts show_stats_None_iff [of "le_stats_opened env" "lo_interval opts" "le_stats_rounds env"]
      by (auto simp: loader_main_def)
  next
    case 2
    then show ?thesis using opts by (simp add: loader_main_def)
  next
    case (3 iface)
    let ?i = "le_if_nametoindex env iface"
    consider "?i = 0" | "?i \<noteq> 0" "lo_detach opts" | "?i \<noteq> 0" "\<not> lo_detach opts" "lo_cpulist opts = None"
      | cl where "?i \<noteq> 0" "\<not> lo_detach opts" "lo_cpulist opts = Some cl" by fastforce
    then show ?thesis
    proof cases
      case (4 cl)
      then have m: "loader_main env argv = loader_start env ?i opts cl"
        using opts 3 by (simp add: loader_main_def)
      show ?thesis
      proof (cases rule: loader_start_cases [of env ?i opts cl])
        case (attach_failed cpus e calls)
        with loader_attach_failed [OF attach_failed(2)] opts 3(1) show ?thesis by (auto simp: m)
      next
        case (attached cpus m' calls)
        from attached(4) show ?thesis by (rule loader_attach_Inr) (use attached(1) m opts 3(1) in simp)
      qed (use opts 3(1) in \<open>simp_all add: m\<close>)
    qed (use opts 3 in \<open>simp_all add: loader_main_def detach_def\<close>)
  qed
qed

theorem loader_failure_undone_witness:
  "(\<exists>calls. loader_main (ex_loader_env\<lparr>le_attach_err := - 16\<rparr>) (ex_loader_args ''2-3'') =
      Some (Failed (Attach_failed (- 16)), calls) \<and> last calls = Bpf_object_unpin_maps PIN_DIR)
   \<and> loader_main ex_loader_env [Opt_s, Opt_w ''1''] = None"
proof -
  let ?env = "ex_loader_env\<lparr>le_attach_err := - 16\<rparr>"
  obtain m0 where "fill_maps (le_cpumap_update ?env) 2048 0 [2, 3] xdp_maps_init = Inr m0"
    by (simp add: ex_loader_env_def)
  then obtain calls where run: "loader_main ?env (ex_loader_args ''2-3'') = Some (Failed (Attach_failed (- 16)), calls)"
      "Bpf_object_pin_maps PIN_DIR \<in> set calls"
    using ex_parse_2_3
    by (simp add: loader_main_def loader_start_def loader_attach_def ex_loader_args_def loader_opts_default_def
        ex_loader_env_def Let_def cpu_missing_def)
  have "atoi ''1'' = 1" by code_simp
  then have "loader_main ex_loader_env [Opt_s, Opt_w ''1''] = None"
    using loader_failure_undone [of ex_loader_env "[Opt_s, Opt_w ''1'']"] by (simp add: ex_loader_env_def loader_opts_default_def)
  with run loader_failure_undone [of ?env "ex_loader_args ''2-3''"] show ?thesis by auto
qed

text \<open>A list that names no core, such as a range written backwards, is accepted: the program is attached
  with zero cores and passes every data frame on the core it arrived on.\<close>

lemma backward_range_attaches:
  "\<exists>m calls. loader_main ex_loader_env (ex_loader_args ''5-3'') = Some (Attached m [], calls)
    \<and> (\<forall>tid sid. xdp_redirect redirect m tid sid = xdp_pass m STAT_REDIRECT_FAIL)"
proof -
  have "\<not> is_digit CHR ''-''" by (simp add: is_digit_def)
  then have "sscanf_u_u ''5-3'' = Some (5, 3)"
    by (simp add: sscanf_u_u_def sscanf_u_def scan_number_def is_space_def is_digit_def digits_value_def
        digit_value_def to_unsigned_def)
  then have "parse_cpulist ''5-3'' MAX_CPUS = Some (Inr [])"
    by (simp add: parse_cpulist_def) (subst cpu_range.simps, simp)
  from ex_loader_run [OF this] show ?thesis
    by (simp add: xdp_maps_init_def xdp_redirect_def array_lookup_def)
qed

end
