(* ===== verification/Xdp_Stats.thy ===== *)
theory Xdp_Stats
  imports Xdp_Loader
begin

text \<open>
  The counters end to end: every core runs the program on the frames it receives and counts in its own
  slot of the \<open>stats\<close> map, and \<open>l2tp_steer -s\<close> prints the sums over the cores.  What is printed is the
  number of frames of each kind.
\<close>

section \<open>What a frame is counted as\<close>

definition frame_stat :: "redirect_map \<Rightarrow> xdp_maps \<Rightarrow> bytes \<Rightarrow> stat_idx" where
  "frame_stat redirect m bs =
     (case xdp_parse bs of
        Some (Inl s) \<Rightarrow> s
      | _ \<Rightarrow> if fst (xdp_target redirect m bs) = XDP_REDIRECT then STAT_REDIRECT else STAT_REDIRECT_FAIL)"

lemma xdp_redirect_counts:
  "xr_maps (xdp_redirect redirect m tid sid) = xdp_count m
     (if xr_action (xdp_redirect redirect m tid sid) = XDP_REDIRECT then STAT_REDIRECT else STAT_REDIRECT_FAIL)"
proof -
  let ?cpu = "\<lambda>n. array_lookup (cpus_available m) (xdp_hash (ucast tid) (ucast sid) mod n)"
  show ?thesis
    by (cases "array_lookup (cpu_count m) 0"; cases "?cpu (the (array_lookup (cpu_count m) 0))")
      (auto simp: xdp_redirect_def)
qed

lemma steer_counts:
  assumes "l2tp_steer redirect m bs = Some r"
  shows "xr_maps r = xdp_count m (frame_stat redirect m bs)"
proof (cases "xdp_parse bs")
  case (Some v)
  show ?thesis
  proof (cases v)
    case (Inl s)
    with Some assms show ?thesis by (auto simp: l2tp_steer_def frame_stat_def)
  next
    case (Inr ids)
    with Some assms show ?thesis
      by (cases ids) (auto simp: l2tp_steer_def frame_stat_def xdp_target_def xdp_session_def Let_def
          xdp_redirect_counts)
  qed
qed (use assms in \<open>simp add: l2tp_steer_def\<close>)

lemma frame_stat_cong:
  "frame_stat redirect (xdp_count m i) bs = frame_stat redirect m bs"
  by (simp add: frame_stat_def xdp_target_cong [of "xdp_count m i" m])

abbreviation frames_counted :: "redirect_map \<Rightarrow> xdp_maps \<Rightarrow> stat_idx \<Rightarrow> bytes list \<Rightarrow> nat" where
  "frames_counted redirect m i fs \<equiv> length (filter (\<lambda>f. frame_stat redirect m f = i) fs)"

lemma xdp_count_nth:
  assumes "length (stats m) = STAT_MAX"
  shows "stats (xdp_count m j) ! stat_index i = stats m ! stat_index i + of_bool (j = i)"
  using assms by (cases i; cases j) (simp_all add: xdp_count_def STAT_MAX_def)

lemma steer_run_counts:
  assumes "length (stats m) = STAT_MAX" and "steer_run redirect m fs = Some (rs, m')"
  shows "length (stats m') = STAT_MAX
    \<and> stats m' ! stat_index i = stats m ! stat_index i + of_nat (frames_counted redirect m i fs)"
  using assms
proof (induction fs arbitrary: m rs)
  case (Cons f fs)
  from Cons.prems(2) obtain r rs' where r: "l2tp_steer redirect m f = Some r"
    and rs': "steer_run redirect (xr_maps r) fs = Some (rs', m')"
    by (auto simp: bind_eq_Some_conv)
  note maps = steer_counts [OF r]
  have len: "length (stats (xr_maps r)) = STAT_MAX" using Cons.prems(1) by (simp add: maps)
  from Cons.IH [OF len rs'] show ?case
    by (simp add: maps frame_stat_cong xdp_count_nth [OF Cons.prems(1)] add.assoc)
qed simp

section \<open>What is printed\<close>

text \<open>What looking up each counter gives: its value on every core.\<close>

definition stat_vals :: "xdp_maps list \<Rightarrow> u64 list option list" where
  "stat_vals ms = map (\<lambda>k. Some (map (\<lambda>m. stats m ! k) ms)) [0..<STAT_MAX]"

definition stat_order :: "stat_idx list" where
  "stat_order = [STAT_PASS_OTHER, STAT_PASS_CTRL, STAT_REDIRECT, STAT_REDIRECT_FAIL]"

lemma stat_vals_order: "stat_vals ms = map (\<lambda>i. Some (map (\<lambda>m. stats m ! stat_index i) ms)) stat_order"
  by (simp add: stat_vals_def stat_order_def STAT_MAX_def upt_rec numeral_3_eq_3 numeral_2_eq_2)

lemma sum_counts:
  assumes "list_all2 (\<lambda>fs m'. \<exists>rs. steer_run redirect m fs = Some (rs, m')) frames ms" and "stats m = replicate STAT_MAX 0"
  shows "sum_list (map (\<lambda>m'. stats m' ! stat_index i) ms) = of_nat (frames_counted redirect m i (concat frames))"
  using assms(1)
proof (induction rule: list_all2_induct)
  case (Cons fs frames m' ms)
  have "stats m ! stat_index i = 0" by (cases i) (simp_all add: assms(2) STAT_MAX_def)
  with Cons steer_run_counts [of m redirect fs _ m' i] show ?case by (auto simp: assms(2))
qed simp

lemma attached_counters_zero:
  assumes "loader_main env argv = Some (Attached m cpus, calls)"
  shows "stats m = replicate STAT_MAX 0"
proof -
  obtain opts iface cpulist where p: "parse_cpulist cpulist MAX_CPUS = Some (Inr cpus)"
    and a: "loader_attach env (le_if_nametoindex env iface) opts cpus = (Inr m, calls)"
    by (rule loader_main_attached [OF assms])
  obtain m0 where "fill_maps (le_cpumap_update env) (lo_qsize opts) 0 cpus xdp_maps_init = Inr m0"
    and "m = m0\<lparr>cpu_count := (cpu_count m0)[0 := of_nat (length cpus)]\<rparr>"
    by (rule loader_attach_Inr [OF a])
  then show ?thesis
    using fill_maps_result [of "le_cpumap_update env" "lo_qsize opts" 0 cpus xdp_maps_init m0] parse_cpulist_length [OF p]
    by (simp add: xdp_maps_init_def)
qed

text \<open>Claim C34: (functional) the operator sees what happened: after the loader has attached the program and
  each core has run it on the frames it received, \<open>l2tp_steer -s\<close> prints the four counters by name and
  ends, and the number it prints for each is the number of frames, over all cores, that were passed as
  other traffic, passed as control messages, redirected, or failed to be redirected (in the 64-bit
  arithmetic of the map); every frame is of exactly one kind, so the numbers add up to the frames
  received.\<close>

theorem shown_counters_exact:
  assumes "loader_main env argv = Some (Attached m cpus, calls)"
    and "list_all2 (\<lambda>fs m'. \<exists>rs. steer_run redirect m fs = Some (rs, m')) frames ms"
    and "le_stats_opened env'" and "le_stats_rounds env' 0 = stat_vals ms"
  shows "\<exists>lines. loader_main env' [Opt_s] = Some (Stats_shown [lines] 0, [])
    \<and> lines = map2 (\<lambda>name i. (name, of_nat (length (filter (\<lambda>f. frame_stat redirect m f = i) (concat frames))), None))
        [''pass_other'', ''pass_ctrl'', ''redirect'', ''redirect_fail'']
        [STAT_PASS_OTHER, STAT_PASS_CTRL, STAT_REDIRECT, STAT_REDIRECT_FAIL]
    \<and> sum_list (map (\<lambda>(name, total, rate). total) lines) = of_nat (length (concat frames))"
proof -
  note z = attached_counters_zero [OF assms(1)]
  have total: "(\<Sum>i \<leftarrow> stat_order. frames_counted redirect m i fs) = length fs" for fs
  proof (induction fs)
    case (Cons f fs)
    then show ?case by (cases "frame_stat redirect m f") (simp_all add: stat_order_def)
  qed (simp add: stat_order_def)
  have "show_stats True 0 (le_stats_rounds env') = Some ([map2 (\<lambda>name i. (name, of_nat (frames_counted redirect m i (concat frames)), None))
      stat_names stat_order], 0)"
    by (simp add: show_stats_def show_stats_rounds.simps assms(4) show_stats_round_def stat_vals_order stat_order_def sum_counts [OF assms(2) z]
        stat_names_def STAT_MAX_def eval_nat_numeral comp_def del: map_map stat_index.simps)
  moreover have "loader_getopt loader_opts_default [Opt_s] = Some (loader_opts_default\<lparr>lo_stats := True\<rparr>)" by simp
  moreover have "lo_interval loader_opts_default = 0" by (simp add: loader_opts_default_def)
  ultimately show ?thesis
    using assms(3,4) total [of "concat frames", symmetric]
    by (simp add: loader_main_def stat_order_def stat_names_def)
qed

theorem shown_counters_exact_witness:
  "\<exists>m calls ms lines. loader_main ex_loader_env (ex_loader_args ''2-3'') = Some (Attached m [2, 3], calls)
    \<and> loader_main (ex_loader_env\<lparr>le_stats_rounds := (\<lambda>k. stat_vals ms)\<rparr>) [Opt_s] = Some (Stats_shown [lines] 0, [])
    \<and> sum_list (map (\<lambda>(name, total, rate). total) lines) = 3"
proof -
  obtain m calls where l: "loader_main ex_loader_env (ex_loader_args ''2-3'') = Some (Attached m [2, 3], calls)"
    using ex_loader_2_3 by blast
  obtain r1 m1 where r1: "steer_run ref_redirect m [[], [0]] = Some (r1, m1)" using steer_run_targets by blast
  obtain r2 m2 where r2: "steer_run ref_redirect m [[1]] = Some (r2, m2)" using steer_run_targets by blast
  have runs: "list_all2 (\<lambda>fs m'. \<exists>rs. steer_run ref_redirect m fs = Some (rs, m')) [[[], [0]], [[1]]] [m1, m2]"
    unfolding list.rel_inject using r1 r2 by blast
  let ?env = "ex_loader_env\<lparr>le_stats_rounds := (\<lambda>k. stat_vals [m1, m2])\<rparr>"
  have "le_stats_opened ?env" "le_stats_rounds ?env 0 = stat_vals [m1, m2]" by (simp_all add: ex_loader_env_def)
  from shown_counters_exact [OF l runs this] obtain lines where
    "loader_main ?env [Opt_s] = Some (Stats_shown [lines] 0, [])"
    "sum_list (map (\<lambda>(name, total, rate). total) lines) = of_nat (length (concat [[[], [0 :: u8]], [[1]]]))" by blast
  with l show ?thesis
    by (intro exI [of _ m] exI [of _ calls] exI [of _ "[m1, m2]"] exI [of _ lines]) simp
qed

end
