(* ===== verification/Control_Spec.thy ===== *)
theory Control_Spec
  imports Objects_Properties
begin

text \<open>
  An abstract specification of the control plane and the proof that the plugin implements it.  The
  specification knows two finite maps: tunnels by index, and sessions by (local tunnel id, local
  session id).  It has no pools, hash table, interface vector or session counters.  The operations of
  the plugin, run from start-up in any order, return exactly what the specification returns and leave a
  state whose abstraction is the specification's state.

  The locale \<open>forward_sim\<close> is the interface between the two levels: one commuting square per
  operation, under an invariant, gives agreement over whole runs.
\<close>

section \<open>Forward simulation\<close>

fun op_run :: "('c \<Rightarrow> 'o \<Rightarrow> ('r \<times> 'c) option) \<Rightarrow> 'c \<Rightarrow> 'o list \<Rightarrow> ('r list \<times> 'c) option" where
  "op_run step c [] = Some ([], c)"
| "op_run step c (x # xs) = do {
     (r, c1) \<leftarrow> step c x;
     (rs, c2) \<leftarrow> op_run step c1 xs;
     Some (r # rs, c2) }"

fun spec_run :: "('a \<Rightarrow> 'o \<Rightarrow> 'r \<times> 'a) \<Rightarrow> 'a \<Rightarrow> 'o list \<Rightarrow> 'r list \<times> 'a" where
  "spec_run step a [] = ([], a)"
| "spec_run step a (x # xs) =
     (let (r, a1) = step a x; (rs, a2) = spec_run step a1 xs in (r # rs, a2))"

text \<open>What the environment has to respect along a run.\<close>

fun env_run :: "('c \<Rightarrow> 'o \<Rightarrow> bool) \<Rightarrow> ('c \<Rightarrow> 'o \<Rightarrow> ('r \<times> 'c) option) \<Rightarrow> 'c \<Rightarrow> 'o list \<Rightarrow> bool" where
  "env_run env step c [] = True"
| "env_run env step c (x # xs) =
     (env c x \<and> (case step c x of None \<Rightarrow> True | Some (r, c1) \<Rightarrow> env_run env step c1 xs))"

locale forward_sim =
  fixes abs :: "'c \<Rightarrow> 'a"
    and inv :: "'c \<Rightarrow> bool"
    and env :: "'c \<Rightarrow> 'o \<Rightarrow> bool"
    and cstep :: "'c \<Rightarrow> 'o \<Rightarrow> ('r \<times> 'c) option"
    and astep :: "'a \<Rightarrow> 'o \<Rightarrow> 'r \<times> 'a"
  assumes square: "inv c \<Longrightarrow> env c x \<Longrightarrow>
    \<exists>r c'. cstep c x = Some (r, c') \<and> astep (abs c) x = (r, abs c') \<and> inv c'"
begin

lemma run_square:
  "inv c \<Longrightarrow> env_run env cstep c xs \<Longrightarrow>
    \<exists>rs c'. op_run cstep c xs = Some (rs, c') \<and> spec_run astep (abs c) xs = (rs, abs c') \<and> inv c'"
proof (induction xs arbitrary: c)
  case (Cons x xs)
  then obtain r c1 where s: "cstep c x = Some (r, c1)" "astep (abs c) x = (r, abs c1)" "inv c1"
    using square [of c x] by auto
  moreover have "env_run env cstep c1 xs" using Cons.prems(2) s(1) by simp
  ultimately show ?case using Cons.IH [of c1] by auto
qed simp

end

section \<open>The specification\<close>

record tunnel_spec =
  tn_local_ip :: ip46_address
  tn_peer_ip :: ip46_address
  tn_local_port :: u16
  tn_peer_port :: u16
  tn_local_tid :: u16
  tn_peer_tid :: u16

record session_spec =
  sn_tunnel :: u32
  sn_peer_sid :: u16
  sn_acfc :: u8
  sn_pfc :: u8
  sn_sw_if_index :: u32

record lns =
  lns_tunnels :: "u32 \<rightharpoonup> tunnel_spec"
  lns_sessions :: "u16 \<times> u16 \<rightharpoonup> session_spec"

text \<open>The requests; the indices VPP hands out (pool slot, interface) are part of them.\<close>

datatype ctl_op =
    Tunnel_add u32 ip46_address ip46_address u16 u16 u16 u16
  | Tunnel_del ip46_address ip46_address u16 u16 u16 u16
  | Session_add u32 u32 u32 u32 u16 u16 u8 u8
  | Session_del u32 u16
  | Route u32 u32 fib_prefix u32 bool
  | Handoff u8

definition tn_matches :: "ip46_address \<Rightarrow> u16 \<Rightarrow> u16 \<Rightarrow> tunnel_spec \<Rightarrow> bool" where
  "tn_matches pip pp tid t \<longleftrightarrow> tn_local_tid t = tid \<and> tn_peer_port t = pp \<and> tn_peer_ip t = pip"

definition lns_has_tunnel :: "lns \<Rightarrow> ip46_address \<Rightarrow> u16 \<Rightarrow> u16 \<Rightarrow> bool" where
  "lns_has_tunnel st pip pp tid \<longleftrightarrow> (\<exists>i t. lns_tunnels st i = Some t \<and> tn_matches pip pp tid t)"

definition lns_tunnel_in_use :: "lns \<Rightarrow> ip46_address \<Rightarrow> u16 \<Rightarrow> u16 \<Rightarrow> bool" where
  "lns_tunnel_in_use st pip pp tid \<longleftrightarrow> (\<exists>k s t. lns_sessions st k = Some s
     \<and> lns_tunnels st (sn_tunnel s) = Some t \<and> tn_matches pip pp tid t)"

fun lns_step :: "lns \<Rightarrow> ctl_op \<Rightarrow> api_rv \<times> lns" where
  "lns_step st (Tunnel_add i lip pip lp pp tid ptid) =
     (if \<not> ip46_address_is_ip4 lip \<or> \<not> ip46_address_is_ip4 pip then (VNET_API_ERROR_UNIMPLEMENTED, st)
      else if lns_has_tunnel st pip pp tid then (VNET_API_ERROR_TUNNEL_EXIST, st)
      else (RV_OK, st\<lparr>lns_tunnels := (lns_tunnels st)(i \<mapsto>
        \<lparr>tn_local_ip = lip, tn_peer_ip = pip, tn_local_port = lp, tn_peer_port = pp, tn_local_tid = tid,
         tn_peer_tid = ptid\<rparr>)\<rparr>))"
| "lns_step st (Tunnel_del lip pip lp pp tid ptid) =
     (if \<not> ip46_address_is_ip4 lip \<or> \<not> ip46_address_is_ip4 pip then (VNET_API_ERROR_UNIMPLEMENTED, st)
      else if \<not> lns_has_tunnel st pip pp tid then (VNET_API_ERROR_NO_SUCH_ENTRY, st)
      else if lns_tunnel_in_use st pip pp tid then (VNET_API_ERROR_INSTANCE_IN_USE, st)
      else (RV_OK, st\<lparr>lns_tunnels := (\<lambda>i. case lns_tunnels st i of None \<Rightarrow> None
        | Some t \<Rightarrow> if tn_matches pip pp tid t then None else Some t)\<rparr>))"
| "lns_step st (Session_add slot hw sw ti sid psid acfc pfc) =
     (case lns_tunnels st ti of
        None \<Rightarrow> (VNET_API_ERROR_NO_SUCH_ENTRY, st)
      | Some t \<Rightarrow>
          if (tn_local_tid t, sid) \<in> dom (lns_sessions st) then (VNET_API_ERROR_ENTRY_ALREADY_EXISTS, st)
          else (RV_OK, st\<lparr>lns_sessions := (lns_sessions st)((tn_local_tid t, sid) \<mapsto>
            \<lparr>sn_tunnel = ti, sn_peer_sid = psid, sn_acfc = acfc, sn_pfc = pfc, sn_sw_if_index = sw\<rparr>)\<rparr>))"
| "lns_step st (Session_del ti sid) =
     (case lns_tunnels st ti of
        None \<Rightarrow> (VNET_API_ERROR_NO_SUCH_ENTRY, st)
      | Some t \<Rightarrow>
          if (tn_local_tid t, sid) \<notin> dom (lns_sessions st) then (VNET_API_ERROR_NO_SUCH_ENTRY, st)
          else (RV_OK, st\<lparr>lns_sessions := (lns_sessions st)((tn_local_tid t, sid) := None)\<rparr>))"
| "lns_step st (Route fi ai pfx sw is_add) =
     (if \<exists>k s. lns_sessions st k = Some s \<and> sn_sw_if_index s = sw then (RV_OK, st)
      else (VNET_API_ERROR_INVALID_SW_IF_INDEX, st))"
| "lns_step st (Handoff e) = (RV_OK, st)"

definition lns_empty :: lns where
  "lns_empty = \<lparr>lns_tunnels = Map.empty, lns_sessions = Map.empty\<rparr>"

section \<open>The plugin\<close>

fun ctl_step :: "'h bihash_8_8 \<Rightarrow> 'h l2tvpp_main \<Rightarrow> ctl_op \<Rightarrow> (api_rv \<times> 'h l2tvpp_main) option" where
  "ctl_step bh lm (Tunnel_add slot lip pip lp pp tid ptid) =
     (case l2tvpp_tunnel_add_del slot lm lip pip lp pp tid ptid True of (rv, lm', out) \<Rightarrow> Some (rv, lm'))"
| "ctl_step bh lm (Tunnel_del lip pip lp pp tid ptid) =
     (case l2tvpp_tunnel_add_del 0 lm lip pip lp pp tid ptid False of (rv, lm', out) \<Rightarrow> Some (rv, lm'))"
| "ctl_step bh lm (Session_add slot hw sw ti sid psid acfc pfc) =
     map_option (\<lambda>(rv, lm', out, calls). (rv, lm'))
       (l2tvpp_session_add_del bh slot hw sw lm ti sid psid acfc pfc True)"
| "ctl_step bh lm (Session_del ti sid) =
     map_option (\<lambda>(rv, lm', out, calls). (rv, lm')) (l2tvpp_session_add_del bh 0 0 0 lm ti sid 0 0 0 False)"
| "ctl_step bh lm (Route fi ai pfx sw is_add) =
     (case l2tvpp_route_add_del bh fi ai lm pfx sw is_add of (rv, lm', calls) \<Rightarrow> Some (rv, lm'))"
| "ctl_step bh lm (Handoff e) = (case l2tvpp_set_handoff lm e of (rv, lm', calls) \<Rightarrow> Some (rv, lm'))"

text \<open>VPP hands out free slots and unused interfaces; the LNS does not give one local tunnel id to two
  peers. A tunnel may be added again: the specification and the code both refuse it.\<close>

fun ctl_env :: "'h l2tvpp_main \<Rightarrow> ctl_op \<Rightarrow> bool" where
  "ctl_env lm (Tunnel_add slot lip pip lp pp tid ptid) = (pool_is_free_index (tunnels lm) slot \<and> tid_not_shared lm pip pp tid)"
| "ctl_env lm (Session_add slot hw sw ti sid psid acfc pfc) =
     (pool_is_free_index (sessions lm) slot \<and> slot \<noteq> - 1 \<and> session_of_sw_if_index lm sw = None)"
| "ctl_env lm _ = True"

section \<open>The abstraction\<close>

definition tunnel_abs :: "l2tvpp_tunnel \<Rightarrow> tunnel_spec" where
  "tunnel_abs t = \<lparr>tn_local_ip = t_local_ip t, tn_peer_ip = t_peer_ip t, tn_local_port = t_local_port t,
     tn_peer_port = t_peer_port t, tn_local_tid = t_local_tid t, tn_peer_tid = t_peer_tid t\<rparr>"

definition session_abs :: "l2tvpp_session \<Rightarrow> session_spec" where
  "session_abs s = \<lparr>sn_tunnel = s_tunnel_index s, sn_peer_sid = s_peer_sid s, sn_acfc = s_acfc s,
     sn_pfc = s_pfc s, sn_sw_if_index = s_sw_if_index s\<rparr>"

text \<open>A session is what the decap lookup finds for its ids.\<close>

definition lns_abs :: "'h bihash_8_8 \<Rightarrow> 'h l2tvpp_main \<Rightarrow> lns" where
  "lns_abs bh lm =
     \<lparr>lns_tunnels = (\<lambda>i. map_option tunnel_abs (pool_elt (tunnels lm) i)),
      lns_sessions = (\<lambda>(tid, sid). do {
        v \<leftarrow> bh_search bh (session_by_key lm) (l2tvpp_session_key tid sid);
        map_option session_abs (pool_elt (sessions lm) (ucast v)) })\<rparr>"

lemma abs_sel [simp]:
  "lns_tunnels (lns_abs bh lm) i = map_option tunnel_abs (pool_elt (tunnels lm) i)"
  "lns_sessions (lns_abs bh lm) (tid, sid) = do {
     v \<leftarrow> bh_search bh (session_by_key lm) (l2tvpp_session_key tid sid);
     map_option session_abs (pool_elt (sessions lm) (ucast v)) }"
  by (simp_all add: lns_abs_def)

lemma lns_eqI:
  fixes a b :: lns
  assumes "\<And>i. lns_tunnels a i = lns_tunnels b i" and "\<And>tid sid. lns_sessions a (tid, sid) = lns_sessions b (tid, sid)"
  shows "a = b"
proof -
  have "lns_tunnels a = lns_tunnels b" "lns_sessions a = lns_sessions b"
    using assms by (auto simp: fun_eq_iff)
  then show ?thesis by simp
qed

lemma tn_matches_abs [simp]: "tn_matches pip pp tid (tunnel_abs t) = tunnel_matches pip pp tid t"
  by (simp add: tn_matches_def tunnel_abs_def tunnel_matches_def)

lemma tunnel_abs_sel [simp]: "tn_local_tid (tunnel_abs t) = t_local_tid t"
  "tunnel_abs (t\<lparr>t_n_sessions := n\<rparr>) = tunnel_abs t"
  by (simp_all add: tunnel_abs_def)

lemma session_abs_sel [simp]: "sn_tunnel (session_abs s) = s_tunnel_index s"
  "sn_sw_if_index (session_abs s) = s_sw_if_index s"
  by (simp_all add: session_abs_def)

lemma abs_session_iff:
  assumes "objects_inv bh lm"
  shows "(\<exists>k x. lns_sessions (lns_abs bh lm) k = Some x \<and> P x) \<longleftrightarrow>
    (\<exists>si s. pool_elt (sessions lm) si = Some s \<and> P (session_abs s))"
proof
  assume "\<exists>si s. pool_elt (sessions lm) si = Some s \<and> P (session_abs s)"
  then obtain si s where s: "pool_elt (sessions lm) si = Some s" "P (session_abs s)" by blast
  then have "bh_search bh (session_by_key lm) (sess_key s) = Some (ucast si)"
    using assms by (simp add: objects_inv_def inv_sessions_def session_ok_def)
  with s have "lns_sessions (lns_abs bh lm) (s_local_tid s, s_local_sid s) = Some (session_abs s)"
    by (simp add: sess_key_def)
  with s(2) show "\<exists>k x. lns_sessions (lns_abs bh lm) k = Some x \<and> P x" by blast
next
  assume "\<exists>k x. lns_sessions (lns_abs bh lm) k = Some x \<and> P x"
  then obtain tid sid x where "lns_sessions (lns_abs bh lm) (tid, sid) = Some x" "P x" by auto
  then show "\<exists>si s. pool_elt (sessions lm) si = Some s \<and> P (session_abs s)"
    by (auto simp: bind_eq_Some_conv)
qed

lemma abs_session_dom:
  assumes "objects_inv bh lm"
  shows "(tid, sid) \<in> dom (lns_sessions (lns_abs bh lm)) \<longleftrightarrow>
    bh_search bh (session_by_key lm) (l2tvpp_session_key tid sid) \<noteq> None"
  using session_found_live [OF assms] by (fastforce simp: dom_def bind_eq_Some_conv)

lemma abs_has_tunnel:
  "lns_has_tunnel (lns_abs bh lm) pip pp tid \<longleftrightarrow> l2tvpp_tunnel_find lm pip pp tid \<noteq> None"
  by (simp add: lns_has_tunnel_def tunnel_find_None) (metis tn_matches_abs)

text \<open>The sessions and tunnels of the abstraction depend on the tables only.\<close>

lemma abs_frame:
  assumes "pool_elt (tunnels lm') = pool_elt (tunnels lm)" and "pool_elt (sessions lm') = pool_elt (sessions lm)"
    and "session_by_key lm' = session_by_key lm"
  shows "lns_abs bh lm' = lns_abs bh lm"
  using assms by (simp add: lns_abs_def)

section \<open>The squares\<close>

lemma tunnel_add_square:
  assumes "l2tvpp_tunnel_add_del slot lm lip pip lp pp tid ptid True = (rv, lm', out)"
  shows "lns_step (lns_abs bh lm) (Tunnel_add slot lip pip lp pp tid ptid) = (rv, lns_abs bh lm')"
proof (cases "rv = RV_OK")
  case True
  note ok = tunnel_add_ok [OF assms [unfolded True]]
  have "ip46_address_is_ip4 lip \<and> ip46_address_is_ip4 pip"
    using assms True by (simp add: l2tvpp_tunnel_add_del_def split: if_splits)
  moreover have "\<not> lns_has_tunnel (lns_abs bh lm) pip pp tid" using ok(2) by (simp add: abs_has_tunnel)
  moreover have "lns_abs bh lm' = (lns_abs bh lm)\<lparr>lns_tunnels := (lns_tunnels (lns_abs bh lm))(slot \<mapsto>
      tunnel_abs (new_tunnel lip pip lp pp tid ptid))\<rparr>"
    by (rule lns_eqI) (simp_all add: ok(3) pool_elt_set)
  ultimately show ?thesis using True by (simp add: tunnel_abs_def new_tunnel_def)
next
  case False
  then show ?thesis
    using tunnel_add_del_error [OF assms False] assms abs_has_tunnel [of bh lm pip pp tid]
    by (auto simp: l2tvpp_tunnel_add_del_def Let_def split: if_splits option.splits)
qed

lemma tunnel_in_use:
  assumes "objects_inv bh lm" and "l2tvpp_tunnel_find lm pip pp tid = Some i" and "pool_elt (tunnels lm) i = Some t"
  shows "lns_tunnel_in_use (lns_abs bh lm) pip pp tid \<longleftrightarrow> t_n_sessions t \<noteq> 0"
proof -
  have m: "tunnel_matches pip pp tid t" using tunnel_find_Some [OF assms(2)] assms(3) by simp
  have uniq: "j = i" if "pool_elt (tunnels lm) j = Some t'" "tunnel_matches pip pp tid t'" for j t'
    using assms(1,3) m that by (simp add: objects_inv_def inv_tids_def tunnel_matches_def)
  have "lns_tunnel_in_use (lns_abs bh lm) pip pp tid \<longleftrightarrow>
      (\<exists>k x. lns_sessions (lns_abs bh lm) k = Some x \<and>
        (\<exists>u. lns_tunnels (lns_abs bh lm) (sn_tunnel x) = Some u \<and> tn_matches pip pp tid u))"
    by (auto simp: lns_tunnel_in_use_def simp del: abs_sel)
  also have "\<dots> \<longleftrightarrow> (\<exists>si s. pool_elt (sessions lm) si = Some s \<and> s_tunnel_index s = i)"
  proof -
    have "(\<exists>u. lns_tunnels (lns_abs bh lm) j = Some u \<and> tn_matches pip pp tid u) \<longleftrightarrow> j = i" for j
      using uniq [of j] m assms(3) by (cases "pool_elt (tunnels lm) j") auto
    then show ?thesis unfolding abs_session_iff [OF assms(1)] session_abs_sel by simp
  qed
  finally show ?thesis using tunnel_unused_iff [OF assms(1,3)] by blast
qed

lemma tunnel_del_square:
  assumes inv: "objects_inv bh lm" and res: "l2tvpp_tunnel_add_del slot lm lip pip lp pp tid ptid False = (rv, lm', out)"
  shows "lns_step (lns_abs bh lm) (Tunnel_del lip pip lp pp tid ptid) = (rv, lns_abs bh lm')"
proof (cases "ip46_address_is_ip4 lip \<and> ip46_address_is_ip4 pip")
  case False
  then show ?thesis using res by (auto simp: l2tvpp_tunnel_add_del_def)
next
  case v4: True
  show ?thesis
  proof (cases "l2tvpp_tunnel_find lm pip pp tid")
    case None
    then show ?thesis using res v4 by (auto simp: l2tvpp_tunnel_add_del_def abs_has_tunnel)
  next
    case (Some i)
    obtain t where t: "pool_elt (tunnels lm) i = Some t" "tunnel_matches pip pp tid t"
      using tunnel_find_Some [OF Some] by blast
    note use = tunnel_in_use [OF inv Some t(1)]
    have r: "(rv, lm') = (if t_n_sessions t \<noteq> 0 then (VNET_API_ERROR_INSTANCE_IN_USE, lm)
        else (RV_OK, lm\<lparr>tunnels := pool_put (tunnels lm) i\<rparr>))"
      using res v4 Some t by (auto simp: l2tvpp_tunnel_add_del_def Let_def split: if_splits)
    have uniq: "j = i" if "pool_elt (tunnels lm) j = Some t'" "tunnel_matches pip pp tid t'" for j t'
      using inv t that by (simp add: objects_inv_def inv_tids_def tunnel_matches_def)
    have "lns_abs bh (lm\<lparr>tunnels := pool_put (tunnels lm) i\<rparr>) = (lns_abs bh lm)\<lparr>lns_tunnels :=
        (\<lambda>j. case lns_tunnels (lns_abs bh lm) j of None \<Rightarrow> None
          | Some t \<Rightarrow> if tn_matches pip pp tid t then None else Some t)\<rparr>"
    proof (rule lns_eqI)
      fix j
      show "lns_tunnels (lns_abs bh (lm\<lparr>tunnels := pool_put (tunnels lm) i\<rparr>)) j = lns_tunnels ((lns_abs bh lm)
          \<lparr>lns_tunnels := (\<lambda>j. case lns_tunnels (lns_abs bh lm) j of None \<Rightarrow> None
            | Some t \<Rightarrow> if tn_matches pip pp tid t then None else Some t)\<rparr>) j"
        using t uniq [of j] by (cases "pool_elt (tunnels lm) j") (auto simp: pool_elt_put)
    qed simp
    then show ?thesis using v4 Some use r by (auto simp: abs_has_tunnel split: if_splits)
  qed
qed

lemma session_add_square:
  assumes inv: "objects_inv bh lm" and slot: "pool_elt (sessions lm) slot = None"
    and res: "l2tvpp_session_add_del bh slot hw sw lm ti sid psid acfc pfc True = Some (rv, lm', out, calls)"
  shows "lns_step (lns_abs bh lm) (Session_add slot hw sw ti sid psid acfc pfc) = (rv, lns_abs bh lm')"
proof (cases "pool_elt (tunnels lm) ti")
  case None
  then show ?thesis using res by (simp add: l2tvpp_session_add_del_def)
next
  case (Some t)
  let ?k = "l2tvpp_session_key (t_local_tid t) sid"
  note ok = bihash_okD [of bh] and dom = abs_session_dom [OF inv, of "t_local_tid t" sid]
  have "bihash_ok bh" using inv by (simp add: objects_inv_def)
  note bh = bihash_okD [OF this]
  show ?thesis
  proof (cases "bh_search bh (session_by_key lm) ?k")
    case (Some v)
    then show ?thesis
      using res dom \<open>pool_elt (tunnels lm) ti = Some t\<close> by (simp add: l2tvpp_session_add_del_def del: abs_sel(2))
  next
    case None
    then have rv: "rv = RV_OK"
      and a: "l2tvpp_session_add bh slot hw sw lm ti t sid psid acfc pfc = (lm', calls)"
      using res Some by (auto simp: l2tvpp_session_add_del_def split: prod.splits)
    define s where "s = \<lparr>s_tunnel_index = ti, s_local_tid = t_local_tid t, s_local_sid = sid,
      s_peer_sid = psid, s_acfc = acfc, s_pfc = pfc, s_sw_if_index = sw, s_hw_if_index = hw,
      s_encap_ip_csum0 = 0\<rparr>"
    have lm': "sessions lm' = pool_set (sessions lm) slot s"
      "session_by_key lm' = fst (bh_add bh (session_by_key lm) ?k (ucast slot))"
      "tunnels lm' = pool_set (tunnels lm) ti (t\<lparr>t_n_sessions := t_n_sessions t + 1\<rparr>)"
      using a by (auto simp: l2tvpp_session_add_def Let_def s_def)
    have live: "ucast v \<noteq> slot" if "bh_search bh (session_by_key lm) k = Some v" for k v
      using session_found_live [OF inv that] slot by fastforce
    have "lns_abs bh lm' = (lns_abs bh lm)\<lparr>lns_sessions := (lns_sessions (lns_abs bh lm))
        ((t_local_tid t, sid) \<mapsto> session_abs s)\<rparr>"
    proof (rule lns_eqI)
      fix tid sid'
      show "lns_sessions (lns_abs bh lm') (tid, sid') = lns_sessions ((lns_abs bh lm)\<lparr>lns_sessions :=
          (lns_sessions (lns_abs bh lm))((t_local_tid t, sid) \<mapsto> session_abs s)\<rparr>) (tid, sid')"
        by (cases "bh_search bh (session_by_key lm) (l2tvpp_session_key tid sid')")
          (auto simp: lm' bh pool_elt_set session_key_inj dest: live)
    qed (simp add: lm' pool_elt_set Some)
    then show ?thesis
      using rv dom None Some by (simp add: session_abs_def s_def del: abs_sel(2))
  qed
qed

lemma session_del_square:
  assumes inv: "objects_inv bh lm"
    and res: "l2tvpp_session_add_del bh slot hw sw lm ti sid psid acfc pfc False = Some (rv, lm', out, calls)"
  shows "lns_step (lns_abs bh lm) (Session_del ti sid) = (rv, lns_abs bh lm')"
proof (cases "pool_elt (tunnels lm) ti")
  case None
  then show ?thesis using res by (simp add: l2tvpp_session_add_del_def)
next
  case (Some t)
  let ?k = "l2tvpp_session_key (t_local_tid t) sid"
  have "bihash_ok bh" using inv by (simp add: objects_inv_def)
  note bh = bihash_okD [OF this] and dom = abs_session_dom [OF inv, of "t_local_tid t" sid]
  show ?thesis
  proof (cases "bh_search bh (session_by_key lm) ?k")
    case None
    then show ?thesis
      using res dom Some by (simp add: l2tvpp_session_add_del_def del: abs_sel(2))
  next
    case found: (Some v)
    obtain s where s: "pool_elt (sessions lm) (ucast v) = Some s" "sess_key s = ?k"
      by (rule session_found_live [OF inv found])
    have rv: "rv = RV_OK" and d: "l2tvpp_session_del bh lm ti t ?k (ucast v) s = Some (lm', calls)"
      using res Some found s by (auto simp: l2tvpp_session_add_del_def bind_eq_Some_conv)
    have lm': "sessions lm' = pool_put (sessions lm) (ucast v)"
      "session_by_key lm' = fst (bh_del bh (session_by_key lm) ?k)"
      "tunnels lm' = pool_set (tunnels lm) ti (t\<lparr>t_n_sessions := t_n_sessions t - 1\<rparr>)"
      using d by (auto simp: l2tvpp_session_del_def Let_def split: if_splits)
    have other: "ucast w \<noteq> (ucast v :: u32)" if "bh_search bh (session_by_key lm) k = Some w" "k \<noteq> ?k" for k w
      using session_found_live [OF inv that(1)] s that(2) by fastforce
    have "lns_abs bh lm' = (lns_abs bh lm)\<lparr>lns_sessions := (lns_sessions (lns_abs bh lm))
        ((t_local_tid t, sid) := None)\<rparr>"
    proof (rule lns_eqI)
      fix tid sid'
      show "lns_sessions (lns_abs bh lm') (tid, sid') = lns_sessions ((lns_abs bh lm)\<lparr>lns_sessions :=
          (lns_sessions (lns_abs bh lm))((t_local_tid t, sid) := None)\<rparr>) (tid, sid')"
        by (cases "bh_search bh (session_by_key lm) (l2tvpp_session_key tid sid')")
          (auto simp: lm' bh pool_elt_put session_key_inj dest: other)
    qed (simp add: lm' pool_elt_set Some)
    then show ?thesis
      using rv dom found Some by (simp del: abs_sel(2))
  qed
qed

lemma route_square:
  assumes inv: "objects_inv bh lm" and res: "l2tvpp_route_add_del bh fi ai lm pfx sw is_add = (rv, lm', calls)"
  shows "lns_step (lns_abs bh lm) (Route fi ai pfx sw is_add) = (rv, lns_abs bh lm')"
proof -
  have "lns_abs bh lm' = lns_abs bh lm" by (rule abs_frame) (simp_all add: route_frame [OF res])
  moreover have "(\<exists>k x. lns_sessions (lns_abs bh lm) k = Some x \<and> sn_sw_if_index x = sw) \<longleftrightarrow>
      session_of_sw_if_index lm sw \<noteq> None"
    unfolding abs_session_iff [OF inv] session_abs_sel
    using inv by (fastforce simp: objects_inv_def inv_swif_def inv_sessions_def session_ok_def)
  moreover have "rv = (if session_of_sw_if_index lm sw = None then VNET_API_ERROR_INVALID_SW_IF_INDEX else RV_OK)"
    using res by (auto simp: l2tvpp_route_add_del_def Let_def split: if_splits prod.splits)
  ultimately show ?thesis by (simp del: abs_sel)
qed

lemma handoff_square:
  assumes "l2tvpp_set_handoff lm e = (rv, lm', calls)"
  shows "lns_step (lns_abs bh lm) (Handoff e) = (rv, lns_abs bh lm')"
proof -
  have "rv = RV_OK" "tunnels lm' = tunnels lm" "sessions lm' = sessions lm" "session_by_key lm' = session_by_key lm"
    using assms by (auto simp: l2tvpp_set_handoff_def Let_def split: if_splits)
  then show ?thesis using abs_frame [of lm' lm bh] by simp
qed

text \<open>Deletions keep the invariant whatever the unused index arguments are.\<close>

lemma tunnel_del_inv_any:
  assumes "objects_inv bh lm" and "l2tvpp_tunnel_add_del slot lm lip pip lp pp tid ptid False = (rv, lm', out)"
  shows "objects_inv bh lm'"
proof (cases "rv = RV_OK")
  case True
  from assms(2) [unfolded True] show ?thesis by (elim tunnel_del_ok) (rule tunnel_del_inv [OF assms(1)])
qed (use tunnel_add_del_error [OF assms(2)] assms(1) in simp)

lemma session_del_inv_any:
  assumes inv: "objects_inv bh lm"
    and res: "l2tvpp_session_add_del bh slot hw sw lm ti sid psid acfc pfc False = Some (rv, lm', out, calls)"
  shows "objects_inv bh lm'"
proof (cases "rv = RV_OK")
  case True
  then obtain t v s where t: "pool_elt (tunnels lm) ti = Some t"
    and v: "bh_search bh (session_by_key lm) (l2tvpp_session_key (t_local_tid t) sid) = Some v"
    and s: "pool_elt (sessions lm) (ucast v) = Some s"
    and del: "l2tvpp_session_del bh lm ti t (l2tvpp_session_key (t_local_tid t) sid) (ucast v) s = Some (lm', calls)"
    using res by (auto simp: l2tvpp_session_add_del_def Let_def bind_eq_Some_conv split: option.splits prod.splits)
  have "sess_key s = l2tvpp_session_key (t_local_tid t) sid"
    using session_found_live [OF inv v] s by auto
  with del show ?thesis by (intro session_del_inv [OF inv t s]) simp_all
qed (use session_error [OF res] inv in simp)

lemma ctl_square:
  assumes inv: "objects_inv bh lm" and env: "ctl_env lm x"
  shows "\<exists>r lm'. ctl_step bh lm x = Some (r, lm') \<and> lns_step (lns_abs bh lm) x = (r, lns_abs bh lm') \<and> objects_inv bh lm'"
proof (cases x)
  case (Tunnel_add slot lip pip lp pp tid ptid)
  obtain rv lm' out where r: "l2tvpp_tunnel_add_del slot lm lip pip lp pp tid ptid True = (rv, lm', out)"
    by (metis surj_pair)
  have "objects_inv bh lm'" by (rule tunnel_add_del_inv [OF inv _ _ r]) (use env Tunnel_add in simp_all)
  then show ?thesis using tunnel_add_square [OF r, of bh] r by (simp add: Tunnel_add del: lns_step.simps)
next
  case (Tunnel_del lip pip lp pp tid ptid)
  obtain rv lm' out where r: "l2tvpp_tunnel_add_del 0 lm lip pip lp pp tid ptid False = (rv, lm', out)"
    by (metis surj_pair)
  then show ?thesis
    using tunnel_del_square [OF inv r] tunnel_del_inv_any [OF inv r] by (simp add: Tunnel_del del: lns_step.simps)
next
  case (Session_add slot hw sw ti sid psid acfc pfc)
  obtain rv lm' out calls where
    r: "l2tvpp_session_add_del bh slot hw sw lm ti sid psid acfc pfc True = Some (rv, lm', out, calls)"
    using session_add_del_defined [OF inv] by (metis option.exhaust surj_pair)
  have e: "pool_is_free_index (sessions lm) slot" "slot \<noteq> - 1" "session_of_sw_if_index lm sw = None"
    using env Session_add by simp_all
  then have "pool_elt (sessions lm) slot = None" by (simp add: pool_is_free_index_def)
  then show ?thesis
    using session_add_square [OF inv _ r] session_add_del_inv [OF inv e r] r
    by (simp add: Session_add del: lns_step.simps)
next
  case (Session_del ti sid)
  obtain rv lm' out calls where
    r: "l2tvpp_session_add_del bh 0 0 0 lm ti sid 0 0 0 False = Some (rv, lm', out, calls)"
    using session_add_del_defined [OF inv] by (metis option.exhaust surj_pair)
  then show ?thesis
    using session_del_square [OF inv r] session_del_inv_any [OF inv r] by (simp add: Session_del del: lns_step.simps)
next
  case (Route fi ai pfx sw is_add)
  obtain rv lm' calls where r: "l2tvpp_route_add_del bh fi ai lm pfx sw is_add = (rv, lm', calls)"
    by (metis surj_pair)
  then show ?thesis
    using route_square [OF inv r] route_add_del_inv [OF inv r] by (simp add: Route del: lns_step.simps)
next
  case (Handoff e)
  obtain rv lm' calls where r: "l2tvpp_set_handoff lm e = (rv, lm', calls)"
    by (metis surj_pair)
  then show ?thesis
    using handoff_square [OF r, of bh] set_handoff_inv [OF inv r] by (simp add: Handoff del: lns_step.simps)
qed

interpretation ctl: forward_sim "lns_abs bh" "objects_inv bh" ctl_env "ctl_step bh" lns_step
  by unfold_locales (rule ctl_square)

section \<open>The refinement\<close>

text \<open>Claim C3: (refinement) the control plane implements its specification: from start-up, for every
  sequence of requests in which VPP hands out free slots and unused interfaces and no local tunnel id is
  given to two peers, the plugin runs without going through a dead index, every request returns the code
  the two-map specification returns (a tunnel added twice, an unknown tunnel or session, a tunnel in use,
  a route over a foreign interface included), and the final pools and decap table represent exactly the
  specification's tunnels and sessions.\<close>

theorem control_plane_refines_spec:
  assumes "bihash_ok bh" and "l2tvpp_init bh fsrc unset = (lm, calls)"
    and "env_run ctl_env (ctl_step bh) lm ops"
  shows "\<exists>rvs lm'. op_run (ctl_step bh) lm ops = Some (rvs, lm')
    \<and> spec_run lns_step lns_empty ops = (rvs, lns_abs bh lm')"
proof -
  have "lns_abs bh lm = lns_empty"
    using assms(1,2)
    by (intro lns_eqI) (auto simp: l2tvpp_init_def lns_empty_def pool_elt_def bihash_okD(1))
  then show ?thesis
    using ctl.run_square [OF init_inv [OF assms(1,2)] assms(3)] by auto
qed

definition ex_ctl_ops :: "ctl_op list" where
  "ex_ctl_ops = [Tunnel_add 0 ex_local ex_peer 1701 1701 100 200, Tunnel_add 1 ex_local ex_peer 1701 1701 100 200,
     Session_add 0 7 5 0 1000 2000 0 0, Tunnel_del ex_local ex_peer 1701 1701 100 200]"

lemma ex_add_again:
  "l2tvpp_tunnel_add_del 1 ex_tunnel ex_local ex_peer 1701 1701 100 200 True =
     (VNET_API_ERROR_TUNNEL_EXIST, ex_tunnel, None)"
  by (simp add: l2tvpp_tunnel_add_del_def ex_local_def ex_peer_def ip46_address_is_ip4_def
      l2tvpp_tunnel_find_def pool_indices_def ex_tunnel_eq pool_elt_def tunnel_matches_def new_tunnel_def)

theorem control_plane_refines_spec_witness:
  "\<exists>rvs lm'. op_run (ctl_step alist_bihash) ex_init ex_ctl_ops = Some (rvs, lm')
    \<and> rvs = [RV_OK, VNET_API_ERROR_TUNNEL_EXIST, RV_OK, VNET_API_ERROR_INSTANCE_IN_USE]"
proof -
  obtain calls where add: "l2tvpp_session_add_del alist_bihash 0 7 5 ex_tunnel 0 1000 2000 0 0 True =
      Some (RV_OK, ex_main, Some 5, calls)"
    using ex_main_eq(1) by blast
  have i: "l2tvpp_init alist_bihash 0 [] = (ex_init, [Udp_register_dst_port_input])"
    by (simp add: ex_init_def l2tvpp_init_def)
  have "env_run ctl_env (ctl_step alist_bihash) ex_init ex_ctl_ops"
    by (simp add: ex_ctl_ops_def ex_tunnel_eq(1) ex_add_again add)
      (simp add: pool_is_free_index_def pool_elt_def tid_not_shared_def ex_init_def l2tvpp_init_def ex_tunnel_eq
        session_of_sw_if_index_def new_tunnel_def split: prod.split)
  from control_plane_refines_spec [OF alist_bihash_ok i this] obtain rvs lm' where
    run: "op_run (ctl_step alist_bihash) ex_init ex_ctl_ops = Some (rvs, lm')"
    and spec: "fst (spec_run lns_step lns_empty ex_ctl_ops) = rvs" by auto
  have "fst (spec_run lns_step lns_empty ex_ctl_ops) =
      [RV_OK, VNET_API_ERROR_TUNNEL_EXIST, RV_OK, VNET_API_ERROR_INSTANCE_IN_USE]"
    by (auto simp: ex_ctl_ops_def lns_empty_def lns_has_tunnel_def lns_tunnel_in_use_def ex_local_def ex_peer_def
        ip46_address_is_ip4_def tn_matches_def)
  with run spec show ?thesis by simp
qed

end
