(* ===== verification/Syncd.thy ===== *)
theory Syncd
  imports Control_Spec "HOL-Library.AList"
begin

text \<open>
  \<^verbatim>\<open>src/syncd/l2tvppd.py\<close>: the daemon that keeps the plugin's tunnels, sessions and routes in step with the
  sessions of the kernel.  Modelled is its core, from the session list to the API calls: merging the
  tunnel endpoints, the class \<open>Syncd\<close> with its record of what it installed, and the reconcile pass.  A
  dictionary is an association list in insertion order.  Addresses and prefixes are values; reading
  them out of the kernel's text is in \<open>Syncd_Parse\<close>, the wire format of the API (\<open>vpp_papi\<close>) is a parameter there
  and in \<open>Syncd_Plugin\<close>.

  The API is a record of operations \<open>vpp_client\<close> on a state of its own.  The daemon looks at the index in
  a reply and never at the return code, so the operations give back just the index.
\<close>

section \<open>What the kernel has\<close>

type_synonym skey = "u16 \<times> u16"
type_synonym tkey = "ip46_address \<times> u16 \<times> u16"

text \<open>\<open>ks_local_ip\<close> and \<open>ks_local_port\<close> are the optional dictionary entries \<open>local_ip\<close> and \<open>local_port\<close>,
  \<open>ks_routes\<close> is \<open>None\<close> until the subscriber's prefixes have been fetched.\<close>

record ksession =
  ks_peer_ip :: ip46_address
  ks_peer_port :: u16
  ks_local_tid :: u16
  ks_local_sid :: u16
  ks_peer_tid :: u16
  ks_peer_sid :: u16
  ks_ifname :: "string option"
  ks_routes :: "fib_prefix list option"
  ks_local_ip :: "ip46_address option"
  ks_local_port :: "u16 option"

record ktunnel =
  kt_local_ip :: "ip46_address option"
  kt_peer_ip :: "ip46_address option"
  kt_local_port :: u16
  kt_peer_port :: u16

definition merge_endpoints :: "(u16 \<rightharpoonup> ktunnel) \<Rightarrow> ksession \<Rightarrow> ksession" where
  "merge_endpoints kts s =
     (case kts (ks_local_tid s) of
        None \<Rightarrow> s
      | Some t \<Rightarrow>
          let s1 = (case kt_local_ip t of None \<Rightarrow> s
                    | Some ip \<Rightarrow> s\<lparr>ks_local_ip := Some ip, ks_local_port := Some (kt_local_port t)\<rparr>)
          in (case kt_peer_ip t of None \<Rightarrow> s1
              | Some ip \<Rightarrow> s1\<lparr>ks_peer_ip := ip, ks_peer_port := kt_peer_port t\<rparr>))"

definition merge_tunnel_endpoints :: "ksession list \<Rightarrow> (u16 \<rightharpoonup> ktunnel) \<Rightarrow> ksession list" where
  "merge_tunnel_endpoints ks kts = map (merge_endpoints kts) ks"

definition tunnel_key :: "ksession \<Rightarrow> tkey" where
  "tunnel_key s = (ks_peer_ip s, ks_peer_port s, ks_local_tid s)"

definition session_key :: "ksession \<Rightarrow> skey" where
  "session_key s = (ks_local_tid s, ks_local_sid s)"

section \<open>The API\<close>

text \<open>\<open>vc_tunnel_add\<close> takes local and peer address, local and peer port, local and peer tunnel id;
  \<open>vc_session_add\<close> takes tunnel index, local and peer session id, acfc and pfc.\<close>

record 'v vpp_client =
  vc_tunnel_add :: "'v \<Rightarrow> ip46_address \<Rightarrow> ip46_address \<Rightarrow> u16 \<Rightarrow> u16 \<Rightarrow> u16 \<Rightarrow> u16 \<Rightarrow> u32 \<times> 'v"
  vc_tunnel_del :: "'v \<Rightarrow> ip46_address \<Rightarrow> ip46_address \<Rightarrow> u16 \<Rightarrow> u16 \<Rightarrow> u16 \<Rightarrow> u16 \<Rightarrow> 'v"
  vc_session_add :: "'v \<Rightarrow> u32 \<Rightarrow> u16 \<Rightarrow> u16 \<Rightarrow> u8 \<Rightarrow> u8 \<Rightarrow> u32 \<times> 'v"
  vc_session_del :: "'v \<Rightarrow> u32 \<Rightarrow> u16 \<Rightarrow> u16 \<Rightarrow> 'v"
  vc_route :: "'v \<Rightarrow> fib_prefix \<Rightarrow> u32 \<Rightarrow> bool \<Rightarrow> 'v"
  vc_tunnel_dump :: "'v \<Rightarrow> (u32 \<times> tunnel_spec) list"
  vc_session_dump :: "'v \<Rightarrow> u32 list" \<comment> \<open>the tunnel index of every session\<close>

section \<open>The daemon\<close>

record installed =
  in_sw_if_index :: u32
  in_tunnel_index :: u32
  in_local_sid :: u16
  in_peer_sid :: u16
  in_tunnel_key :: tkey
  in_routes :: "fib_prefix list"

text \<open>\<open>sd_saved\<close> is the content of the state file, \<open>None\<close> when there is none or it does not parse.\<close>

record syncd =
  sd_local_ip :: "ip46_address option"
  sd_local_port :: u16
  sd_state_path :: "string option"
  sd_installed :: "(skey \<times> installed) list"
  sd_saved :: "(skey \<times> installed) list option"

text \<open>What ends a pass: a tunnel without a local address, and an interface whose prefixes cannot be read.\<close>

datatype syncd_error = No_local_ip tkey | Routes_unreadable "string option"

definition load_state :: "syncd \<Rightarrow> (skey \<times> installed) list" where
  "load_state sd =
     (case sd_state_path sd of None \<Rightarrow> []
      | Some _ \<Rightarrow> (case sd_saved sd of None \<Rightarrow> [] | Some st \<Rightarrow> st))"

text \<open>\<open>Syncd.__init__\<close>: a daemon started where an earlier one has left \<open>saved\<close> in the state file.\<close>

definition syncd_init ::
  "ip46_address option \<Rightarrow> u16 \<Rightarrow> string option \<Rightarrow> (skey \<times> installed) list option \<Rightarrow> syncd" where
  "syncd_init lip lp path saved =
     (let sd = \<lparr>sd_local_ip = lip, sd_local_port = lp, sd_state_path = path, sd_installed = [], sd_saved = saved\<rparr>
      in sd\<lparr>sd_installed := load_state sd\<rparr>)"

definition save_state :: "syncd \<Rightarrow> syncd" where
  "save_state sd =
     (case sd_state_path sd of None \<Rightarrow> sd | Some _ \<Rightarrow> sd\<lparr>sd_saved := Some (sd_installed sd)\<rparr>)"

definition vpp_tunnels :: "'v vpp_client \<Rightarrow> 'v \<Rightarrow> (tkey \<times> u32) list" where
  "vpp_tunnels c v = fold (\<lambda>(i, t). AList.update (tn_peer_ip t, tn_peer_port t, tn_local_tid t) i) (vc_tunnel_dump c v) []"

definition ensure_tunnel ::
  "'v vpp_client \<Rightarrow> syncd \<Rightarrow> ksession \<Rightarrow> (tkey \<times> u32) list \<Rightarrow> 'v \<Rightarrow> syncd_error + (u32 \<times> (tkey \<times> u32) list \<times> 'v)" where
  "ensure_tunnel c sd s cache v =
     (let tk = tunnel_key s in
      case map_of cache tk of
        Some i \<Rightarrow> Inr (i, cache, v)
      | None \<Rightarrow>
          (case (case ks_local_ip s of Some ip \<Rightarrow> Some ip | None \<Rightarrow> sd_local_ip sd) of
             None \<Rightarrow> Inl (No_local_ip tk)
           | Some local_ip \<Rightarrow>
               let local_port = (case ks_local_port s of Some p \<Rightarrow> if p = 0 then sd_local_port sd else p
                                 | None \<Rightarrow> sd_local_port sd);
                   (i, v') = vc_tunnel_add c v local_ip (ks_peer_ip s) local_port (ks_peer_port s)
                               (ks_local_tid s) (ks_peer_tid s)
               in Inr (i, AList.update tk i cache, v')))"

definition route_all :: "'v vpp_client \<Rightarrow> u32 \<Rightarrow> bool \<Rightarrow> fib_prefix list \<Rightarrow> 'v \<Rightarrow> 'v" where
  "route_all c sw is_add ps v = fold (\<lambda>p v. vc_route c v p sw is_add) ps v"

text \<open>\<open>ppp_routes\<close> fetches the prefixes of a kernel interface; \<open>None\<close> is its exception.\<close>

definition routes_of :: "(string \<Rightarrow> fib_prefix list option) \<Rightarrow> ksession \<Rightarrow> fib_prefix list option" where
  "routes_of ppp_routes s =
     (case ks_routes s of Some rs \<Rightarrow> Some rs
      | None \<Rightarrow> (case ks_ifname s of Some i \<Rightarrow> ppp_routes i | None \<Rightarrow> Some []))"

definition add_session ::
  "'v vpp_client \<Rightarrow> (string \<Rightarrow> fib_prefix list option) \<Rightarrow> syncd \<Rightarrow> ksession \<Rightarrow> (tkey \<times> u32) list \<Rightarrow> 'v
     \<Rightarrow> syncd_error + (syncd \<times> (tkey \<times> u32) list \<times> 'v)" where
  "add_session c ppp_routes sd s cache v =
     (case routes_of ppp_routes s of
        None \<Rightarrow> Inl (Routes_unreadable (ks_ifname s))
      | Some routes \<Rightarrow>
          (case ensure_tunnel c sd s cache v of
             Inl e \<Rightarrow> Inl e
           | Inr (tidx, cache', v1) \<Rightarrow>
               let (swif, v2) = vc_session_add c v1 tidx (ks_local_sid s) (ks_peer_sid s) 0 0;
                   v3 = route_all c swif True routes v2;
                   r = \<lparr>in_sw_if_index = swif, in_tunnel_index = tidx, in_local_sid = ks_local_sid s,
                        in_peer_sid = ks_peer_sid s, in_tunnel_key = tunnel_key s, in_routes = routes\<rparr>
               in Inr (sd\<lparr>sd_installed := AList.update (session_key s) r (sd_installed sd)\<rparr>, cache', v3)))"

text \<open>\<open>iter\<close> is the order in which a set is iterated over, \<open>srt\<close> is \<open>sorted\<close> on prefixes as text.\<close>

definition sync_routes ::
  "'v vpp_client \<Rightarrow> (fib_prefix set \<Rightarrow> fib_prefix list) \<Rightarrow> (fib_prefix set \<Rightarrow> fib_prefix list) \<Rightarrow> syncd \<Rightarrow> skey \<Rightarrow> installed
     \<Rightarrow> fib_prefix list \<Rightarrow> 'v \<Rightarrow> syncd \<times> 'v" where
  "sync_routes c iter srt sd key r routes v =
     (let have = set (in_routes r); want = set routes;
          v1 = route_all c (in_sw_if_index r) True (iter (want - have)) v;
          v2 = route_all c (in_sw_if_index r) False (iter (have - want)) v1
      in (if have \<noteq> want
          then sd\<lparr>sd_installed := AList.update key (r\<lparr>in_routes := srt want\<rparr>) (sd_installed sd)\<rparr> else sd, v2))"

definition del_session :: "'v vpp_client \<Rightarrow> syncd \<Rightarrow> skey \<Rightarrow> installed \<Rightarrow> 'v \<Rightarrow> syncd \<times> 'v" where
  "del_session c sd key r v =
     (let v1 = route_all c (in_sw_if_index r) False (in_routes r) v;
          v2 = vc_session_del c v1 (in_tunnel_index r) (in_local_sid r) (in_peer_sid r)
      in (sd\<lparr>sd_installed := AList.delete key (sd_installed sd)\<rparr>, v2))"

text \<open>\<open>none\<close> is the address \<open>vpp_papi\<close> sends where the daemon passes Python's \<open>None\<close>.\<close>

definition prune_tunnels :: "'v vpp_client \<Rightarrow> ip46_address \<Rightarrow> syncd \<Rightarrow> 'v \<Rightarrow> 'v" where
  "prune_tunnels c none sd v =
     (let live = set (vc_session_dump c v);
          local_ip = (case sd_local_ip sd of Some ip \<Rightarrow> ip | None \<Rightarrow> none)
      in fold (\<lambda>((peer_ip, peer_port, local_tid), tidx) v.
           if tidx \<in> live then v
           else vc_tunnel_del c v local_ip peer_ip (sd_local_port sd) peer_port local_tid 0) (vpp_tunnels c v) v)"

definition wanted :: "ksession list \<Rightarrow> (skey \<times> ksession) list" where
  "wanted ks = fold (\<lambda>s. AList.update (session_key s) s) (filter (\<lambda>s. ks_ifname s \<noteq> None) ks) []"

text \<open>The first loop of a pass, over the wanted sessions.  An exception ends the pass with what has been done.\<close>

fun reconcile_want ::
  "'v vpp_client \<Rightarrow> (fib_prefix set \<Rightarrow> fib_prefix list) \<Rightarrow> (fib_prefix set \<Rightarrow> fib_prefix list) \<Rightarrow> (string \<Rightarrow> fib_prefix list option)
     \<Rightarrow> bool \<Rightarrow> (skey \<times> ksession) list \<Rightarrow> syncd \<Rightarrow> (tkey \<times> u32) list \<Rightarrow> 'v \<Rightarrow> nat \<Rightarrow> syncd \<times> 'v \<times> (syncd_error + nat)" where
  "reconcile_want c iter srt ppp_routes sync [] sd cache v added = (sd, v, Inr added)"
| "reconcile_want c iter srt ppp_routes sync ((key, s) # want) sd cache v added =
     (case map_of (sd_installed sd) key of
        None \<Rightarrow>
          (case add_session c ppp_routes sd s cache v of
             Inl e \<Rightarrow> (sd, v, Inl e)
           | Inr (sd', cache', v') \<Rightarrow> reconcile_want c iter srt ppp_routes sync want sd' cache' v' (Suc added))
      | Some r \<Rightarrow>
          if sync then
            (case routes_of ppp_routes s of
               None \<Rightarrow> (sd, v, Inl (Routes_unreadable (ks_ifname s)))
             | Some routes \<Rightarrow>
                 (case sync_routes c iter srt sd key r routes v of
                    (sd', v') \<Rightarrow> reconcile_want c iter srt ppp_routes sync want sd' cache v' added))
          else reconcile_want c iter srt ppp_routes sync want sd cache v added)"

text \<open>The second loop, over a copy of the keys.\<close>

fun reconcile_gone :: "'v vpp_client \<Rightarrow> skey set \<Rightarrow> skey list \<Rightarrow> syncd \<Rightarrow> 'v \<Rightarrow> nat \<Rightarrow> syncd \<times> 'v \<times> nat" where
  "reconcile_gone c want [] sd v removed = (sd, v, removed)"
| "reconcile_gone c want (key # keys) sd v removed =
     (case (key \<in> want, map_of (sd_installed sd) key) of
        (False, Some r) \<Rightarrow>
          (case del_session c sd key r v of (sd', v') \<Rightarrow> reconcile_gone c want keys sd' v' (Suc removed))
      | _ \<Rightarrow> reconcile_gone c want keys sd v removed)"

definition reconcile ::
  "'v vpp_client \<Rightarrow> ip46_address \<Rightarrow> (fib_prefix set \<Rightarrow> fib_prefix list) \<Rightarrow> (fib_prefix set \<Rightarrow> fib_prefix list)
     \<Rightarrow> (string \<Rightarrow> fib_prefix list option) \<Rightarrow> bool \<Rightarrow> ksession list \<Rightarrow> syncd \<Rightarrow> 'v \<Rightarrow> syncd \<times> 'v \<times> (syncd_error + nat \<times> nat)" where
  "reconcile c none iter srt ppp_routes sync ks sd v =
     (let want = wanted ks in
      case reconcile_want c iter srt ppp_routes sync want sd (vpp_tunnels c v) v 0 of
        (sd1, v1, Inl e) \<Rightarrow> (sd1, v1, Inl e)
      | (sd1, v1, Inr added) \<Rightarrow>
          (case reconcile_gone c (fst ` set want) (map fst (sd_installed sd1)) sd1 v1 0 of
             (sd2, v2, removed) \<Rightarrow>
               let v3 = (if removed \<noteq> 0 then prune_tunnels c none sd2 v2 else v2)
               in (save_state sd2, v3, Inr (added, removed))))"

section \<open>The loop\<close>

text \<open>One turn of the daemon's loop on the sessions and interface prefixes the kernel has at that moment.  A
  pass that raises is logged and does not count as a tick.\<close>

definition ROUTE_RESYNC_EVERY :: nat where
  "ROUTE_RESYNC_EVERY = 6"

definition daemon_tick ::
  "'v vpp_client \<Rightarrow> ip46_address \<Rightarrow> (fib_prefix set \<Rightarrow> fib_prefix list) \<Rightarrow> (fib_prefix set \<Rightarrow> fib_prefix list)
     \<Rightarrow> ksession list \<times> (string \<Rightarrow> fib_prefix list option) \<Rightarrow> nat \<times> syncd \<times> 'v \<Rightarrow> nat \<times> syncd \<times> 'v" where
  "daemon_tick c none iter srt knl st =
     (case st of (tick, sd, v) \<Rightarrow>
        (case reconcile c none iter srt (snd knl) (tick mod ROUTE_RESYNC_EVERY = 0) (fst knl) sd v of
           (sd', v', Inl _) \<Rightarrow> (tick, sd', v')
         | (sd', v', Inr _) \<Rightarrow> (Suc tick, sd', v')))"

definition run_daemon ::
  "'v vpp_client \<Rightarrow> ip46_address \<Rightarrow> (fib_prefix set \<Rightarrow> fib_prefix list) \<Rightarrow> (fib_prefix set \<Rightarrow> fib_prefix list)
     \<Rightarrow> (ksession list \<times> (string \<Rightarrow> fib_prefix list option)) list \<Rightarrow> nat \<times> syncd \<times> 'v \<Rightarrow> nat \<times> syncd \<times> 'v" where
  "run_daemon c none iter srt kernels st = fold (daemon_tick c none iter srt) kernels st"

end
