(* ===== verification/Syncd_Parse.thy ===== *)
theory Syncd_Parse
  imports Syncd "HOL-Library.List_Lexorder" "HOL-Library.Char_ord"
begin

text \<open>
  \<^verbatim>\<open>src/syncd/l2tvppd.py\<close>: reading the kernel's state out of text.  A Python string is a list of
  characters (of the first 256 code points).  Every regular expression of the file is written out as a
  scanner on the rest of a text: each of its repetitions is followed by a character it cannot match, so the
  greedy match is the only one and no backtracking is needed.  Numbers are unbounded.  What
  \<open>subprocess.run\<close> prints, and the reading of addresses and prefixes by \<open>vpp_papi\<close>, are arguments.

  The kernel's list of sessions and the list of tunnels are read back as they were printed.
\<close>

section \<open>Text\<close>

text \<open>\<open>str.isspace\<close> and the line boundaries of \<open>str.splitlines\<close>.\<close>

definition py_space :: "char \<Rightarrow> bool" where
  "py_space c \<longleftrightarrow> (let n = of_char c :: nat in 9 \<le> n \<and> n \<le> 13 \<or> 28 \<le> n \<and> n \<le> 32 \<or> n = 133 \<or> n = 160)"

definition line_break :: "char \<Rightarrow> bool" where
  "line_break c \<longleftrightarrow> (let n = of_char c :: nat in 10 \<le> n \<and> n \<le> 13 \<or> 28 \<le> n \<and> n \<le> 30 \<or> n = 133)"

function splitlines :: "string \<Rightarrow> string list" where
  "splitlines [] = []"
| "splitlines (c # s) =
     (let l = takeWhile (\<lambda>x. \<not> line_break x) (c # s) in
      case dropWhile (\<lambda>x. \<not> line_break x) (c # s) of
        [] \<Rightarrow> [l]
      | b # r \<Rightarrow> l # splitlines (if (of_char b :: nat) = 13 \<and> r \<noteq> [] \<and> (of_char (hd r) :: nat) = 10 then tl r else r))"
  by pat_completeness auto
termination
proof (relation "measure length", goal_cases)
  case (2 c s l b r)
  have "length (b # r) \<le> length (c # s)" using 2(2) length_dropWhile_le [of "\<lambda>x. \<not> line_break x" "c # s"] by simp
  then show ?case by auto
qed simp

section \<open>Scanners\<close>

text \<open>\<open>\s*\<close>, \<open>\s+\<close>, a literal, \<open>\S+\<close>, \<open>\d+\<close>, and \<open>[0-9A-Fa-f]{n}\<close> with its value.\<close>

definition skip_ws :: "string \<Rightarrow> string" where
  "skip_ws s = dropWhile py_space s"

definition scan_ws :: "string \<Rightarrow> string option" where
  "scan_ws s = (case s of c # _ \<Rightarrow> if py_space c then Some (skip_ws s) else None | [] \<Rightarrow> None)"

fun scan_lit :: "string \<Rightarrow> string \<Rightarrow> string option" where
  "scan_lit [] s = Some s"
| "scan_lit (x # xs) [] = None"
| "scan_lit (x # xs) (c # s) = (if x = c then scan_lit xs s else None)"

definition scan_word :: "(char \<Rightarrow> bool) \<Rightarrow> string \<Rightarrow> (string \<times> string) option" where
  "scan_word p s = (if takeWhile p s = [] then None else Some (takeWhile p s, dropWhile p s))"

definition scan_dec :: "string \<Rightarrow> (nat \<times> string) option" where
  "scan_dec s = map_option (\<lambda>(ds, r). (digits_value ds, r)) (scan_word is_digit s)"

definition is_hex :: "char \<Rightarrow> bool" where
  "is_hex c \<longleftrightarrow> (let n = of_char c :: nat in 48 \<le> n \<and> n \<le> 57 \<or> 65 \<le> n \<and> n \<le> 70 \<or> 97 \<le> n \<and> n \<le> 102)"

definition hex_value :: "char \<Rightarrow> nat" where
  "hex_value c = (let n = of_char c :: nat in if n \<le> 57 then n - 48 else if n \<le> 70 then n - 55 else n - 87)"

definition hexes_value :: "string \<Rightarrow> nat" where
  "hexes_value ds = foldl (\<lambda>n c. 16 * n + hex_value c) 0 ds"

definition scan_hex :: "nat \<Rightarrow> string \<Rightarrow> (nat \<times> string) option" where
  "scan_hex n s = (if n \<le> length s \<and> list_all is_hex (take n s) then Some (hexes_value (take n s), drop n s) else None)"

section \<open>The kernel's sessions\<close>

record proc_session =
  ps_name :: string
  ps_peer_ip :: string
  ps_peer_port :: nat
  ps_local_tid :: nat
  ps_local_sid :: nat
  ps_peer_tid :: nat
  ps_peer_sid :: nat
  ps_ifname :: "string option"

definition hex_ip :: "nat \<Rightarrow> string" where
  "hex_ip v = dec (v div 2 ^ 24 mod 256) @ ''.'' @ dec (v div 2 ^ 16 mod 256) @ ''.'' @ dec (v div 2 ^ 8 mod 256) @ ''.''
     @ dec (v mod 256)"

text \<open>\<open>SESSION_RE.match\<close>, with the dictionary made of its groups.\<close>

definition session_match :: "string \<Rightarrow> proc_session option" where
  "session_match line = do {
     s \<leftarrow> scan_lit ''SESSION'' (skip_ws line);
     s \<leftarrow> scan_ws s;
     s \<leftarrow> scan_lit [CHR 0x27] s;
     let name = takeWhile (\<lambda>c. c \<noteq> CHR 0x27) s;
     s \<leftarrow> scan_lit [CHR 0x27] (dropWhile (\<lambda>c. c \<noteq> CHR 0x27) s);
     s \<leftarrow> scan_ws (case scan_lit '','' s of Some r \<Rightarrow> r | None \<Rightarrow> s);
     (ip, s) \<leftarrow> scan_hex 8 s;
     s \<leftarrow> scan_lit ''/'' s;
     (port, s) \<leftarrow> scan_dec s;
     s \<leftarrow> scan_ws s;
     (tid, s) \<leftarrow> scan_hex 4 s;
     s \<leftarrow> scan_lit ''/'' s;
     (sid, s) \<leftarrow> scan_hex 4 s;
     s \<leftarrow> scan_ws s;
     s \<leftarrow> scan_lit ''->'' s;
     s \<leftarrow> scan_ws s;
     (ptid, s) \<leftarrow> scan_hex 4 s;
     s \<leftarrow> scan_lit ''/'' s;
     (psid, s) \<leftarrow> scan_hex 4 s;
     Some \<lparr>ps_name = name, ps_peer_ip = hex_ip ip, ps_peer_port = port, ps_local_tid = tid, ps_local_sid = sid,
           ps_peer_tid = ptid, ps_peer_sid = psid, ps_ifname = None\<rparr> }"

text \<open>\<open>IFACE_RE.match\<close>\<close>

definition iface_match :: "string \<Rightarrow> string option" where
  "iface_match line = do {
     s \<leftarrow> scan_lit ''interface'' (skip_ws line);
     s \<leftarrow> scan_ws s;
     (w, s) \<leftarrow> scan_word (\<lambda>c. \<not> py_space c) s;
     Some w }"

text \<open>One line: the session being read is the last of the list.\<close>

definition proc_line :: "string \<Rightarrow> proc_session list \<Rightarrow> proc_session list" where
  "proc_line line ss =
     (case session_match line of
        Some s \<Rightarrow> ss @ [s]
      | None \<Rightarrow>
          (case iface_match line of
             Some i \<Rightarrow> if ss = [] then ss else butlast ss @ [(last ss)\<lparr>ps_ifname := Some i\<rparr>]
           | None \<Rightarrow> ss))"

definition parse_pppol2tp :: "string \<Rightarrow> proc_session list" where
  "parse_pppol2tp doc = fold proc_line (splitlines doc) []"

section \<open>The kernel's tunnels\<close>

record proc_tunnel =
  pt_local_ip :: "string option"
  pt_peer_ip :: "string option"
  pt_local_port :: nat
  pt_peer_port :: nat

definition tunnel_match :: "string \<Rightarrow> nat option" where
  "tunnel_match line = do {
     s \<leftarrow> scan_lit ''Tunnel'' line;
     s \<leftarrow> scan_ws s;
     (tid, s) \<leftarrow> scan_dec s;
     s \<leftarrow> scan_lit '','' s;
     Some tid }"

definition from_to_match :: "string \<Rightarrow> (string \<times> string) option" where
  "from_to_match line = do {
     s \<leftarrow> scan_lit ''From'' (skip_ws line);
     s \<leftarrow> scan_ws s;
     (loc, s) \<leftarrow> scan_word (\<lambda>c. \<not> py_space c) s;
     s \<leftarrow> scan_ws s;
     s \<leftarrow> scan_lit ''to'' s;
     s \<leftarrow> scan_ws s;
     (peer, s) \<leftarrow> scan_word (\<lambda>c. \<not> py_space c) s;
     Some (loc, peer) }"

definition ports_match :: "string \<Rightarrow> (nat \<times> nat) option" where
  "ports_match s = do {
     s \<leftarrow> scan_lit ''UDP source / dest ports:'' s;
     (sport, s) \<leftarrow> scan_dec (skip_ws s);
     s \<leftarrow> scan_lit ''/'' s;
     (dport, s) \<leftarrow> scan_dec s;
     Some (sport, dport) }"

text \<open>\<open>PORTS_RE.search\<close>: the leftmost position with a match.\<close>

fun ports_search :: "string \<Rightarrow> (nat \<times> nat) option" where
  "ports_search [] = ports_match []"
| "ports_search (c # s) = (case ports_match (c # s) of Some r \<Rightarrow> Some r | None \<Rightarrow> ports_search s)"

text \<open>The tunnel being read is the entry of \<open>cur\<close> in the dictionary.\<close>

definition tunnel_line ::
  "string \<Rightarrow> (nat \<times> proc_tunnel) list \<times> nat option \<Rightarrow> (nat \<times> proc_tunnel) list \<times> nat option" where
  "tunnel_line line st =
     (case st of (ts, cur) \<Rightarrow>
        (case tunnel_match line of
           Some tid \<Rightarrow>
             (AList.update tid \<lparr>pt_local_ip = None, pt_peer_ip = None, pt_local_port = 1701, pt_peer_port = 1701\<rparr> ts, Some tid)
         | None \<Rightarrow>
             (case cur of
                None \<Rightarrow> st
              | Some tid \<Rightarrow>
                  (case from_to_match line of
                     Some (loc, peer) \<Rightarrow>
                       (AList.map_entry tid (\<lambda>t. t\<lparr>pt_local_ip := Some loc, pt_peer_ip := Some peer\<rparr>) ts, cur)
                   | None \<Rightarrow>
                       (case ports_search line of
                          Some (sport, dport) \<Rightarrow>
                            (AList.map_entry tid (\<lambda>t. t\<lparr>pt_local_port := sport, pt_peer_port := dport\<rparr>) ts, cur)
                        | None \<Rightarrow> st)))))"

definition parse_l2tp_tunnels :: "string \<Rightarrow> (nat \<times> proc_tunnel) list" where
  "parse_l2tp_tunnels doc = fst (fold tunnel_line (splitlines doc) ([], None))"

section \<open>What the daemon works on\<close>

text \<open>\<open>inet\<close> reads an address.  A port the kernel prints has 16 bits.\<close>

definition session_of :: "(string \<Rightarrow> ip46_address) \<Rightarrow> proc_session \<Rightarrow> ksession" where
  "session_of inet s =
     \<lparr>ks_peer_ip = inet (ps_peer_ip s), ks_peer_port = of_nat (ps_peer_port s), ks_local_tid = of_nat (ps_local_tid s),
      ks_local_sid = of_nat (ps_local_sid s), ks_peer_tid = of_nat (ps_peer_tid s), ks_peer_sid = of_nat (ps_peer_sid s),
      ks_ifname = ps_ifname s, ks_routes = None, ks_local_ip = None, ks_local_port = None\<rparr>"

definition tunnel_of :: "(string \<Rightarrow> ip46_address) \<Rightarrow> proc_tunnel \<Rightarrow> ktunnel" where
  "tunnel_of inet t =
     \<lparr>kt_local_ip = map_option inet (pt_local_ip t), kt_peer_ip = map_option inet (pt_peer_ip t),
      kt_local_port = of_nat (pt_local_port t), kt_peer_port = of_nat (pt_peer_port t)\<rparr>"

text \<open>\<open>file\<close> is \<^verbatim>\<open>/proc/net/pppol2tp\<close>, \<open>None\<close> where the module that provides it is not loaded.\<close>

definition kernel_sessions :: "(string \<Rightarrow> ip46_address) \<Rightarrow> string option \<Rightarrow> string \<Rightarrow> ksession list" where
  "kernel_sessions inet file show_tunnel =
     (case file of
        None \<Rightarrow> []
      | Some doc \<Rightarrow> merge_tunnel_endpoints (map (session_of inet) (parse_pppol2tp doc))
          (\<lambda>tid. map_option (tunnel_of inet) (map_of (parse_l2tp_tunnels show_tunnel) (unat tid))))"

section \<open>A subscriber's prefixes\<close>

text \<open>\<open>re.finditer\<close> for an expression that matches no empty text.\<close>

function finditer :: "(string \<Rightarrow> ('m \<times> string) option) \<Rightarrow> string \<Rightarrow> 'm list" where
  "finditer m s =
     (case m s of
        Some (x, r) \<Rightarrow> if length r < length s then x # finditer m r else []
      | None \<Rightarrow> (case s of [] \<Rightarrow> [] | _ # s' \<Rightarrow> finditer m s'))"
  by pat_completeness auto
termination by (relation "measure (\<lambda>(m, s). length s)") auto

declare finditer.simps [simp del]

definition inet_peer_match :: "string \<Rightarrow> (string \<times> string) option" where
  "inet_peer_match s = do {
     s \<leftarrow> scan_lit ''inet'' s;
     s \<leftarrow> scan_ws s;
     (_, s) \<leftarrow> scan_word (\<lambda>c. \<not> py_space c) s;
     s \<leftarrow> scan_ws s;
     s \<leftarrow> scan_lit ''peer'' s;
     s \<leftarrow> scan_ws s;
     (peer, s) \<leftarrow> scan_word (\<lambda>c. is_digit c \<or> c = CHR ''.'') s;
     s \<leftarrow> scan_lit ''/32'' s;
     Some (peer, s) }"

definition inet6_peer_match :: "string \<Rightarrow> (string \<times> string) option" where
  "inet6_peer_match s = do {
     s \<leftarrow> scan_lit ''inet6'' s;
     s \<leftarrow> scan_ws s;
     (_, s) \<leftarrow> scan_word (\<lambda>c. is_hex c \<or> c = CHR '':'') s;
     s \<leftarrow> scan_ws s;
     s \<leftarrow> scan_lit ''peer'' s;
     s \<leftarrow> scan_ws s;
     (peer, s) \<leftarrow> scan_word (\<lambda>c. is_hex c \<or> c = CHR '':'') s;
     s \<leftarrow> scan_lit ''/128'' s;
     Some (peer, s) }"

definition lower :: "string \<Rightarrow> string" where
  "lower s = map (\<lambda>c. let n = of_char c :: nat in if 65 \<le> n \<and> n \<le> 90 then char_of (n + 32) else c) s"

definition starts_with :: "string \<Rightarrow> string \<Rightarrow> bool" where
  "starts_with w s \<longleftrightarrow> take (length w) s = w"

text \<open>The prefixes routed at the interface.  A line without a word raises an exception, \<open>None\<close>.\<close>

fun routed_prefixes :: "string list \<Rightarrow> string list option" where
  "routed_prefixes [] = Some []"
| "routed_prefixes (l # ls) =
     (let pfx = takeWhile (\<lambda>c. \<not> py_space c) (skip_ws l) in
      if pfx = [] then None
      else map_option (\<lambda>rs. if CHR ''/'' \<in> set pfx \<and> \<not> starts_with ''fe80'' pfx \<and> \<not> starts_with ''169.254'' pfx then pfx # rs else rs)
        (routed_prefixes ls))"

text \<open>\<open>addr\<close> and \<open>route\<close> are what \<^verbatim>\<open>ip -o addr show dev\<close> and \<^verbatim>\<open>ip -o route show dev\<close> print.\<close>

definition ppp_prefixes :: "string \<Rightarrow> string \<Rightarrow> string list option" where
  "ppp_prefixes addr route =
     (let v4 = map (\<lambda>p. p @ ''/32'') (finditer inet_peer_match addr);
          v6 = map (\<lambda>p. p @ ''/128'') (filter (\<lambda>p. \<not> starts_with ''fe80'' (lower p)) (finditer inet6_peer_match addr))
      in map_option (\<lambda>pd. sorted_list_of_set (set (v4 @ v6 @ pd))) (routed_prefixes (splitlines route)))"

text \<open>\<open>_ppp_routes\<close>: the prefixes of an interface as the API takes them.  \<open>prefix\<close> is \<open>vpp_papi\<close>'s conversion of
  the text.\<close>

definition ppp_routes_of ::
  "(string \<Rightarrow> fib_prefix) \<Rightarrow> (string \<Rightarrow> string) \<Rightarrow> (string \<Rightarrow> string) \<Rightarrow> string \<Rightarrow> fib_prefix list option" where
  "ppp_routes_of prefix addr_show route_show i = map_option (map prefix) (ppp_prefixes (addr_show i) (route_show i))"

text \<open>\<open>run_once\<close>: a daemon made for one pass, on what the kernel has now and the state file \<open>saved\<close>.\<close>

definition run_once ::
  "'v vpp_client \<Rightarrow> ip46_address \<Rightarrow> (fib_prefix set \<Rightarrow> fib_prefix list) \<Rightarrow> (fib_prefix set \<Rightarrow> fib_prefix list)
     \<Rightarrow> (string \<Rightarrow> fib_prefix) \<Rightarrow> (string \<Rightarrow> string) \<Rightarrow> (string \<Rightarrow> string) \<Rightarrow> (string \<Rightarrow> ip46_address)
     \<Rightarrow> string option \<Rightarrow> string \<Rightarrow> ip46_address option \<Rightarrow> u16 \<Rightarrow> string option \<Rightarrow> (skey \<times> installed) list option \<Rightarrow> 'v
     \<Rightarrow> syncd \<times> 'v \<times> (syncd_error + nat \<times> nat)" where
  "run_once c none iter srt prefix addr_show route_show inet file show_tunnel lip lp path saved v =
     reconcile c none iter srt (ppp_routes_of prefix addr_show route_show) True (kernel_sessions inet file show_tunnel)
       (syncd_init lip lp path saved) v"

section \<open>Scanning what was printed\<close>

text \<open>\<open>%X\<close> with a minimal width.\<close>

definition hex_upper :: "nat \<Rightarrow> char" where
  "hex_upper n = char_of (if n < 10 then 48 + n else 55 + n)"

fun hexU :: "nat \<Rightarrow> nat \<Rightarrow> string" where
  "hexU 0 n = []"
| "hexU (Suc w) n = hexU w (n div 16) @ [hex_upper (n mod 16)]"

lemma hex_upper: "n < 16 \<Longrightarrow> is_hex (hex_upper n) \<and> hex_value (hex_upper n) = n"
  by (simp add: hex_upper_def is_hex_def hex_value_def Let_def)

lemma is_hex_not_space: "is_hex c \<Longrightarrow> \<not> py_space c \<and> \<not> line_break c"
  by (auto simp: is_hex_def py_space_def line_break_def Let_def)

lemma is_digit_not_space: "is_digit c \<Longrightarrow> \<not> py_space c \<and> \<not> line_break c"
  by (auto simp: is_digit_def py_space_def line_break_def Let_def)

lemma hexU_length [simp]: "length (hexU w n) = w"
  by (induction w arbitrary: n) simp_all

lemma hexU_hex: "c \<in> set (hexU w n) \<Longrightarrow> is_hex c"
  by (induction w arbitrary: n) (auto simp: hex_upper)

lemma hexU_value: "n < 16 ^ w \<Longrightarrow> hexes_value (hexU w n) = n"
proof (induction w arbitrary: n)
  case (Suc w)
  have "n div 16 < 16 ^ w" using Suc.prems by (simp add: less_mult_imp_div_less mult.commute)
  with Suc.IH [of "n div 16"] hex_upper [of "n mod 16"] show ?case by (simp add: hexes_value_def)
qed (simp add: hexes_value_def)

lemma scan_hexU: "n < 16 ^ w \<Longrightarrow> scan_hex w (hexU w n @ s) = Some (n, s)"
  using hexU_hex by (auto simp: scan_hex_def hexU_value list_all_iff)

lemma scan_word_word:
  assumes "w \<noteq> []" and "\<forall>c \<in> set w. p c" and "s = [] \<or> \<not> p (hd s)"
  shows "scan_word p (w @ s) = Some (w, s)"
proof -
  have "takeWhile p (w @ s) = w" "dropWhile p (w @ s) = s"
    using assms(2,3) by (cases s; simp add: takeWhile_append2 dropWhile_append2 takeWhile_eq_all_conv dropWhile_eq_Nil_conv)+
  with assms(1) show ?thesis by (simp add: scan_word_def)
qed

lemma scan_dec_dec: "s = [] \<or> \<not> is_digit (hd s) \<Longrightarrow> scan_dec (dec n @ s) = Some (n, s)"
  using scan_word_word [of "dec n" is_digit s] dec_simps by (simp add: scan_dec_def)

lemma scan_lit_same [simp]: "scan_lit w (w @ s) = Some s"
  by (induction w) simp_all

lemma skip_ws_simps [simp]: "skip_ws (CHR '' '' # s) = skip_ws s"
  by (simp_all add: skip_ws_def py_space_def)

lemma skip_ws_nonspace: "\<not> py_space c \<Longrightarrow> skip_ws (c # s) = c # s"
  by (simp add: skip_ws_def)

lemma scan_ws_space [simp]: "scan_ws (CHR '' '' # s) = Some (skip_ws s)"
  by (simp add: scan_ws_def py_space_def skip_ws_def)

lemma skip_ws_word: "w \<noteq> [] \<Longrightarrow> \<not> py_space (hd w) \<Longrightarrow> skip_ws (w @ s) = w @ s"
  by (cases w) (simp_all add: skip_ws_def)

lemma skip_ws_hexU: "skip_ws (hexU (Suc w) n @ s) = hexU (Suc w) n @ s"
  using hexU_hex [of "hd (hexU (Suc w) n)" "Suc w" n] hexU_length [of "Suc w" n]
  by (intro skip_ws_word) (metis list.size(3) nat.distinct(1), metis hd_in_set is_hex_not_space list.size(3) nat.distinct(1))

lemma skip_ws_dec: "skip_ws (dec n @ s) = dec n @ s"
  using dec_simps(1) [of "hd (dec n)" n] dec_simps(2) [of n] by (intro skip_ws_word) (simp_all add: is_digit_not_space)

lemma until_char:
  assumes "x \<notin> set w"
  shows "takeWhile (\<lambda>c. c \<noteq> x) (w @ x # s) = w" "dropWhile (\<lambda>c. c \<noteq> x) (w @ x # s) = x # s"
  using assms by (induction w) auto

lemma splitlines_line: "\<forall>c \<in> set l. \<not> line_break c \<Longrightarrow> splitlines (l @ CHR 0x0A # s) = l # splitlines s"
proof (cases l)
  case Nil
  then show ?thesis by (simp add: line_break_def)
next
  case (Cons c cs)
  assume "\<forall>c \<in> set l. \<not> line_break c"
  moreover have "line_break CHR 0x0A" by (simp add: line_break_def)
  ultimately have "takeWhile (\<lambda>x. \<not> line_break x) (l @ CHR 0x0A # s) = l"
    "dropWhile (\<lambda>x. \<not> line_break x) (l @ CHR 0x0A # s) = CHR 0x0A # s"
    by (simp_all add: takeWhile_append2 dropWhile_append2)
  then show ?thesis unfolding Cons by simp
qed

definition unlines :: "string list \<Rightarrow> string" where
  "unlines ls = concat (map (\<lambda>l. l @ [CHR 0x0A]) ls)"

lemma splitlines_unlines: "\<forall>l \<in> set ls. \<forall>c \<in> set l. \<not> line_break c \<Longrightarrow> splitlines (unlines ls) = ls"
  by (induction ls) (simp_all add: unlines_def splitlines_line)

section \<open>The session list is read back\<close>

text \<open>An entry of the file, with the lines around the ones the daemon reads.\<close>

record proc_entry =
  pe_name :: string
  pe_peer_ip :: u32
  pe_peer_port :: u16
  pe_local_tid :: u16
  pe_local_sid :: u16
  pe_peer_tid :: u16
  pe_peer_sid :: u16
  pe_tail :: string
  pe_ifname :: "string option"
  pe_between :: "string list"
  pe_after :: "string list"

definition session_line :: "proc_entry \<Rightarrow> string" where
  "session_line e =
     ''  SESSION '' @ [CHR 0x27] @ pe_name e @ [CHR 0x27] @ '' '' @ hexU 8 (unat (pe_peer_ip e)) @ ''/'' @ dec_u (pe_peer_port e)
     @ '' '' @ hexU 4 (unat (pe_local_tid e)) @ ''/'' @ hexU 4 (unat (pe_local_sid e)) @ '' -> '' @ hexU 4 (unat (pe_peer_tid e))
     @ ''/'' @ hexU 4 (unat (pe_peer_sid e)) @ pe_tail e"

definition iface_line :: "string \<Rightarrow> string" where
  "iface_line i = ''   interface '' @ i"

definition entry_lines :: "proc_entry \<Rightarrow> string list" where
  "entry_lines e = session_line e # pe_between e
     @ (case pe_ifname e of None \<Rightarrow> [] | Some i \<Rightarrow> [iface_line i]) @ pe_after e"

definition proc_noise :: "string \<Rightarrow> bool" where
  "proc_noise l \<longleftrightarrow> session_match l = None \<and> iface_match l = None \<and> (\<forall>c \<in> set l. \<not> line_break c)"

definition entry_ok :: "proc_entry \<Rightarrow> bool" where
  "entry_ok e \<longleftrightarrow> CHR 0x27 \<notin> set (pe_name e) \<and> (\<forall>c \<in> set (pe_name e @ pe_tail e). \<not> line_break c)
     \<and> (case pe_ifname e of None \<Rightarrow> True | Some i \<Rightarrow> i \<noteq> [] \<and> (\<forall>c \<in> set i. \<not> py_space c))
     \<and> list_all proc_noise (pe_between e @ pe_after e)"

definition entry_session :: "proc_entry \<Rightarrow> proc_session" where
  "entry_session e =
     \<lparr>ps_name = pe_name e, ps_peer_ip = hex_ip (unat (pe_peer_ip e)), ps_peer_port = unat (pe_peer_port e),
      ps_local_tid = unat (pe_local_tid e), ps_local_sid = unat (pe_local_sid e), ps_peer_tid = unat (pe_peer_tid e),
      ps_peer_sid = unat (pe_peer_sid e), ps_ifname = pe_ifname e\<rparr>"

lemma hexU4: "scan_hex 4 (hexU 4 (unat (x :: u16)) @ s) = Some (unat x, s)" "scan_hex 8 (hexU 8 (unat (y :: u32)) @ s) = Some (unat y, s)"
  using unat_u16_less [of x] unat_u32_less [of y] by (simp_all add: scan_hexU del: hexU.simps)

lemma skip_hexU: "skip_ws (hexU 4 n @ s) = hexU 4 n @ s" "skip_ws (hexU 8 n @ s) = hexU 8 n @ s"
  using skip_ws_hexU [of 3 n s] skip_ws_hexU [of 7 n s] by (simp_all add: eval_nat_numeral del: hexU.simps)

lemma session_match_line:
  assumes "entry_ok e" shows "session_match (session_line e) = Some ((entry_session e)\<lparr>ps_ifname := None\<rparr>)"
proof -
  have name: "takeWhile (\<lambda>c. c \<noteq> CHR 0x27) (pe_name e @ CHR 0x27 # s) = pe_name e"
    "dropWhile (\<lambda>c. c \<noteq> CHR 0x27) (pe_name e @ CHR 0x27 # s) = CHR 0x27 # s" for s
    using assms until_char [of "CHR 0x27" "pe_name e" s] by (simp_all add: entry_ok_def)
  have "\<not> is_digit CHR '' ''" by (simp add: is_digit_def)
  then have port: "scan_dec (dec_u (pe_peer_port e) @ CHR '' '' # s) = Some (unat (pe_peer_port e), CHR '' '' # s)" for s
    using scan_dec_dec [of "CHR '' '' # s"] by (simp add: dec_u_def)
  show ?thesis
    by (simp add: session_match_def session_line_def name port hexU4 skip_hexU entry_session_def skip_ws_nonspace py_space_def
        del: hexU.simps)
qed

lemma iface_match_line:
  assumes "i \<noteq> []" and "\<forall>c \<in> set i. \<not> py_space c"
  shows "proc_line (iface_line i) (ss @ [x]) = ss @ [x\<lparr>ps_ifname := Some i\<rparr>]"
proof -
  have i: "skip_ws i = i" "scan_word (\<lambda>c. \<not> py_space c) i = Some (i, [])"
    using assms skip_ws_word [of i "[]"] scan_word_word [of i "\<lambda>c. \<not> py_space c" "[]"] by simp_all
  have "session_match (iface_line i) = None" "iface_match (iface_line i) = Some i"
    using i by (simp_all add: iface_line_def session_match_def iface_match_def skip_ws_nonspace py_space_def)
  then show ?thesis by (simp add: proc_line_def)
qed

lemma proc_noise_fold: "list_all proc_noise ls \<Longrightarrow> fold proc_line ls ss = ss"
  by (induction ls) (simp_all add: proc_noise_def proc_line_def)

lemma entry_fold:
  assumes "entry_ok e" shows "fold proc_line (entry_lines e) ss = ss @ [entry_session e]"
proof -
  have "fold proc_line (session_line e # pe_between e) ss = ss @ [(entry_session e)\<lparr>ps_ifname := None\<rparr>]"
    using assms proc_noise_fold by (simp add: proc_line_def session_match_line entry_ok_def)
  moreover have "fold proc_line (pe_after e) zs = zs" for zs using assms proc_noise_fold by (simp add: entry_ok_def)
  ultimately show ?thesis
    using assms by (cases "pe_ifname e") (simp_all add: entry_lines_def entry_ok_def iface_match_line entry_session_def)
qed

lemma entry_no_break:
  assumes "entry_ok e" and "l \<in> set (entry_lines e)" and "c \<in> set l"
  shows "\<not> line_break c"
proof -
  have "\<not> line_break c" if "c \<in> set (session_line e)" for c
    using that assms(1) hexU_hex is_hex_not_space dec_simps(1) is_digit_not_space
    by (auto simp: session_line_def entry_ok_def dec_u_def line_break_def simp del: hexU.simps)
  moreover have "\<not> line_break c" if "py_space c = False" for c using that by (auto simp: py_space_def line_break_def Let_def)
  ultimately show ?thesis
    using assms by (auto simp: entry_lines_def entry_ok_def list_all_iff proc_noise_def iface_line_def line_break_def split: option.splits)
qed

lemma parse_entries:
  assumes "list_all proc_noise hdr" and "list_all entry_ok es"
  shows "parse_pppol2tp (unlines (hdr @ concat (map entry_lines es))) = map entry_session es"
proof -
  have "fold proc_line (concat (map entry_lines es)) ss = ss @ map entry_session es" for ss
    using assms(2) by (induction es arbitrary: ss) (simp_all add: entry_fold)
  moreover have "splitlines (unlines (hdr @ concat (map entry_lines es))) = hdr @ concat (map entry_lines es)"
    using assms entry_no_break by (intro splitlines_unlines) (fastforce simp: list_all_iff proc_noise_def)
  ultimately show ?thesis using proc_noise_fold [OF assms(1)] by (simp add: parse_pppol2tp_def)
qed

section \<open>The tunnel list is read back\<close>

record show_entry =
  se_tid :: nat
  se_tail :: string
  se_local :: string
  se_peer :: string
  se_local_port :: u16
  se_peer_port :: u16
  se_between :: "string list"
  se_after :: "string list"

definition head_line :: "show_entry \<Rightarrow> string" where
  "head_line e = ''Tunnel '' @ dec (se_tid e) @ '','' @ se_tail e"

definition from_line :: "show_entry \<Rightarrow> string" where
  "from_line e = ''  From '' @ se_local e @ '' to '' @ se_peer e"

definition ports_line :: "show_entry \<Rightarrow> string" where
  "ports_line e = ''  UDP source / dest ports: '' @ dec_u (se_local_port e) @ ''/'' @ dec_u (se_peer_port e)"

definition show_lines :: "show_entry \<Rightarrow> string list" where
  "show_lines e = head_line e # from_line e # se_between e @ ports_line e # se_after e"

definition show_noise :: "string \<Rightarrow> bool" where
  "show_noise l \<longleftrightarrow> tunnel_match l = None \<and> from_to_match l = None \<and> ports_search l = None \<and> (\<forall>c \<in> set l. \<not> line_break c)"

definition show_ok :: "show_entry \<Rightarrow> bool" where
  "show_ok e \<longleftrightarrow> (\<forall>c \<in> set (se_tail e). \<not> line_break c) \<and> se_local e \<noteq> [] \<and> se_peer e \<noteq> []
     \<and> (\<forall>c \<in> set (se_local e @ se_peer e). \<not> py_space c) \<and> list_all show_noise (se_between e @ se_after e)"

definition show_tunnel :: "show_entry \<Rightarrow> proc_tunnel" where
  "show_tunnel e = \<lparr>pt_local_ip = Some (se_local e), pt_peer_ip = Some (se_peer e),
     pt_local_port = unat (se_local_port e), pt_peer_port = unat (se_peer_port e)\<rparr>"

lemma map_entry_update: "AList.map_entry k f (AList.update k v al) = AList.update k (f v) al"
  by (induction al) auto

lemma update_new: "k \<notin> fst ` set al \<Longrightarrow> AList.update k v al = al @ [(k, v)]"
  by (induction al) auto

lemma head_match: "tunnel_match (head_line e) = Some (se_tid e)"
proof -
  have "\<not> is_digit CHR '',''" by (simp add: is_digit_def)
  then show ?thesis
    using scan_dec_dec [of "CHR '','' # se_tail e" "se_tid e"]
    by (simp add: tunnel_match_def head_line_def skip_ws_dec)
qed

lemma from_match:
  assumes "show_ok e"
  shows "tunnel_match (from_line e) = None" "from_to_match (from_line e) = Some (se_local e, se_peer e)"
proof -
  have "scan_word (\<lambda>c. \<not> py_space c) (se_local e @ CHR '' '' # s) = Some (se_local e, CHR '' '' # s)" for s
    using assms by (intro scan_word_word) (auto simp: show_ok_def py_space_def)
  moreover have "scan_word (\<lambda>c. \<not> py_space c) (se_peer e) = Some (se_peer e, [])"
    using assms scan_word_word [of "se_peer e" "\<lambda>c. \<not> py_space c" "[]"] by (simp add: show_ok_def)
  moreover have "skip_ws (se_local e @ s) = se_local e @ s" "skip_ws (se_peer e) = se_peer e" for s
    using assms skip_ws_word [of "se_local e" s] skip_ws_word [of "se_peer e" "[]"] by (simp_all add: show_ok_def)
  ultimately show "tunnel_match (from_line e) = None" "from_to_match (from_line e) = Some (se_local e, se_peer e)"
    by (simp_all add: tunnel_match_def from_to_match_def from_line_def skip_ws_nonspace py_space_def)
qed

lemma ports_match_line:
  "tunnel_match (ports_line e) = None" "from_to_match (ports_line e) = None"
  "ports_search (ports_line e) = Some (unat (se_local_port e), unat (se_peer_port e))"
proof -
  have "\<not> is_digit CHR ''/''" by (simp add: is_digit_def)
  then have "scan_dec (dec_u (se_local_port e) @ CHR ''/'' # s) = Some (unat (se_local_port e), CHR ''/'' # s)"
    "scan_dec (dec_u (se_peer_port e)) = Some (unat (se_peer_port e), [])"
    "skip_ws (dec_u (se_local_port e) @ s) = dec_u (se_local_port e) @ s" for s
    using scan_dec_dec [of "CHR ''/'' # s"] scan_dec_dec [of "[]"] by (simp_all add: dec_u_def skip_ws_dec)
  then show "tunnel_match (ports_line e) = None" "from_to_match (ports_line e) = None"
    "ports_search (ports_line e) = Some (unat (se_local_port e), unat (se_peer_port e))"
    by (simp_all add: tunnel_match_def from_to_match_def ports_match_def ports_line_def skip_ws_nonspace py_space_def)
qed

lemma show_noise_fold: "list_all show_noise ls \<Longrightarrow> fold tunnel_line ls (ts, Some tid) = (ts, Some tid)"
  by (induction ls) (simp_all add: show_noise_def tunnel_line_def)

lemma show_fold:
  assumes "show_ok e" shows "fold tunnel_line (show_lines e) (ts, cur) = (AList.update (se_tid e) (show_tunnel e) ts, Some (se_tid e))"
  using assms show_noise_fold
  by (simp add: show_lines_def show_ok_def tunnel_line_def [of "head_line e"] tunnel_line_def [of "from_line e"]
      tunnel_line_def [of "ports_line e"] head_match from_match [OF assms] ports_match_line map_entry_update show_tunnel_def)

lemma show_no_break:
  assumes "show_ok e" and "l \<in> set (show_lines e)" and "c \<in> set l"
  shows "\<not> line_break c"
proof -
  have sp: "\<not> line_break c" if "\<not> py_space c" for c using that by (auto simp: py_space_def line_break_def Let_def)
  have "\<not> line_break c" if "c \<in> set (head_line e) \<union> set (from_line e) \<union> set (ports_line e)" for c
    using that assms(1) dec_simps(1) is_digit_not_space sp
    by (auto simp: head_line_def from_line_def ports_line_def show_ok_def dec_u_def line_break_def)
  then show ?thesis using assms by (auto simp: show_lines_def show_ok_def list_all_iff show_noise_def)
qed

lemma parse_shown:
  assumes "list_all show_ok es" and "distinct (map se_tid es)"
  shows "parse_l2tp_tunnels (unlines (concat (map show_lines es))) = map (\<lambda>e. (se_tid e, show_tunnel e)) es"
proof -
  have "fst (fold tunnel_line (concat (map show_lines es)) (ts, cur)) = ts @ map (\<lambda>e. (se_tid e, show_tunnel e)) es"
    if "\<forall>e \<in> set es. se_tid e \<notin> fst ` set ts" for ts cur
    using assms that
  proof (induction es arbitrary: ts cur)
    case (Cons e es)
    have "se_tid e \<notin> fst ` set ts" using Cons.prems(3) by simp
    moreover have "\<forall>f \<in> set es. se_tid f \<notin> fst ` set (ts @ [(se_tid e, show_tunnel e)])"
      using Cons.prems(2,3) by (auto simp: image_iff)
    ultimately show ?case
      using Cons.IH [of "ts @ [(se_tid e, show_tunnel e)]" "Some (se_tid e)"] Cons.prems by (simp add: show_fold update_new)
  qed simp
  moreover have "splitlines (unlines (concat (map show_lines es))) = concat (map show_lines es)"
    using assms(1) show_no_break by (intro splitlines_unlines) (fastforce simp: list_all_iff)
  ultimately show ?thesis by (simp add: parse_l2tp_tunnels_def)
qed

section \<open>Prefixes\<close>

lemma finditer_all:
  assumes "\<And>s x r. m s = Some (x, r) \<Longrightarrow> P x" and "x \<in> set (finditer m s)" shows "P x"
  using assms(2)
proof (induction s rule: measure_induct_rule [where f = length])
  case (less s)
  from less.prems show ?case
    by (subst (asm) finditer.simps) (auto dest: assms(1) less.IH [rotated] split: option.splits list.splits prod.splits if_splits)
qed

lemma scan_word_set: "scan_word p s = Some (w, r) \<Longrightarrow> w \<noteq> [] \<and> (\<forall>c \<in> set w. p c)"
  by (auto simp: scan_word_def dest: set_takeWhileD split: if_splits)

lemma routed_prefixes_facts:
  "routed_prefixes ls = Some ps \<Longrightarrow> p \<in> set ps \<Longrightarrow> CHR ''/'' \<in> set p \<and> \<not> starts_with ''fe80'' p"
  by (induction ls arbitrary: ps) (auto simp: Let_def split: if_splits)

text \<open>A subscriber's prefixes are sorted, without duplicates, all with a length, and none is link-local.\<close>

lemma ppp_prefixes_facts:
  assumes "ppp_prefixes addr route = Some ps"
  shows "sorted ps" "distinct ps" "p \<in> set ps \<Longrightarrow> CHR ''/'' \<in> set p \<and> \<not> starts_with ''fe80'' p"
proof -
  obtain pd where pd: "routed_prefixes (splitlines route) = Some pd"
    and ps: "ps = sorted_list_of_set (set (map (\<lambda>p. p @ ''/32'') (finditer inet_peer_match addr)
      @ map (\<lambda>p. p @ ''/128'') (filter (\<lambda>p. \<not> starts_with ''fe80'' (lower p)) (finditer inet6_peer_match addr)) @ pd))"
    using assms by (auto simp: ppp_prefixes_def Let_def)
  show "sorted ps" "distinct ps" unfolding ps by simp_all
  have digits: "\<forall>c \<in> set q. is_digit c \<or> c = CHR ''.''" if "q \<in> set (finditer inet_peer_match addr)" for q
    by (rule finditer_all [OF _ that])
      (auto simp: inet_peer_match_def bind_eq_Some_conv dest!: scan_word_set)
  have v4: "\<not> starts_with ''fe80'' (q @ ''/32'')" if "q \<in> set (finditer inet_peer_match addr)" for q
    using digits [OF that] by (cases q) (auto simp: starts_with_def is_digit_def)
  have v6: "starts_with ''fe80'' (lower q)" if "starts_with ''fe80'' (q @ ''/128'')" for q
  proof -
    have t: "take 4 (q @ ''/128'') = ''fe80''" using that by (simp add: starts_with_def eval_nat_numeral)
    have "4 \<le> length q"
    proof (rule ccontr)
      assume "\<not> 4 \<le> length q"
      then have "CHR ''/'' \<in> set (take 4 (q @ ''/128''))" by (cases "4 - length q") simp_all
      then show False unfolding t by simp
    qed
    then have "take 4 q = ''fe80''" using t by simp
    then show ?thesis by (simp add: starts_with_def lower_def take_map eval_nat_numeral)
  qed
  have r: "CHR ''/'' \<in> set q \<and> \<not> starts_with ''fe80'' q" if "q \<in> set pd" for q
    using routed_prefixes_facts [OF pd that] .
  show "CHR ''/'' \<in> set p \<and> \<not> starts_with ''fe80'' p" if "p \<in> set ps"
    using that v4 v6 r unfolding ps by auto
qed

section \<open>What the kernel printed\<close>

text \<open>The session of an entry of the file, with the endpoints of its tunnel where the tunnel list has it.\<close>

definition entry_ksession :: "(string \<Rightarrow> ip46_address) \<Rightarrow> show_entry list \<Rightarrow> proc_entry \<Rightarrow> ksession" where
  "entry_ksession inet shown e =
     (let t = find (\<lambda>t. se_tid t = unat (pe_local_tid e)) shown in
      \<lparr>ks_peer_ip = (case t of Some t \<Rightarrow> inet (se_peer t) | None \<Rightarrow> inet (hex_ip (unat (pe_peer_ip e)))),
       ks_peer_port = (case t of Some t \<Rightarrow> se_peer_port t | None \<Rightarrow> pe_peer_port e),
       ks_local_tid = pe_local_tid e, ks_local_sid = pe_local_sid e, ks_peer_tid = pe_peer_tid e,
       ks_peer_sid = pe_peer_sid e, ks_ifname = pe_ifname e, ks_routes = None,
       ks_local_ip = map_option (inet \<circ> se_local) t, ks_local_port = map_option se_local_port t\<rparr>)"

lemma map_of_shown: "map_of (map (\<lambda>e. (se_tid e, show_tunnel e)) es) k = map_option show_tunnel (find (\<lambda>t. se_tid t = k) es)"
  by (induction es) simp_all

lemma kernel_sessions_printed:
  assumes "list_all proc_noise hdr" and "list_all entry_ok es" and "list_all show_ok shown" and "distinct (map se_tid shown)"
  shows "kernel_sessions inet (Some (unlines (hdr @ concat (map entry_lines es)))) (unlines (concat (map show_lines shown))) =
    map (entry_ksession inet shown) es"
proof -
  have "merge_endpoints (\<lambda>tid. map_option (tunnel_of inet) (map_option show_tunnel (find (\<lambda>t. se_tid t = unat tid) shown)))
      (session_of inet (entry_session e)) = entry_ksession inet shown e" for e
    by (cases "find (\<lambda>t. se_tid t = unat (pe_local_tid e)) shown")
      (simp_all add: merge_endpoints_def session_of_def tunnel_of_def show_tunnel_def entry_session_def entry_ksession_def Let_def)
  then show ?thesis
    by (simp add: kernel_sessions_def parse_entries [OF assms(1,2)] parse_shown [OF assms(3,4)] map_of_shown
        merge_tunnel_endpoints_def)
qed

text \<open>Claim C27: (roundtrip) the daemon reads what the kernel prints: for any list of sessions in the format of
  \<^verbatim>\<open>/proc/net/pppol2tp\<close> and any list of tunnels in the format of \<^verbatim>\<open>ip l2tp show tunnel\<close>, with any other lines
  in between that are neither, the session list is exactly the printed one, in order, every id, port and
  interface name as printed, and both endpoints taken from the tunnel list where it has the tunnel.\<close>

theorem kernel_text_read_back:
  assumes "list_all proc_noise hdr" and "list_all entry_ok es" and "list_all show_ok shown" and "distinct (map se_tid shown)"
  shows "kernel_sessions inet (Some (unlines (hdr @ concat (map entry_lines es)))) (unlines (concat (map show_lines shown))) =
    map (entry_ksession inet shown) es"
  by (rule kernel_sessions_printed [OF assms])

definition ex_entry :: proc_entry where
  "ex_entry = \<lparr>pe_name = ''sess 5430/115'', pe_peer_ip = 0x0A420001, pe_peer_port = 1701, pe_local_tid = 5430,
     pe_local_sid = 115, pe_peer_tid = 2, pe_peer_sid = 79, pe_tail = '' 3 Y'', pe_ifname = Some ''l2tp155'',
     pe_between = [''   state 4, uptime 12''], pe_after = []\<rparr>"

definition ex_show :: show_entry where
  "ex_show = \<lparr>se_tid = 5430, se_tail = '' encap UDP'', se_local = ''10.66.0.1'', se_peer = ''10.66.0.2'',
     se_local_port = 1701, se_peer_port = 1701, se_between = [''  Peer tunnel 2''], se_after = []\<rparr>"

lemma ex_entry_ok: "list_all entry_ok [ex_entry]"
  by (simp add: ex_entry_def entry_ok_def proc_noise_def session_match_def iface_match_def skip_ws_def py_space_def line_break_def)

lemma ex_entry_sel: "pe_local_tid ex_entry = 5430" "pe_local_sid ex_entry = 115" "pe_ifname ex_entry = Some ''l2tp155''"
  by (simp_all add: ex_entry_def)

lemma ex_show_ok: "list_all show_ok [ex_show]"
  by (simp add: ex_show_def show_ok_def show_noise_def tunnel_match_def from_to_match_def ports_match_def skip_ws_def
      py_space_def line_break_def)

theorem kernel_text_read_back_witness:
  "\<exists>s. kernel_sessions (\<lambda>a. \<lparr>ip46_pad = 0, ip46_ip4 = of_nat (length a)\<rparr>)
      (Some (unlines ([''PPPoL2TP driver info, V2.0''] @ concat (map entry_lines [ex_entry]))))
      (unlines (concat (map show_lines [ex_show]))) = [s]
    \<and> session_key s = (5430, 115) \<and> ks_peer_sid s = 79 \<and> ks_ifname s = Some ''l2tp155'' \<and> ks_local_port s = Some 1701"
proof -
  have "list_all proc_noise [''PPPoL2TP driver info, V2.0'']"
    by (simp add: proc_noise_def session_match_def iface_match_def skip_ws_def py_space_def line_break_def)
  moreover note ex_entry_ok ex_show_ok
  moreover have "distinct (map se_tid [ex_show])" by simp
  ultimately show ?thesis
    by (simp only: kernel_text_read_back)
      (simp add: entry_ksession_def ex_entry_def ex_show_def session_key_def Let_def)
qed

end
