(* ===== verification/Syncd_Properties.thy ===== *)
theory Syncd_Properties
  imports Syncd
begin

text \<open>
  The daemon makes VPP match the kernel.  The locale \<open>lns_client\<close> is the contract between the daemon and
  the plugin's API, in terms of the specification of \<open>Control_Spec\<close> and the set of installed routes; the
  reconcile pass is proved correct in it once, and the interpretation on the plugin's own operations
  discharges the contract.
\<close>

section \<open>Dictionaries\<close>

lemma map_of_fold_update:
  assumes "map_of (fold (\<lambda>x. AList.update (f x) (g x)) xs al) k = Some y"
  shows "map_of al k = Some y \<or> (\<exists>x \<in> set xs. f x = k \<and> g x = y)"
  using assms
proof (induction xs arbitrary: al)
  case (Cons x xs)
  then show ?case by (fastforce simp: update_conv' split: if_splits)
qed simp

lemma dom_fold_update: "fst ` set (fold (\<lambda>x. AList.update (f x) (g x)) xs al) = fst ` set al \<union> f ` set xs"
  by (induction xs arbitrary: al) (auto simp: dom_update)

lemma distinct_fold_update:
  "distinct (map fst al) \<Longrightarrow> distinct (map fst (fold (\<lambda>x. AList.update (f x) (g x)) xs al))"
  by (induction xs arbitrary: al) (auto simp: distinct_update)

lemma keys_delete: "fst ` set (AList.delete k al) = fst ` set al - {k}"
  using arg_cong [OF delete_keys [of k al], of set] by simp

lemma restrict_outside:
  assumes "\<And>i t. m i = Some t \<Longrightarrow> i \<in> B" shows "m |` (A \<union> - B) = m |` A"
proof (rule ext)
  show "(m |` (A \<union> - B)) i = (m |` A) i" for i
    using assms [of i] by (cases "m i") (auto simp: restrict_map_def)
qed

lemma map_of_dom: "(\<exists>y. map_of al k = Some y) \<longleftrightarrow> k \<in> fst ` set al"
  using map_of_eq_None_iff [of al k] by auto

lemma wanted_facts:
  "distinct (map fst (wanted ks))" "fst ` set (wanted ks) = session_key ` {s \<in> set ks. ks_ifname s \<noteq> None}"
  "(k, s) \<in> set (wanted ks) \<Longrightarrow> s \<in> set ks \<and> ks_ifname s \<noteq> None \<and> session_key s = k"
proof -
  show d: "distinct (map fst (wanted ks))" unfolding wanted_def by (rule distinct_fold_update) simp
  show "fst ` set (wanted ks) = session_key ` {s \<in> set ks. ks_ifname s \<noteq> None}"
    unfolding wanted_def by (subst dom_fold_update) auto
  assume "(k, s) \<in> set (wanted ks)"
  then have "map_of (wanted ks) k = Some s" using d by simp
  then show "s \<in> set ks \<and> ks_ifname s \<noteq> None \<and> session_key s = k"
    unfolding wanted_def by (auto dest!: map_of_fold_update)
qed

section \<open>In step\<close>

definition tn_key :: "tunnel_spec \<Rightarrow> tkey" where
  "tn_key t = (tn_peer_ip t, tn_peer_port t, tn_local_tid t)"

text \<open>The session \<open>k\<close> is in VPP the way the daemon's record \<open>r\<close> has it.\<close>

definition installed_as :: "lns \<Rightarrow> skey \<Rightarrow> installed \<Rightarrow> bool" where
  "installed_as st k r \<longleftrightarrow> (\<exists>x t. lns_sessions st k = Some x \<and> lns_tunnels st (sn_tunnel x) = Some t
     \<and> sn_tunnel x = in_tunnel_index r \<and> sn_sw_if_index x = in_sw_if_index r \<and> sn_peer_sid x = in_peer_sid r
     \<and> in_local_sid r = snd k \<and> tn_local_tid t = fst k \<and> tn_key t = in_tunnel_key r)"

definition routes_in :: "(skey \<rightharpoonup> installed) \<Rightarrow> (fib_prefix \<times> u32) set" where
  "routes_in m = (\<Union>r \<in> ran m. set (in_routes r) \<times> {in_sw_if_index r})"

text \<open>VPP has exactly what the daemon has recorded.\<close>

definition in_step :: "lns \<Rightarrow> (fib_prefix \<times> u32) set \<Rightarrow> (skey \<times> installed) list \<Rightarrow> bool" where
  "in_step st routes ins \<longleftrightarrow> distinct (map fst ins) \<and> dom (lns_sessions st) = fst ` set ins
     \<and> (\<forall>k r. map_of ins k = Some r \<longrightarrow> installed_as st k r) \<and> routes = routes_in (map_of ins)"

text \<open>What the kernel has to be like for a session to be installed: the endpoints are IPv4 and known, and a
  local tunnel id stands for one tunnel.\<close>

definition local_ip_of :: "syncd \<Rightarrow> ksession \<Rightarrow> ip46_address option" where
  "local_ip_of sd s = (case ks_local_ip s of Some ip \<Rightarrow> Some ip | None \<Rightarrow> sd_local_ip sd)"

definition endpoints_ok :: "syncd \<Rightarrow> ksession \<Rightarrow> bool" where
  "endpoints_ok sd s \<longleftrightarrow> (\<exists>ip. local_ip_of sd s = Some ip \<and> ip46_address_is_ip4 ip) \<and> ip46_address_is_ip4 (ks_peer_ip s)"

definition lns_keys :: "lns \<Rightarrow> tkey set" where
  "lns_keys st = tn_key ` ran (lns_tunnels st)"

definition tids_agree :: "tkey set \<Rightarrow> bool" where
  "tids_agree ks \<longleftrightarrow> inj_on (snd \<circ> snd) ks"

lemma installed_upd:
  "sd_installed (sd\<lparr>sd_installed := ins\<rparr>) = ins"
  "sd\<lparr>sd_installed := ins, sd_installed := ins'\<rparr> = sd\<lparr>sd_installed := ins'\<rparr>"
  by simp_all

lemma endpoints_ok_installed [simp]: "endpoints_ok (sd\<lparr>sd_installed := ins\<rparr>) s = endpoints_ok sd s"
  by (cases "ks_local_ip s") (simp_all add: endpoints_ok_def local_ip_of_def)

text \<open>What a pass makes of a session the kernel has: \<open>old\<close> is the daemon's record before the pass.\<close>

definition session_done :: "(string \<Rightarrow> fib_prefix list option) \<Rightarrow> bool \<Rightarrow> ksession \<Rightarrow> installed option \<Rightarrow> installed \<Rightarrow> bool" where
  "session_done ppp_routes sync s old r \<longleftrightarrow>
     (case old of
        None \<Rightarrow> in_peer_sid r = ks_peer_sid s \<and> in_tunnel_key r = tunnel_key s \<and> routes_of ppp_routes s = Some (in_routes r)
      | Some q \<Rightarrow> r = q\<lparr>in_routes := in_routes r\<rparr>
          \<and> (if sync then map_option set (routes_of ppp_routes s) = Some (set (in_routes r))
             else set (in_routes r) = set (in_routes q)))"

definition want_done ::
  "(string \<Rightarrow> fib_prefix list option) \<Rightarrow> bool \<Rightarrow> (skey \<times> ksession) list \<Rightarrow> (skey \<rightharpoonup> installed) \<Rightarrow> (skey \<rightharpoonup> installed) \<Rightarrow> bool" where
  "want_done ppp_routes sync want old new \<longleftrightarrow>
     (\<forall>k. case map_of want k of None \<Rightarrow> new k = old k
       | Some s \<Rightarrow> \<exists>r. new k = Some r \<and> session_done ppp_routes sync s (old k) r)"

lemma want_done_Cons:
  assumes "want_done ppp_routes sync want (old(k \<mapsto> r)) new" and "map_of want k = None"
    and "session_done ppp_routes sync s (old k) r"
  shows "want_done ppp_routes sync ((k, s) # want) old new"
  unfolding want_done_def
proof
  fix l
  show "case map_of ((k, s) # want) l of None \<Rightarrow> new l = old l
      | Some s \<Rightarrow> \<exists>r. new l = Some r \<and> session_done ppp_routes sync s (old l) r"
    using assms(1) [unfolded want_done_def, rule_format, of l] assms(2,3)
    by (cases "l = k"; cases "map_of want l") simp_all
qed

text \<open>The sessions of \<open>want\<close> a pass installs.\<close>

definition to_add :: "(skey \<times> installed) list \<Rightarrow> (skey \<times> ksession) list \<Rightarrow> (skey \<times> ksession) list" where
  "to_add ins want = filter (\<lambda>(k, s). map_of ins k = None) want"

lemma to_add_update:
  assumes "distinct (map fst ((k, s) # want))" and "map_of ins' = (map_of ins)(k \<mapsto> r)"
  shows "to_add ins' want = to_add ins want"
  unfolding to_add_def using assms by (intro filter_cong) force+

text \<open>What the kernel has to be like for a pass: every new session has an IPv4 address at both ends, a local tunnel
  id stands for one tunnel, there are fewer than \<open>2 ^ 32\<close> sessions, and the prefixes of the interfaces the pass
  asks for (those of new sessions, and of all when routes are synchronised) can be read.\<close>

definition kernel_ok ::
  "(string \<Rightarrow> fib_prefix list option) \<Rightarrow> bool \<Rightarrow> syncd \<Rightarrow> lns \<Rightarrow> ksession list \<Rightarrow> bool" where
  "kernel_ok ppp_routes sync sd st ks \<longleftrightarrow>
     (let new = to_add (sd_installed sd) (wanted ks)
      in (\<forall>(k, s) \<in> set new. endpoints_ok sd s) \<and> tids_agree (lns_keys st \<union> tunnel_key ` snd ` set new)
         \<and> length (sd_installed sd) + length ks < 2 ^ 32
         \<and> (\<forall>(k, s) \<in> set (if sync then wanted ks else new). routes_of ppp_routes s \<noteq> None))"

lemma length_wanted: "length (wanted ks) \<le> length ks"
proof -
  have "length (wanted ks) = card (fst ` set (wanted ks))"
    using distinct_card [OF wanted_facts(1), of ks] by simp
  also have "\<dots> \<le> card (session_key ` set ks)" unfolding wanted_facts(2) by (rule card_mono) auto
  also have "\<dots> \<le> length ks" using card_image_le [of "set ks"] card_length [of ks] by (meson List.finite_set le_trans)
  finally show ?thesis .
qed

text \<open>The daemon's tunnel cache during a pass.\<close>

definition cache_ok :: "lns \<Rightarrow> (tkey \<times> u32) list \<Rightarrow> bool" where
  "cache_ok st cache \<longleftrightarrow> (\<forall>tk i. map_of cache tk = Some i \<longleftrightarrow> (\<exists>t. lns_tunnels st i = Some t \<and> tn_key t = tk))"

lemma cache_okD: "cache_ok st cache \<Longrightarrow> map_of cache tk = Some i \<longleftrightarrow> (\<exists>t. lns_tunnels st i = Some t \<and> tn_key t = tk)"
  unfolding cache_ok_def by blast

lemma tn_key_tid: "snd (snd (tn_key t)) = tn_local_tid t"
  by (simp add: tn_key_def)

lemma tids_agreeD: "tids_agree ks \<Longrightarrow> a \<in> ks \<Longrightarrow> b \<in> ks \<Longrightarrow> snd (snd a) = snd (snd b) \<Longrightarrow> a = b"
  by (auto simp: tids_agree_def inj_on_def)

lemma tids_agree_mono: "tids_agree ks \<Longrightarrow> js \<subseteq> ks \<Longrightarrow> tids_agree js"
  unfolding tids_agree_def by (rule inj_on_subset)

lemma lns_keysI: "lns_tunnels st i = Some t \<Longrightarrow> tn_key t \<in> lns_keys st"
  by (auto simp: lns_keys_def ran_def)

lemma in_step_sessions:
  assumes "in_step st routes ins"
  shows "lns_sessions st k = None \<longleftrightarrow> map_of ins k = None"
  using assms domIff [of k "lns_sessions st"] map_of_eq_None_iff [of ins k] by (simp add: in_step_def)

lemma in_stepD:
  assumes "in_step st routes ins" and "map_of ins k = Some r"
  shows "installed_as st k r"
  using assms unfolding in_step_def by blast

lemma routes_in_upd:
  assumes "m k = None"
  shows "routes_in (m(k \<mapsto> r)) = set (in_routes r) \<times> {in_sw_if_index r} \<union> routes_in m"
  using assms by (simp add: routes_in_def)

lemma installed_as_frame:
  assumes "installed_as st k r" and "lns_sessions st' k = lns_sessions st k" and "lns_tunnels st \<subseteq>\<^sub>m lns_tunnels st'"
  shows "installed_as st' k r"
proof -
  obtain x t where x: "lns_sessions st k = Some x" "lns_tunnels st (sn_tunnel x) = Some t" 
    "sn_tunnel x = in_tunnel_index r \<and> sn_sw_if_index x = in_sw_if_index r \<and> sn_peer_sid x = in_peer_sid r
     \<and> in_local_sid r = snd k \<and> tn_local_tid t = fst k \<and> tn_key t = in_tunnel_key r"
    using assms(1) unfolding installed_as_def by blast
  then have "lns_tunnels st' (sn_tunnel x) = Some t" using assms(3) by (metis domI map_le_def)
  with x assms(2) show ?thesis unfolding installed_as_def by metis
qed

text \<open>A new entry of the dictionary that VPP has got as well.\<close>

lemma in_step_add:
  assumes sync: "in_step st routes ins" and new: "map_of ins k = None" and as: "installed_as st' k r"
    and dom: "dom (lns_sessions st') = insert k (dom (lns_sessions st))"
    and same: "\<And>l. l \<noteq> k \<Longrightarrow> lns_sessions st' l = lns_sessions st l" and le: "lns_tunnels st \<subseteq>\<^sub>m lns_tunnels st'"
  shows "in_step st' (routes \<union> set (in_routes r) \<times> {in_sw_if_index r}) (AList.update k r ins)"
  unfolding in_step_def
proof (intro conjI allI impI)
  show "distinct (map fst (AList.update k r ins))" using sync by (simp add: in_step_def distinct_update)
  show "dom (lns_sessions st') = fst ` set (AList.update k r ins)"
    using sync dom by (simp add: in_step_def dom_update)
  show "installed_as st' l q" if "map_of (AList.update k r ins) l = Some q" for l q
    using that as in_stepD [OF sync, of l q] same [of l] le
    by (auto simp: update_conv' split: if_splits intro: installed_as_frame)
  show "routes \<union> set (in_routes r) \<times> {in_sw_if_index r} = routes_in (map_of (AList.update k r ins))"
    using sync new by (simp add: in_step_def update_conv' routes_in_upd Un_commute)
qed

text \<open>Losing unused tunnels does not matter.\<close>

lemma in_step_prune:
  assumes sync: "in_step st routes ins" and same: "lns_sessions st' = lns_sessions st"
    and used: "\<And>k x. lns_sessions st k = Some x \<Longrightarrow> lns_tunnels st' (sn_tunnel x) = lns_tunnels st (sn_tunnel x)"
  shows "in_step st' routes ins"
proof -
  have "installed_as st' k r" if "installed_as st k r" for k r
    using that used unfolding installed_as_def same by metis
  with sync show ?thesis unfolding in_step_def same by blast
qed

section \<open>The contract of the API\<close>

locale lns_client =
  fixes c :: "'v vpp_client"
    and view :: "'v \<Rightarrow> lns"
    and fib :: "'v \<Rightarrow> (fib_prefix \<times> u32) set"
    and ok :: "'v \<Rightarrow> bool"
  assumes session_tunnel: "ok v \<Longrightarrow> lns_sessions (view v) k = Some x \<Longrightarrow>
      \<exists>t. lns_tunnels (view v) (sn_tunnel x) = Some t \<and> tn_local_tid t = fst k"
    and one_tunnel: "ok v \<Longrightarrow> lns_tunnels (view v) i = Some t \<Longrightarrow> lns_tunnels (view v) j = Some u \<Longrightarrow>
      tn_local_tid t = tn_local_tid u \<Longrightarrow> i = j"
    and one_interface: "ok v \<Longrightarrow> lns_sessions (view v) k = Some x \<Longrightarrow> lns_sessions (view v) l = Some y \<Longrightarrow>
      sn_sw_if_index x = sn_sw_if_index y \<Longrightarrow> k = l"
    and peer_ip4: "ok v \<Longrightarrow> lns_tunnels (view v) i = Some t \<Longrightarrow> ip46_address_is_ip4 (tn_peer_ip t)"
    and tunnel_add: "ok v \<Longrightarrow> ip46_address_is_ip4 lip \<Longrightarrow> ip46_address_is_ip4 pip \<Longrightarrow>
      \<forall>j u. lns_tunnels (view v) j = Some u \<longrightarrow> tn_local_tid u \<noteq> tid \<Longrightarrow>
      vc_tunnel_add c v lip pip lp pp tid ptid = (i, v') \<Longrightarrow>
      ok v' \<and> lns_tunnels (view v) i = None \<and> fib v' = fib v
      \<and> view v' = (view v)\<lparr>lns_tunnels := (lns_tunnels (view v))(i \<mapsto>
          \<lparr>tn_local_ip = lip, tn_peer_ip = pip, tn_local_port = lp, tn_peer_port = pp, tn_local_tid = tid,
           tn_peer_tid = ptid\<rparr>)\<rparr>"
    and tunnel_del: "ok v \<Longrightarrow> ip46_address_is_ip4 lip \<Longrightarrow> lns_tunnels (view v) i = Some t \<Longrightarrow>
      \<forall>k x. lns_sessions (view v) k = Some x \<longrightarrow> sn_tunnel x \<noteq> i \<Longrightarrow>
      ok (vc_tunnel_del c v lip (tn_peer_ip t) lp (tn_peer_port t) (tn_local_tid t) ptid)
      \<and> fib (vc_tunnel_del c v lip (tn_peer_ip t) lp (tn_peer_port t) (tn_local_tid t) ptid) = fib v
      \<and> view (vc_tunnel_del c v lip (tn_peer_ip t) lp (tn_peer_port t) (tn_local_tid t) ptid) =
          (view v)\<lparr>lns_tunnels := (lns_tunnels (view v))(i := None)\<rparr>"
    and session_add: "ok v \<Longrightarrow> lns_tunnels (view v) ti = Some t \<Longrightarrow>
      lns_sessions (view v) (tn_local_tid t, sid) = None \<Longrightarrow> card (dom (lns_sessions (view v))) < 2 ^ 32 - 1 \<Longrightarrow>
      vc_session_add c v ti sid psid acfc pfc = (sw, v') \<Longrightarrow>
      ok v' \<and> fib v' = fib v
      \<and> view v' = (view v)\<lparr>lns_sessions := (lns_sessions (view v))((tn_local_tid t, sid) \<mapsto>
          \<lparr>sn_tunnel = ti, sn_peer_sid = psid, sn_acfc = acfc, sn_pfc = pfc, sn_sw_if_index = sw\<rparr>)\<rparr>"
    and session_del: "ok v \<Longrightarrow> lns_tunnels (view v) ti = Some t \<Longrightarrow>
      lns_sessions (view v) (tn_local_tid t, sid) = Some x \<Longrightarrow>
      ok (vc_session_del c v ti sid psid) \<and> fib (vc_session_del c v ti sid psid) = fib v
      \<and> view (vc_session_del c v ti sid psid) =
          (view v)\<lparr>lns_sessions := (lns_sessions (view v))((tn_local_tid t, sid) := None)\<rparr>"
    and route: "ok v \<Longrightarrow> lns_sessions (view v) k = Some x \<Longrightarrow>
      ok (vc_route c v p (sn_sw_if_index x) a) \<and> view (vc_route c v p (sn_sw_if_index x) a) = view v
      \<and> fib (vc_route c v p (sn_sw_if_index x) a) =
          (if a then insert (p, sn_sw_if_index x) (fib v) else fib v - {(p, sn_sw_if_index x)})"
    and tunnel_dump: "ok v \<Longrightarrow> set (vc_tunnel_dump c v) = {(i, t). lns_tunnels (view v) i = Some t}"
    and session_dump: "ok v \<Longrightarrow> set (vc_session_dump c v) = {i. \<exists>k x. lns_sessions (view v) k = Some x \<and> sn_tunnel x = i}"
begin

lemma route_all:
  assumes "ok v" and "lns_sessions (view v) k = Some x"
  shows "ok (route_all c (sn_sw_if_index x) a ps v) \<and> view (route_all c (sn_sw_if_index x) a ps v) = view v
    \<and> fib (route_all c (sn_sw_if_index x) a ps v) =
        (if a then fib v \<union> set ps \<times> {sn_sw_if_index x} else fib v - set ps \<times> {sn_sw_if_index x})"
  using assms
proof (induction ps arbitrary: v)
  case (Cons p ps)
  note r = route [OF Cons.prems, of p a]
  have "lns_sessions (view (vc_route c v p (sn_sw_if_index x) a)) k = Some x" using r Cons.prems(2) by simp
  from Cons.IH [OF conjunct1 [OF r] this] r show ?case by (auto simp: route_all_def)
qed (simp add: route_all_def)

lemma vpp_tunnels_cache:
  assumes "ok v" shows "cache_ok (view v) (vpp_tunnels c v)"
  unfolding cache_ok_def
proof (intro allI iffI)
  have e: "vpp_tunnels c v = fold (\<lambda>x. AList.update (tn_key (snd x)) (fst x)) (vc_tunnel_dump c v) []"
    by (simp add: vpp_tunnels_def tn_key_def case_prod_unfold)
  have found: "\<exists>t. lns_tunnels (view v) i = Some t \<and> tn_key t = tk" if "map_of (vpp_tunnels c v) tk = Some i" for tk i
    using map_of_fold_update [OF that [unfolded e]] tunnel_dump [OF assms] by auto
  fix tk i
  show "\<exists>t. lns_tunnels (view v) i = Some t \<and> tn_key t = tk" if "map_of (vpp_tunnels c v) tk = Some i"
    using found that .
  assume "\<exists>t. lns_tunnels (view v) i = Some t \<and> tn_key t = tk"
  then obtain t where t: "lns_tunnels (view v) i = Some t" "tn_key t = tk" by blast
  then have "tk \<in> fst ` set (vpp_tunnels c v)"
    using tunnel_dump [OF assms] unfolding e dom_fold_update by force
  then obtain j where j: "map_of (vpp_tunnels c v) tk = Some j" unfolding map_of_dom [symmetric] by blast
  from found [OF j] obtain u where u: "lns_tunnels (view v) j = Some u" "tn_key u = tk" by blast
  then have "i = j" using one_tunnel [OF assms t(1) u(1)] t(2) tn_key_tid [of t] tn_key_tid [of u] by simp
  with j show "map_of (vpp_tunnels c v) tk = Some i" by simp
qed

lemma ensure_tunnel_ok:
  assumes v: "ok v" and cache: "cache_ok (view v) cache" and ep: "endpoints_ok sd s"
    and tids: "tids_agree (insert (tunnel_key s) (lns_keys (view v)))"
  shows "\<exists>i cache' v' t. ensure_tunnel c sd s cache v = Inr (i, cache', v') \<and> ok v' \<and> cache_ok (view v') cache'
    \<and> fib v' = fib v \<and> lns_sessions (view v') = lns_sessions (view v)
    \<and> lns_tunnels (view v) \<subseteq>\<^sub>m lns_tunnels (view v') \<and> lns_tunnels (view v') i = Some t \<and> tn_key t = tunnel_key s
    \<and> lns_keys (view v') = insert (tunnel_key s) (lns_keys (view v))"
proof (cases "map_of cache (tunnel_key s)")
  case (Some i)
  then obtain t where t: "lns_tunnels (view v) i = Some t" "tn_key t = tunnel_key s"
    using cache_okD [OF cache] by blast
  then have "tunnel_key s \<in> lns_keys (view v)" using lns_keysI by metis
  then show ?thesis using Some t v cache by (auto simp: ensure_tunnel_def insert_absorb)
next
  case None
  obtain ip where ip: "local_ip_of sd s = Some ip" "ip46_address_is_ip4 ip" "ip46_address_is_ip4 (ks_peer_ip s)"
    using ep by (auto simp: endpoints_ok_def)
  define lp where "lp = (case ks_local_port s of Some p \<Rightarrow> if p = 0 then sd_local_port sd else p | None \<Rightarrow> sd_local_port sd)"
  define t where "t = \<lparr>tn_local_ip = ip, tn_peer_ip = ks_peer_ip s, tn_local_port = lp, tn_peer_port = ks_peer_port s,
    tn_local_tid = ks_local_tid s, tn_peer_tid = ks_peer_tid s\<rparr>"
  have key: "tn_key t = tunnel_key s" by (simp add: t_def tn_key_def tunnel_key_def)
  obtain i v' where add: "vc_tunnel_add c v ip (ks_peer_ip s) lp (ks_peer_port s) (ks_local_tid s) (ks_peer_tid s) = (i, v')"
    by (metis surj_pair)
  have fresh: "tn_key u \<noteq> tunnel_key s" if "lns_tunnels (view v) j = Some u" for j u
    using that None cache_okD [OF cache, of "tunnel_key s" j] by auto
  have unused: "tn_local_tid u \<noteq> ks_local_tid s" if "lns_tunnels (view v) j = Some u" for j u
    using tids_agreeD [OF tids, of "tn_key u" "tunnel_key s"] fresh [OF that] lns_keysI [OF that]
    by (auto simp: tn_key_tid tunnel_key_def)
  have a: "ok v' \<and> lns_tunnels (view v) i = None \<and> fib v' = fib v
      \<and> view v' = (view v)\<lparr>lns_tunnels := (lns_tunnels (view v))(i \<mapsto> t)\<rparr>"
    using tunnel_add [OF v ip(2,3) _ add] unused unfolding t_def by blast
  have "ensure_tunnel c sd s cache v = Inr (i, AList.update (tunnel_key s) i cache, v')"
    using None ip(1) add by (simp add: ensure_tunnel_def local_ip_of_def lp_def Let_def)
  moreover have "cache_ok (view v') (AList.update (tunnel_key s) i cache)"
    using cache a fresh key unfolding cache_ok_def by (fastforce simp: update_conv' split: if_splits)
  moreover have "lns_keys (view v') = insert (tunnel_key s) (lns_keys (view v))"
    using a key by (simp add: lns_keys_def)
  ultimately show ?thesis using a key by (auto simp: map_le_def)
qed

lemma add_session_ok:
  assumes v: "ok v" and cache: "cache_ok (view v) cache" and ep: "endpoints_ok sd s"
    and tids: "tids_agree (insert (tunnel_key s) (lns_keys (view v)))"
    and sync: "in_step (view v) (fib v) (sd_installed sd)" and new: "map_of (sd_installed sd) (session_key s) = None"
    and room: "length (sd_installed sd) < 2 ^ 32 - 1" and routes: "routes_of ppp_routes s = Some rts"
  shows "\<exists>r cache' v'. add_session c ppp_routes sd s cache v =
      Inr (sd\<lparr>sd_installed := AList.update (session_key s) r (sd_installed sd)\<rparr>, cache', v')
    \<and> ok v' \<and> cache_ok (view v') cache' \<and> lns_keys (view v') = insert (tunnel_key s) (lns_keys (view v))
    \<and> in_step (view v') (fib v') (AList.update (session_key s) r (sd_installed sd))
    \<and> in_peer_sid r = ks_peer_sid s \<and> in_tunnel_key r = tunnel_key s \<and> in_routes r = rts"
proof -
  obtain i cache' v1 t where ens: "ensure_tunnel c sd s cache v = Inr (i, cache', v1)" and v1: "ok v1"
    and c1: "cache_ok (view v1) cache'" and fib1: "fib v1 = fib v"
    and s1: "lns_sessions (view v1) = lns_sessions (view v)" "lns_tunnels (view v) \<subseteq>\<^sub>m lns_tunnels (view v1)"
    and t: "lns_tunnels (view v1) i = Some t" "tn_key t = tunnel_key s"
    and keys: "lns_keys (view v1) = insert (tunnel_key s) (lns_keys (view v))"
    using ensure_tunnel_ok [OF v cache ep tids] by metis
  have tid: "tn_local_tid t = ks_local_tid s" using t(2) tn_key_tid [of t] by (simp add: tunnel_key_def)
  obtain sw v2 where add: "vc_session_add c v1 i (ks_local_sid s) (ks_peer_sid s) 0 0 = (sw, v2)" by (metis surj_pair)
  define k where "k = session_key s"
  define x where "x = \<lparr>sn_tunnel = i, sn_peer_sid = ks_peer_sid s, sn_acfc = 0, sn_pfc = 0, sn_sw_if_index = sw\<rparr>"
  have k: "(tn_local_tid t, ks_local_sid s) = k" by (simp add: k_def session_key_def tid)
  have none: "lns_sessions (view v1) k = None" using in_step_sessions [OF sync, of k] new s1(1) by (simp add: k_def)
  have "card (dom (lns_sessions (view v1))) \<le> length (sd_installed sd)"
    using sync card_image_le [of "set (sd_installed sd)" fst] card_length [of "sd_installed sd"]
    by (simp add: s1(1) in_step_def)
  then have room1: "card (dom (lns_sessions (view v1))) < 2 ^ 32 - 1" using room by simp
  have v2: "ok v2" "fib v2 = fib v" "view v2 = (view v1)\<lparr>lns_sessions := (lns_sessions (view v1))(k \<mapsto> x)\<rparr>"
    using session_add [OF v1 t(1) _ room1 add, unfolded k] none fib1 by (auto simp: x_def)
  define r where "r = \<lparr>in_sw_if_index = sw, in_tunnel_index = i, in_local_sid = ks_local_sid s,
    in_peer_sid = ks_peer_sid s, in_tunnel_key = tunnel_key s, in_routes = rts\<rparr>"
  define v3 where "v3 = route_all c sw True rts v2"
  have v3: "ok v3" "view v3 = view v2" "fib v3 = fib v \<union> set (in_routes r) \<times> {in_sw_if_index r}"
    using route_all [OF v2(1), of k x True rts] v2(2,3) by (simp_all add: v3_def r_def x_def)
  have "in_step (view v3) (fib v3) (AList.update k r (sd_installed sd))"
    unfolding v3(3)
  proof (rule in_step_add [OF sync])
    show "installed_as (view v3) k r"
      using t tid by (auto simp: installed_as_def v3(2) v2(3) x_def r_def k_def session_key_def)
  qed (use new s1 in \<open>auto simp: v3(2) v2(3) k_def\<close>)
  moreover have "add_session c ppp_routes sd s cache v =
      Inr (sd\<lparr>sd_installed := AList.update k r (sd_installed sd)\<rparr>, cache', v3)"
    by (simp add: add_session_def routes Let_def ens add r_def v3_def k_def)
  moreover have "cache_ok (view v3) cache'" "lns_keys (view v3) = insert (tunnel_key s) (lns_keys (view v))"
    using c1 keys by (simp_all add: v3(2) v2(3) cache_ok_def lns_keys_def)
  ultimately show ?thesis using v3(1) unfolding k_def r_def by auto
qed

text \<open>No other session has a route over this session's interface.\<close>

lemma other_routes:
  assumes v: "ok v" and sync: "in_step (view v) routes ins" and r: "map_of ins k = Some r"
  shows "routes_in ((map_of ins)(k := None)) \<inter> UNIV \<times> {in_sw_if_index r} = {}"
    and "routes = set (in_routes r) \<times> {in_sw_if_index r} \<union> routes_in ((map_of ins)(k := None))"
proof -
  have "in_sw_if_index q \<noteq> in_sw_if_index r" if "q \<in> ran ((map_of ins)(k := None))" for q
  proof
    obtain l where "((map_of ins)(k := None)) l = Some q" using \<open>q \<in> _\<close> unfolding ran_def by blast
    then have q: "map_of ins l = Some q" "l \<noteq> k" by (simp_all split: if_splits)
    assume "in_sw_if_index q = in_sw_if_index r"
    moreover obtain x where "lns_sessions (view v) k = Some x" "sn_sw_if_index x = in_sw_if_index r"
      using in_stepD [OF sync r] unfolding installed_as_def by blast
    moreover obtain y where "lns_sessions (view v) l = Some y" "sn_sw_if_index y = in_sw_if_index q"
      using in_stepD [OF sync q(1)] unfolding installed_as_def by blast
    ultimately show False using one_interface [OF v] q(2) by metis
  qed
  then show "routes_in ((map_of ins)(k := None)) \<inter> UNIV \<times> {in_sw_if_index r} = {}"
    unfolding routes_in_def by fastforce
  have "map_of ins = ((map_of ins)(k := None))(k \<mapsto> r)" using r by auto
  then show "routes = set (in_routes r) \<times> {in_sw_if_index r} \<union> routes_in ((map_of ins)(k := None))"
    using sync routes_in_upd [of "(map_of ins)(k := None)" k r] by (simp add: in_step_def)
qed

lemma routes_of_session:
  assumes "ok v" and "in_step (view v) routes ins" and "map_of ins k = Some r"
  shows "{p. (p, in_sw_if_index r) \<in> routes} = set (in_routes r)"
  using other_routes [OF assms] by auto

lemma sync_routes_ok:
  assumes v: "ok v" and sync: "in_step (view v) (fib v) (sd_installed sd)" and r: "map_of (sd_installed sd) k = Some r"
    and iter: "\<And>A. finite A \<Longrightarrow> set (iter A) = A" and srt: "\<And>A. finite A \<Longrightarrow> set (srt A) = A"
  shows "\<exists>r' ins v'. sync_routes c iter srt sd k r routes v = (sd\<lparr>sd_installed := ins\<rparr>, v') \<and> ok v' \<and> view v' = view v
    \<and> in_step (view v') (fib v') ins \<and> map_of ins = (map_of (sd_installed sd))(k \<mapsto> r') \<and> length ins = length (sd_installed sd)
    \<and> r' = r\<lparr>in_routes := in_routes r'\<rparr> \<and> set (in_routes r') = set routes"
proof -
  obtain x where x: "lns_sessions (view v) k = Some x" "sn_sw_if_index x = in_sw_if_index r"
    using in_stepD [OF sync r] unfolding installed_as_def by blast
  let ?sw = "in_sw_if_index r" and ?have = "set (in_routes r)" and ?want = "set routes"
  define r' where "r' = (if ?have = ?want then r else r\<lparr>in_routes := srt ?want\<rparr>)"
  define ins where "ins = AList.update k r' (sd_installed sd)"
  define v1 where "v1 = route_all c ?sw True (iter (?want - ?have)) v"
  define v2 where "v2 = route_all c ?sw False (iter (?have - ?want)) v1"
  have v1: "ok v1" "view v1 = view v" "fib v1 = fib v \<union> (?want - ?have) \<times> {?sw}"
    using route_all [OF v x(1), of True "iter (?want - ?have)"] by (simp_all add: x(2) v1_def iter)
  have v2: "ok v2" "view v2 = view v" "fib v2 = fib v1 - (?have - ?want) \<times> {?sw}"
    using route_all [OF v1(1), of k x False "iter (?have - ?want)"] v1 x by (simp_all add: v2_def iter)
  have r': "r' = r\<lparr>in_routes := in_routes r'\<rparr>" "set (in_routes r') = ?want" "in_sw_if_index r' = ?sw"
    by (simp_all add: r'_def srt)
  have m: "map_of ins = (map_of (sd_installed sd))(k \<mapsto> r')" by (simp add: ins_def update_conv')
  have fst: "fst ` set ins = fst ` set (sd_installed sd)"
    using map_of_dom [of "sd_installed sd" k] r by (auto simp: ins_def dom_update insert_absorb)
  have d: "distinct (map fst ins)" "distinct (map fst (sd_installed sd))"
    using sync by (simp_all add: ins_def in_step_def distinct_update)
  have "fib v2 = set (in_routes r') \<times> {in_sw_if_index r'} \<union> routes_in ((map_of (sd_installed sd))(k := None))"
    using other_routes [OF v sync r] unfolding v2(3) v1(3) r'(2,3) by auto
  also have "\<dots> = routes_in (map_of ins)"
    using routes_in_upd [of "(map_of (sd_installed sd))(k := None)" k r'] by (simp add: m)
  finally have fib: "fib v2 = routes_in (map_of ins)" .
  have as: "installed_as (view v) l q" if "map_of ins l = Some q" for l q
  proof (cases "l = k")
    case True
    then have "q = r\<lparr>in_routes := in_routes r'\<rparr>" using that m r'(1) by simp
    then show ?thesis using in_stepD [OF sync r] True unfolding installed_as_def by simp
  qed (use that m in_stepD [OF sync, of l q] in auto)
  have "in_step (view v2) (fib v2) ins"
    unfolding in_step_def fib fst v2(2) using d as sync by (auto simp: in_step_def)
  moreover have "length ins = length (sd_installed sd)"
    using d fst distinct_card [of "map fst ins"] distinct_card [of "map fst (sd_installed sd)"] by simp
  moreover have "sync_routes c iter srt sd k r routes v = (sd\<lparr>sd_installed := ins\<rparr>, v2)"
    using update_triv [OF r] by (auto simp: sync_routes_def Let_def v1_def v2_def ins_def r'_def)
  ultimately show ?thesis using v2(1,2) m r' by blast
qed

lemma del_session_ok:
  assumes v: "ok v" and sync: "in_step (view v) (fib v) (sd_installed sd)" and r: "map_of (sd_installed sd) k = Some r"
  shows "\<exists>v'. del_session c sd k r v = (sd\<lparr>sd_installed := AList.delete k (sd_installed sd)\<rparr>, v') \<and> ok v'
    \<and> lns_tunnels (view v') = lns_tunnels (view v) \<and> in_step (view v') (fib v') (AList.delete k (sd_installed sd))"
proof -
  let ?m = "map_of (sd_installed sd)"
  obtain x t where x: "lns_sessions (view v) k = Some x" "sn_sw_if_index x = in_sw_if_index r"
    and t: "lns_tunnels (view v) (in_tunnel_index r) = Some t" "(tn_local_tid t, in_local_sid r) = k"
    using in_stepD [OF sync r] unfolding installed_as_def by (metis prod.collapse)
  define v1 where "v1 = route_all c (in_sw_if_index r) False (in_routes r) v"
  have v1: "ok v1" "view v1 = view v" "fib v1 = fib v - set (in_routes r) \<times> {in_sw_if_index r}"
    using route_all [OF v x(1), of False "in_routes r"] by (simp_all add: x(2) v1_def)
  define v2 where "v2 = vc_session_del c v1 (in_tunnel_index r) (in_local_sid r) (in_peer_sid r)"
  have v2: "ok v2" "fib v2 = fib v1" "view v2 = (view v)\<lparr>lns_sessions := (lns_sessions (view v))(k := None)\<rparr>"
    using session_del [OF v1(1), of "in_tunnel_index r" t "in_local_sid r" x "in_peer_sid r"] v1(2) t x(1)
    by (simp_all add: v2_def)
  have as: "installed_as (view v2) l q" if "map_of (AList.delete k (sd_installed sd)) l = Some q" for l q
    using that in_stepD [OF sync, of l q]
    by (auto simp: delete_conv' v2(3) split: if_splits intro: installed_as_frame)
  have "fib v2 = routes_in (map_of (AList.delete k (sd_installed sd)))"
    using other_routes [OF v sync r] unfolding v2(2) v1(3) delete_conv' by auto
  then have "in_step (view v2) (fib v2) (AList.delete k (sd_installed sd))"
    using sync as by (simp add: in_step_def v2(3) keys_delete distinct_delete)
  then show ?thesis using v2 by (auto simp: del_session_def v1_def v2_def)
qed

lemma reconcile_gone_ok:
  assumes "ok v" and "in_step (view v) (fib v) (sd_installed sd)" and "distinct keys"
    and "set keys \<subseteq> dom (map_of (sd_installed sd))"
  shows "\<exists>ins v'. reconcile_gone c want keys sd v n =
      (sd\<lparr>sd_installed := ins\<rparr>, v', n + length (filter (\<lambda>k. k \<notin> want) keys)) \<and> ok v'
    \<and> lns_tunnels (view v') = lns_tunnels (view v) \<and> in_step (view v') (fib v') ins
    \<and> map_of ins = map_of (sd_installed sd) |` (want \<union> - set keys)"
  using assms
proof (induction keys arbitrary: sd v n)
  case (Cons k keys)
  show ?case
  proof (cases "k \<in> want")
    case True
    then have "want \<union> - set (k # keys) = want \<union> - set keys" by auto
    then show ?thesis using Cons.IH [OF Cons.prems(1,2), of n] Cons.prems(3,4) True by simp
  next
    case False
    obtain r where r: "map_of (sd_installed sd) k = Some r" using Cons.prems(4) by auto
    obtain v1 where d: "del_session c sd k r v = (sd\<lparr>sd_installed := AList.delete k (sd_installed sd)\<rparr>, v1)" "ok v1"
      "lns_tunnels (view v1) = lns_tunnels (view v)" "in_step (view v1) (fib v1) (AList.delete k (sd_installed sd))"
      using del_session_ok [OF Cons.prems(1,2) r] by blast
    have "set keys \<subseteq> dom (map_of (AList.delete k (sd_installed sd)))"
      using Cons.prems(3,4) by (auto simp: delete_conv')
    moreover have "map_of (AList.delete k (sd_installed sd)) |` (want \<union> - set keys) =
        map_of (sd_installed sd) |` (want \<union> - set (k # keys))"
      using False by (auto simp: restrict_map_def delete_conv')
    ultimately show ?thesis
      using Cons.IH [OF d(2), of "sd\<lparr>sd_installed := AList.delete k (sd_installed sd)\<rparr>" "Suc n"] d Cons.prems(3) False r
      by simp
  qed
next
  case (Nil sd v n)
  then show ?case by (intro exI [of _ "sd_installed sd"] exI [of _ v]) (simp add: restrict_map_def)
qed

lemma prune_fold:
  fixes lp :: u16
  assumes "ok v" and "ip46_address_is_ip4 lip" and "distinct (map snd es)"
    and "\<forall>(tk, i) \<in> set es. \<exists>t. lns_tunnels (view v) i = Some t \<and> tn_key t = tk"
    and "live = {i. \<exists>k x. lns_sessions (view v) k = Some x \<and> sn_tunnel x = i}"
  defines "del \<equiv> (\<lambda>((pip, pp, tid), i) v. if i \<in> live then v else vc_tunnel_del c v lip pip lp pp tid 0)"
  shows "ok (fold del es v) \<and> fib (fold del es v) = fib v
    \<and> view (fold del es v) = (view v)\<lparr>lns_tunnels := lns_tunnels (view v) |` (live \<union> - snd ` set es)\<rparr>"
  using assms(1-5)
proof (induction es arbitrary: v)
  case Nil
  then show ?case by (simp add: restrict_map_def)
next
  case (Cons e es)
  obtain t i where e: "e = (tn_key t, i)" and t: "lns_tunnels (view v) i = Some t" using Cons.prems(4) by fastforce
  define v1 where "v1 = del e v"
  have v1: "ok v1 \<and> fib v1 = fib v \<and> view v1 = (view v)\<lparr>lns_tunnels := lns_tunnels (view v) |` (live \<union> - {i})\<rparr>"
  proof (cases "i \<in> live")
    case True
    then have "live \<union> - {i} = UNIV" by blast
    then show ?thesis using True Cons.prems(1) by (simp add: v1_def del_def e tn_key_def restrict_map_def)
  next
    case False
    then have u: "\<forall>k x. lns_sessions (view v) k = Some x \<longrightarrow> sn_tunnel x \<noteq> i" using Cons.prems(5) by blast
    have "lns_tunnels (view v) |` (live \<union> - {i}) = (lns_tunnels (view v))(i := None)"
      using False by (auto simp: restrict_map_def)
    then show ?thesis
      using tunnel_del [OF Cons.prems(1,2) t u, of lp 0] False by (simp add: v1_def del_def e tn_key_def)
  qed
  have "\<exists>t. lns_tunnels (view v1) j = Some t \<and> tn_key t = tk" if j: "(tk, j) \<in> set es" for tk j
  proof -
    have "j \<noteq> i" using Cons.prems(3) e j by force
    moreover obtain u where "lns_tunnels (view v) j = Some u" "tn_key u = tk" using Cons.prems(4) j by fastforce
    ultimately show ?thesis using v1 by (simp add: restrict_map_def)
  qed
  note entries = this
  have ih: "ok (fold del es v1) \<and> fib (fold del es v1) = fib v1
      \<and> view (fold del es v1) = (view v1)\<lparr>lns_tunnels := lns_tunnels (view v1) |` (live \<union> - snd ` set es)\<rparr>"
  proof (rule Cons.IH)
    show "\<forall>(tk, i) \<in> set es. \<exists>t. lns_tunnels (view v1) i = Some t \<and> tn_key t = tk" using entries by blast
    show "live = {i. \<exists>k x. lns_sessions (view v1) k = Some x \<and> sn_tunnel x = i}"
      using Cons.prems(5) v1 by simp
  qed (use Cons.prems v1 in simp_all)
  have "(lns_tunnels (view v) |` (live \<union> - {i})) |` (live \<union> - snd ` set es)
      = lns_tunnels (view v) |` (live \<union> - snd ` set (e # es))"
    by (auto simp: restrict_map_def e)
  with ih v1 show ?case by (simp add: v1_def)
qed

lemma prune_tunnels_ok:
  assumes v: "ok v" and ip: "ip46_address_is_ip4 (case sd_local_ip sd of Some ip \<Rightarrow> ip | None \<Rightarrow> none)"
  shows "ok (prune_tunnels c none sd v) \<and> fib (prune_tunnels c none sd v) = fib v
    \<and> view (prune_tunnels c none sd v) = (view v)\<lparr>lns_tunnels := lns_tunnels (view v) |`
        {i. \<exists>k x. lns_sessions (view v) k = Some x \<and> sn_tunnel x = i}\<rparr>"
proof -
  let ?es = "vpp_tunnels c v" and ?live = "{i. \<exists>k x. lns_sessions (view v) k = Some x \<and> sn_tunnel x = i}"
  note cache = cache_okD [OF vpp_tunnels_cache [OF v]]
  have d: "distinct (map fst ?es)"
    using distinct_fold_update [of "[]" "\<lambda>x. tn_key (snd x)" fst "vc_tunnel_dump c v"]
    by (simp add: vpp_tunnels_def tn_key_def case_prod_unfold)
  have entry: "\<exists>t. lns_tunnels (view v) i = Some t \<and> tn_key t = tk" if "(tk, i) \<in> set ?es" for tk i
    using map_of_is_SomeI [OF d that] unfolding cache .
  have "inj_on snd (set ?es)"
  proof (rule inj_onI)
    fix a b assume ab: "a \<in> set ?es" "b \<in> set ?es" "snd a = snd b"
    have "(fst a, snd a) \<in> set ?es" using ab(1) by simp
    moreover have "(fst b, snd a) \<in> set ?es" using ab(2,3) by simp
    ultimately have "\<exists>t. lns_tunnels (view v) (snd a) = Some t \<and> tn_key t = fst a"
      "\<exists>t. lns_tunnels (view v) (snd a) = Some t \<and> tn_key t = fst b" using entry by blast+
    then have "fst a = fst b" by auto
    with ab(3) show "a = b" by (rule prod_eqI [rotated])
  qed
  then have dist: "distinct (map snd ?es)" using d by (simp add: distinct_map)
  have "i \<in> snd ` set ?es" if "lns_tunnels (view v) i = Some t" for i t
    using that map_of_SomeD [of ?es "tn_key t" i] cache [of "tn_key t" i] by force
  then have restr: "lns_tunnels (view v) |` (?live \<union> - snd ` set ?es) = lns_tunnels (view v) |` ?live"
    by (rule restrict_outside)
  have "\<forall>(tk, i) \<in> set ?es. \<exists>t. lns_tunnels (view v) i = Some t \<and> tn_key t = tk" using entry by blast
  from prune_fold [OF v ip dist this refl, of "sd_local_port sd"]
  show ?thesis unfolding prune_tunnels_def Let_def session_dump [OF v] restr .
qed

text \<open>One turn of the first loop.\<close>

lemma reconcile_want_step:
  assumes iter: "\<And>A. finite A \<Longrightarrow> set (iter A) = A" and srt: "\<And>A. finite A \<Longrightarrow> set (srt A) = A"
    and v: "ok v" and cache: "cache_ok (view v) cache" and sync: "in_step (view v) (fib v) (sd_installed sd)"
    and key: "session_key s = k" and room: "length (sd_installed sd) < 2 ^ 32 - 1"
    and new: "map_of (sd_installed sd) k = None \<Longrightarrow>
      endpoints_ok sd s \<and> tids_agree (insert (tunnel_key s) (lns_keys (view v)))"
    and routes: "rs \<or> map_of (sd_installed sd) k = None \<Longrightarrow> routes_of ppp_routes s \<noteq> None"
  shows "\<exists>ins cache1 v1 r.
      (\<forall>want n. reconcile_want c iter srt ppp_routes rs ((k, s) # want) sd cache v n =
        reconcile_want c iter srt ppp_routes rs want (sd\<lparr>sd_installed := ins\<rparr>) cache1 v1
          (n + length (to_add (sd_installed sd) [(k, s)])))
    \<and> ok v1 \<and> cache_ok (view v1) cache1 \<and> in_step (view v1) (fib v1) ins
    \<and> map_of ins = (map_of (sd_installed sd))(k \<mapsto> r) \<and> length ins \<le> Suc (length (sd_installed sd))
    \<and> lns_keys (view v1) \<subseteq> lns_keys (view v) \<union> tunnel_key ` snd ` set (to_add (sd_installed sd) [(k, s)])
    \<and> session_done ppp_routes rs s (map_of (sd_installed sd) k) r"
proof (cases "map_of (sd_installed sd) k")
  case None
  let ?I = "sd_installed sd"
  obtain rts where rts: "routes_of ppp_routes s = Some rts" using routes None by blast
  obtain r cache1 v1 where r: "add_session c ppp_routes sd s cache v =
      Inr (sd\<lparr>sd_installed := AList.update k r ?I\<rparr>, cache1, v1)" "ok v1" "cache_ok (view v1) cache1"
    "lns_keys (view v1) = insert (tunnel_key s) (lns_keys (view v))" "in_step (view v1) (fib v1) (AList.update k r ?I)"
    "in_peer_sid r = ks_peer_sid s" "in_tunnel_key r = tunnel_key s" "in_routes r = rts"
    using add_session_ok [OF v cache _ _ sync _ room rts] new [OF None] None unfolding key by auto
  have "length (AList.update k r ?I) \<le> Suc (length ?I)"
    using arg_cong [OF update_keys [of k r ?I], of length] by (simp split: if_splits)
  then show ?thesis
    using r None rts by (intro exI [of _ "AList.update k r ?I"] exI [of _ cache1] exI [of _ v1] exI [of _ r])
      (simp add: to_add_def session_done_def update_conv')
next
  case (Some q)
  show ?thesis
  proof (cases rs)
    case True
    obtain rts where rts: "routes_of ppp_routes s = Some rts" using routes True by blast
    obtain r ins v1 where r: "sync_routes c iter srt sd k q rts v = (sd\<lparr>sd_installed := ins\<rparr>, v1)"
      "ok v1" "view v1 = view v" "in_step (view v1) (fib v1) ins" "map_of ins = (map_of (sd_installed sd))(k \<mapsto> r)"
      "length ins = length (sd_installed sd)" "r = q\<lparr>in_routes := in_routes r\<rparr>" "set (in_routes r) = set rts"
      using sync_routes_ok [OF v sync Some iter srt] by metis
    then have "session_done ppp_routes rs s (map_of (sd_installed sd) k) r" using Some True rts by (simp add: session_done_def)
    with r Some True cache rts show ?thesis
      by (intro exI [of _ ins] exI [of _ cache] exI [of _ v1] exI [of _ r]) (simp add: to_add_def)
  next
    case False
    have "map_of (sd_installed sd) = (map_of (sd_installed sd))(k \<mapsto> q)" using Some by auto
    then show ?thesis
      using v cache sync Some False
      by (intro exI [of _ "sd_installed sd"] exI [of _ cache] exI [of _ v] exI [of _ q]) (simp add: to_add_def session_done_def)
  qed
qed

lemma reconcile_want_ok:
  assumes iter: "\<And>A. finite A \<Longrightarrow> set (iter A) = A" and srt: "\<And>A. finite A \<Longrightarrow> set (srt A) = A"
    and "ok v" and "cache_ok (view v) cache" and "in_step (view v) (fib v) (sd_installed sd)"
    and "distinct (map fst want)" and "\<forall>(k, s) \<in> set want. session_key s = k"
    and "\<forall>(k, s) \<in> set (to_add (sd_installed sd) want). endpoints_ok sd s"
    and "tids_agree (lns_keys (view v) \<union> tunnel_key ` snd ` set (to_add (sd_installed sd) want))"
    and "length (sd_installed sd) + length want < 2 ^ 32"
    and "\<forall>(k, s) \<in> set want. rs \<or> map_of (sd_installed sd) k = None \<longrightarrow> routes_of ppp_routes s \<noteq> None"
  shows "\<exists>ins v'. reconcile_want c iter srt ppp_routes rs want sd cache v n =
      (sd\<lparr>sd_installed := ins\<rparr>, v', Inr (n + length (to_add (sd_installed sd) want)))
    \<and> ok v' \<and> in_step (view v') (fib v') ins \<and> want_done ppp_routes rs want (map_of (sd_installed sd)) (map_of ins)"
  using assms(3-11)
proof (induction want arbitrary: sd cache v n)
  case Nil
  then show ?case by (intro exI [of _ "sd_installed sd"] exI [of _ v]) (simp add: to_add_def want_done_def)
next
  case (Cons e want)
  obtain k s where e: "e = (k, s)" by (cases e)
  let ?I = "sd_installed sd"
  have fresh: "map_of want k = None" and key: "session_key s = k" and dist: "distinct (map fst ((k, s) # want))"
    using Cons.prems(4,5) e by (auto simp: map_of_eq_None_iff)
  have split: "to_add ?I (e # want) = to_add ?I [(k, s)] @ to_add ?I want" by (simp add: to_add_def e)
  have new: "endpoints_ok sd s \<and> tids_agree (insert (tunnel_key s) (lns_keys (view v)))" if "map_of ?I k = None"
    using Cons.prems(6) that tids_agree_mono [OF Cons.prems(7), of "insert (tunnel_key s) (lns_keys (view v))"]
    by (auto simp: to_add_def e)
  have rts: "rs \<or> map_of ?I k = None \<Longrightarrow> routes_of ppp_routes s \<noteq> None" using Cons.prems(9) e by auto
  have "length ?I < 2 ^ 32 - 1" using Cons.prems(8) by simp
  note step = reconcile_want_step [where rs = rs, OF iter srt Cons.prems(1-3) key this new rts]
  obtain ins cache1 v1 r where
    run: "\<forall>want n. reconcile_want c iter srt ppp_routes rs ((k, s) # want) sd cache v n =
        reconcile_want c iter srt ppp_routes rs want (sd\<lparr>sd_installed := ins\<rparr>) cache1 v1 (n + length (to_add ?I [(k, s)]))"
    and one: "ok v1" "cache_ok (view v1) cache1" "in_step (view v1) (fib v1) ins" "map_of ins = (map_of ?I)(k \<mapsto> r)"
      "length ins \<le> Suc (length ?I)" "lns_keys (view v1) \<subseteq> lns_keys (view v) \<union> tunnel_key ` snd ` set (to_add ?I [(k, s)])"
      "session_done ppp_routes rs s (map_of ?I k) r"
    by (rule exE [OF step]; (assumption)?) (elim exE conjE, rule that; assumption)
  have same: "to_add ins want = to_add ?I want" by (rule to_add_update [OF dist one(4)])
  have tids: "tids_agree (lns_keys (view v1) \<union> tunnel_key ` snd ` set (to_add ?I want))"
    by (rule tids_agree_mono [OF Cons.prems(7)]) (use one(6) in \<open>auto simp: split\<close>)
  have "\<forall>(k, s) \<in> set (to_add ?I want). endpoints_ok sd s" "\<forall>(k, s) \<in> set want. session_key s = k"
    "\<forall>(k, s) \<in> set want. rs \<or> map_of ins k = None \<longrightarrow> routes_of ppp_routes s \<noteq> None"
    using Cons.prems(5,6,9) by (auto simp: split one(4) split: if_splits)
  then obtain ins' v' where two:
    "reconcile_want c iter srt ppp_routes rs want (sd\<lparr>sd_installed := ins\<rparr>) cache1 v1 (n + length (to_add ?I [(k, s)])) =
      (sd\<lparr>sd_installed := ins'\<rparr>, v', Inr (n + length (to_add ?I [(k, s)]) + length (to_add ?I want)))"
    "ok v'" "in_step (view v') (fib v') ins'" "want_done ppp_routes rs want (map_of ins) (map_of ins')"
    using Cons.IH [OF one(1,2), of "sd\<lparr>sd_installed := ins\<rparr>" "n + length (to_add ?I [(k, s)])",
        unfolded installed_upd same endpoints_ok_installed, OF one(3) _ _ _ tids] dist Cons.prems(8) one(5) by auto
  have "reconcile_want c iter srt ppp_routes rs (e # want) sd cache v n =
      (sd\<lparr>sd_installed := ins'\<rparr>, v', Inr (n + length (to_add ?I (e # want))))"
    unfolding split unfolding e using run two(1) by (simp del: reconcile_want.simps)
  moreover have "want_done ppp_routes rs (e # want) (map_of ?I) (map_of ins')"
    unfolding e by (rule want_done_Cons [OF two(4) [unfolded one(4)] fresh one(7)])
  ultimately show ?case using two(2,3) by blast
qed

lemma reconcile_ok:
  assumes iter: "\<And>A. finite A \<Longrightarrow> set (iter A) = A" and srt: "\<And>A. finite A \<Longrightarrow> set (srt A) = A"
    and v: "ok v" and sync: "in_step (view v) (fib v) (sd_installed sd)" and kernel: "kernel_ok ppp_routes sync sd (view v) ks"
    and ip: "ip46_address_is_ip4 (case sd_local_ip sd of Some ip \<Rightarrow> ip | None \<Rightarrow> none)"
  shows "\<exists>ins v' added removed. reconcile c none iter srt ppp_routes sync ks sd v =
      (save_state (sd\<lparr>sd_installed := ins\<rparr>), v', Inr (added, removed))
    \<and> added = length (to_add (sd_installed sd) (wanted ks))
    \<and> removed = card (fst ` set (sd_installed sd) - fst ` set (wanted ks))
    \<and> ok v' \<and> in_step (view v') (fib v') ins \<and> fst ` set ins = fst ` set (wanted ks)
    \<and> (\<forall>k s. map_of (wanted ks) k = Some s \<longrightarrow>
         (\<exists>r. map_of ins k = Some r \<and> session_done ppp_routes sync s (map_of (sd_installed sd) k) r))
    \<and> (removed \<noteq> 0 \<longrightarrow> (\<forall>i \<in> dom (lns_tunnels (view v')). \<exists>k x. lns_sessions (view v') k = Some x \<and> sn_tunnel x = i))"
proof -
  let ?I = "sd_installed sd" and ?W = "wanted ks"
  have W: "\<forall>(k, s) \<in> set ?W. session_key s = k" using wanted_facts(3) by blast
  have pre: "\<forall>(k, s) \<in> set (to_add ?I ?W). endpoints_ok sd s"
    "tids_agree (lns_keys (view v) \<union> tunnel_key ` snd ` set (to_add ?I ?W))" "length ?I + length ?W < 2 ^ 32"
    "\<forall>(k, s) \<in> set ?W. sync \<or> map_of ?I k = None \<longrightarrow> routes_of ppp_routes s \<noteq> None"
    using kernel length_wanted [of ks] by (auto simp: kernel_ok_def Let_def to_add_def split: if_splits)
  obtain ins1 v1 where one: "reconcile_want c iter srt ppp_routes sync ?W sd (vpp_tunnels c v) v 0 =
      (sd\<lparr>sd_installed := ins1\<rparr>, v1, Inr (length (to_add ?I ?W)))" "ok v1" "in_step (view v1) (fib v1) ins1"
    and d1: "want_done ppp_routes sync ?W (map_of ?I) (map_of ins1)"
    using reconcile_want_ok [OF iter srt v vpp_tunnels_cache [OF v] sync wanted_facts(1) W pre, of 0]
    unfolding add_0 by blast
  have keys1: "k \<in> fst ` set ins1 \<longleftrightarrow> k \<in> fst ` set ?I \<or> k \<in> fst ` set ?W" for k
    using d1 [unfolded want_done_def, rule_format, of k] unfolding map_of_dom [symmetric] by (cases "map_of ?W k") auto
  have dist: "distinct (map fst ins1)" using one(3) by (simp add: in_step_def)
  obtain ins v2 where two: "reconcile_gone c (fst ` set ?W) (map fst ins1) (sd\<lparr>sd_installed := ins1\<rparr>) v1 0 =
      (sd\<lparr>sd_installed := ins\<rparr>, v2, length (filter (\<lambda>k. k \<notin> fst ` set ?W) (map fst ins1)))" "ok v2"
      "in_step (view v2) (fib v2) ins" "map_of ins = map_of ins1 |` (fst ` set ?W \<union> - set (map fst ins1))"
    using reconcile_gone_ok [OF one(2), of "sd\<lparr>sd_installed := ins1\<rparr>" "map fst ins1" "fst ` set ?W" 0] one(3) dist
    by (auto simp: dom_map_of_conv_image_fst)
  define removed where "removed = card (fst ` set ?I - fst ` set ?W)"
  have "fst ` set ?I - fst ` set ?W = set (filter (\<lambda>k. k \<notin> fst ` set ?W) (map fst ins1))"
    unfolding set_filter set_map using keys1 by blast
  then have "removed = length (filter (\<lambda>k. k \<notin> fst ` set ?W) (map fst ins1))"
    unfolding removed_def by (simp only: distinct_card [OF distinct_filter [OF dist]])
  note two = two [folded this]
  have m: "map_of ins k = (if k \<in> fst ` set ?W then map_of ins1 k else None)" for k
    using two(4) keys1 [of k] map_of_eq_None_iff [of ins1 k] by (auto simp: restrict_map_def)
  have keys: "fst ` set ins = fst ` set ?W"
    using m keys1 unfolding set_eq_iff map_of_dom [symmetric] by (simp add: map_of_dom)
  have did: "\<exists>r. map_of ins k = Some r \<and> session_done ppp_routes sync s (map_of ?I k) r" if "map_of ?W k = Some s" for k s
    using that d1 [unfolded want_done_def, rule_format, of k] m [of k] map_of_SomeD [OF that] by force
  define v3 where "v3 = (if removed \<noteq> 0 then prune_tunnels c none (sd\<lparr>sd_installed := ins\<rparr>) v2 else v2)"
  let ?live = "{i. \<exists>k x. lns_sessions (view v2) k = Some x \<and> sn_tunnel x = i}"
  have v3: "ok v3" "fib v3 = fib v2" "lns_sessions (view v3) = lns_sessions (view v2)"
    "removed \<noteq> 0 \<Longrightarrow> lns_tunnels (view v3) = lns_tunnels (view v2) |` ?live"
    "removed = 0 \<Longrightarrow> lns_tunnels (view v3) = lns_tunnels (view v2)"
    using prune_tunnels_ok [OF two(2), of none "sd\<lparr>sd_installed := ins\<rparr>"] ip two(2) by (auto simp: v3_def)
  have "in_step (view v3) (fib v3) ins"
    unfolding v3(2)
  proof (rule in_step_prune [OF two(3) v3(3)])
    fix k x assume "lns_sessions (view v2) k = Some x"
    then have "sn_tunnel x \<in> ?live" by blast
    from restrict_in [OF this, of "lns_tunnels (view v2)"]
    show "lns_tunnels (view v3) (sn_tunnel x) = lns_tunnels (view v2) (sn_tunnel x)"
      using v3(4,5) by (cases "removed = 0") (simp_all only:, simp)
  qed
  moreover have "\<forall>i \<in> dom (lns_tunnels (view v3)). \<exists>k x. lns_sessions (view v3) k = Some x \<and> sn_tunnel x = i" if "removed \<noteq> 0"
    unfolding v3(3) v3(4) [OF that] dom_restrict by blast
  moreover have "reconcile c none iter srt ppp_routes sync ks sd v =
      (save_state (sd\<lparr>sd_installed := ins\<rparr>), v3, Inr (length (to_add ?I ?W), removed))"
    by (simp add: reconcile_def Let_def one(1) two(1) v3_def)
  ultimately show ?thesis using v3(1) keys did removed_def by blast
qed

end

text \<open>An enumeration of finite sets, as Python's iteration over a set and \<open>sorted\<close> are.\<close>

definition enumerates :: "(fib_prefix set \<Rightarrow> fib_prefix list) \<Rightarrow> bool" where
  "enumerates f \<longleftrightarrow> (\<forall>A. finite A \<longrightarrow> set (f A) = A)"

lemma enumerates_ex: "\<exists>f. enumerates f"
  unfolding enumerates_def using finite_list by metis

lemma enumeratesD: "enumerates f \<Longrightarrow> finite A \<Longrightarrow> set (f A) = A" "enumerates f \<Longrightarrow> f {} = []"
  by (auto simp: enumerates_def)

section \<open>A pass with nothing to do\<close>

text \<open>The daemon compares the kernel with its own record.  Where these agree it changes nothing, whatever VPP
  holds: this needs none of the laws of the API.\<close>

definition record_current :: "(string \<Rightarrow> fib_prefix list option) \<Rightarrow> bool \<Rightarrow> ksession list \<Rightarrow> (skey \<times> installed) list \<Rightarrow> bool" where
  "record_current ppp_routes sync ks ins \<longleftrightarrow> fst ` set ins \<subseteq> fst ` set (wanted ks)
     \<and> (\<forall>(k, s) \<in> set (wanted ks). \<exists>r. map_of ins k = Some r
          \<and> (sync \<longrightarrow> map_option set (routes_of ppp_routes s) = Some (set (in_routes r))))"

lemma reconcile_want_idle:
  assumes "iter {} = []"
    and "\<forall>(k, s) \<in> set want. \<exists>r. map_of (sd_installed sd) k = Some r
      \<and> (sync \<longrightarrow> map_option set (routes_of ppp_routes s) = Some (set (in_routes r)))"
  shows "reconcile_want c iter srt ppp_routes sync want sd cache v n = (sd, v, Inr n)"
  using assms(2) by (induction want) (auto simp: sync_routes_def route_all_def assms(1))

lemma reconcile_gone_idle:
  "set keys \<subseteq> want \<Longrightarrow> reconcile_gone c want keys sd v n = (sd, v, n)"
  by (induction keys) auto

lemma reconcile_idle:
  assumes "iter {} = []" and "record_current ppp_routes sync ks (sd_installed sd)"
  shows "reconcile c none iter srt ppp_routes sync ks sd v = (save_state sd, v, Inr (0, 0))"
  using assms
  by (simp add: reconcile_def Let_def record_current_def reconcile_want_idle reconcile_gone_idle)

end
