(* ===== verification/Syncd_Plugin.thy ===== *)
theory Syncd_Plugin
  imports Syncd_Properties Syncd_Parse Api_Handlers
begin

text \<open>
  The daemon against the plugin.  \<open>api_client\<close> is what a call of the daemon does: the message in network
  order, the handler of \<open>Api_Handlers\<close>, the index out of the reply.  It fulfils the contract of
  \<open>Syncd_Properties\<close>, so a pass of the daemon makes the plugin's own tables match the kernel.
\<close>

section \<open>The API as the daemon sees it\<close>

text \<open>\<open>ae_decode\<close>, \<open>ae_prefix_decode\<close> and \<open>ae_encode\<close> are VPP's codecs, \<open>ae_papi_ip\<close> and \<open>ae_papi_prefix\<close> those of
  \<open>vpp_papi\<close>, \<open>ae_str\<close> the address it reads out of a reply.  The next five fields are what VPP hands out:
  pool slots, interfaces, the adjacency and the table of a route.\<close>

record ('h, 'a, 'p) api_env =
  ae_decode :: "'a \<Rightarrow> ip46_address"
  ae_encode :: "ip46_address \<Rightarrow> 'a"
  ae_prefix_decode :: "'p \<Rightarrow> fib_prefix"
  ae_papi_ip :: "ip46_address \<Rightarrow> 'a"
  ae_papi_prefix :: "fib_prefix \<Rightarrow> 'p"
  ae_str :: "'a \<Rightarrow> ip46_address"
  ae_client :: u32
  ae_context :: u32
  ae_tunnel_slot :: "'h l2tvpp_main \<Rightarrow> u32"
  ae_session_slot :: "'h l2tvpp_main \<Rightarrow> u32"
  ae_hw :: "'h l2tvpp_main \<Rightarrow> u32"
  ae_sw :: "'h l2tvpp_main \<Rightarrow> u32"
  ae_route :: "'h l2tvpp_main \<Rightarrow> fib_prefix \<Rightarrow> u32 \<times> u32"
  ae_counters :: "u32 \<Rightarrow> (u64 \<times> u64) \<times> (u64 \<times> u64)"

text \<open>The codecs agree, and VPP hands out a free index whenever there is one.\<close>

definition env_ok :: "('h, 'a, 'p) api_env \<Rightarrow> bool" where
  "env_ok e \<longleftrightarrow> (\<forall>a. ae_decode e (ae_papi_ip e a) = a) \<and> (\<forall>p. ae_prefix_decode e (ae_papi_prefix e p) = p)
     \<and> (\<forall>a. ae_str e (ae_encode e a) = a)
     \<and> (\<forall>lm. (\<exists>i. pool_elt (tunnels lm) i = None) \<longrightarrow> pool_elt (tunnels lm) (ae_tunnel_slot e lm) = None)
     \<and> (\<forall>lm. (\<exists>i. i \<noteq> - 1 \<and> pool_elt (sessions lm) i = None) \<longrightarrow>
          ae_session_slot e lm \<noteq> - 1 \<and> pool_elt (sessions lm) (ae_session_slot e lm) = None)
     \<and> (\<forall>lm. (\<exists>i. session_of_sw_if_index lm i = None) \<longrightarrow> session_of_sw_if_index lm (ae_sw e lm) = None)"

text \<open>The plugin and the paths it has in the FIB.\<close>

record 'h vpp_world =
  vw_main :: "'h l2tvpp_main"
  vw_fib :: "(fib_prefix \<times> u32) set"

fun fib_call :: "vpp_call \<Rightarrow> (fib_prefix \<times> u32) set \<Rightarrow> (fib_prefix \<times> u32) set" where
  "fib_call (Fib_table_entry_path_add2 fi p sw) ps = insert (p, sw) ps"
| "fib_call (Fib_table_entry_path_remove2 fi p sw) ps = ps - {(p, sw)}"
| "fib_call _ ps = ps"

definition reply_index :: "api_reply option \<Rightarrow> u32" where
  "reply_index rep = (case rep of None \<Rightarrow> - 1 | Some r \<Rightarrow> (case ar_index r of None \<Rightarrow> - 1 | Some i \<Rightarrow> swap32 i))"

definition api_registered :: "('h, 'a, 'p) api_env \<Rightarrow> u32 \<Rightarrow> bool" where
  "api_registered e i \<longleftrightarrow> i = ae_client e"

definition call_tunnel ::
  "('h, 'a, 'p) api_env \<Rightarrow> bool \<Rightarrow> 'h vpp_world \<Rightarrow> ip46_address \<Rightarrow> ip46_address \<Rightarrow> u16 \<Rightarrow> u16 \<Rightarrow> u16 \<Rightarrow> u16
     \<Rightarrow> u32 \<times> 'h vpp_world" where
  "call_tunnel e is_add v lip pip lp pp tid ptid =
     (case vl_api_l2tvpp_tunnel_add_del_t_handler (ae_decode e) (api_registered e) (ae_tunnel_slot e (vw_main v)) (vw_main v)
        \<lparr>mt_client_index = ae_client e, mt_context = ae_context e, mt_is_add = is_add, mt_local_ip = ae_papi_ip e lip,
         mt_peer_ip = ae_papi_ip e pip, mt_local_port = swap16 lp, mt_peer_port = swap16 pp, mt_local_tid = swap16 tid,
         mt_peer_tid = swap16 ptid\<rparr>
      of (lm, rep) \<Rightarrow> (reply_index rep, v\<lparr>vw_main := lm\<rparr>))"

text \<open>The handler is undefined only where it would go through a dead index; under the invariant it never is.\<close>

definition call_session ::
  "'h bihash_8_8 \<Rightarrow> ('h, 'a, 'p) api_env \<Rightarrow> bool \<Rightarrow> 'h vpp_world \<Rightarrow> u32 \<Rightarrow> u16 \<Rightarrow> u16 \<Rightarrow> u8 \<Rightarrow> u8 \<Rightarrow> u32 \<times> 'h vpp_world" where
  "call_session bh e is_add v ti sid psid acfc pfc =
     (case vl_api_l2tvpp_session_add_del_t_handler bh (api_registered e) (ae_session_slot e (vw_main v)) (ae_hw e (vw_main v))
        (ae_sw e (vw_main v)) (vw_main v)
        \<lparr>ms_client_index = ae_client e, ms_context = ae_context e, ms_is_add = is_add, ms_tunnel_index = swap32 ti,
         ms_local_sid = swap16 sid, ms_peer_sid = swap16 psid, ms_acfc = acfc, ms_pfc = pfc\<rparr>
      of None \<Rightarrow> (- 1, v)
       | Some (lm, rep, calls) \<Rightarrow> (reply_index rep, v\<lparr>vw_main := lm, vw_fib := fold fib_call calls (vw_fib v)\<rparr>))"

definition call_route ::
  "'h bihash_8_8 \<Rightarrow> ('h, 'a, 'p) api_env \<Rightarrow> 'h vpp_world \<Rightarrow> fib_prefix \<Rightarrow> u32 \<Rightarrow> bool \<Rightarrow> 'h vpp_world" where
  "call_route bh e v p sw is_add =
     (case vl_api_l2tvpp_route_add_del_t_handler bh (ae_prefix_decode e) (api_registered e) (fst (ae_route e (vw_main v) p))
        (snd (ae_route e (vw_main v) p)) (vw_main v)
        \<lparr>mr_client_index = ae_client e, mr_context = ae_context e, mr_is_add = is_add, mr_prefix = ae_papi_prefix e p,
         mr_sw_if_index = swap32 sw\<rparr>
      of (lm, rep, calls) \<Rightarrow> v\<lparr>vw_main := lm, vw_fib := fold fib_call calls (vw_fib v)\<rparr>)"

definition call_tunnel_dump :: "('h, 'a, 'p) api_env \<Rightarrow> 'h vpp_world \<Rightarrow> (u32 \<times> tunnel_spec) list" where
  "call_tunnel_dump e v =
     map (\<lambda>d. (swap32 (td_tunnel_index d),
        \<lparr>tn_local_ip = ae_str e (td_local_ip d), tn_peer_ip = ae_str e (td_peer_ip d),
         tn_local_port = swap16 (td_local_port d), tn_peer_port = swap16 (td_peer_port d),
         tn_local_tid = swap16 (td_local_tid d), tn_peer_tid = swap16 (td_peer_tid d)\<rparr>))
       (vl_api_l2tvpp_tunnel_dump_t_handler (ae_encode e) (api_registered e) (vw_main v)
          \<lparr>md_client_index = ae_client e, md_context = ae_context e, md_index = - 1\<rparr>)"

definition call_session_dump :: "('h, 'a, 'p) api_env \<Rightarrow> 'h vpp_world \<Rightarrow> u32 list" where
  "call_session_dump e v =
     map (\<lambda>d. swap32 (sd_tunnel_index d))
       (vl_api_l2tvpp_session_dump_t_handler (fst \<circ> ae_counters e) (snd \<circ> ae_counters e) (api_registered e) (vw_main v)
          \<lparr>md_client_index = ae_client e, md_context = ae_context e, md_index = - 1\<rparr>)"

definition api_client :: "'h bihash_8_8 \<Rightarrow> ('h, 'a, 'p) api_env \<Rightarrow> 'h vpp_world vpp_client" where
  "api_client bh e =
     \<lparr>vc_tunnel_add = call_tunnel e True,
      vc_tunnel_del = (\<lambda>v lip pip lp pp tid ptid. snd (call_tunnel e False v lip pip lp pp tid ptid)),
      vc_session_add = call_session bh e True,
      vc_session_del = (\<lambda>v ti sid psid. snd (call_session bh e False v ti sid psid 0 0)),
      vc_route = call_route bh e,
      vc_tunnel_dump = call_tunnel_dump e,
      vc_session_dump = call_session_dump e\<rparr>"

section \<open>Free indices\<close>

lemma free_tunnel_slot:
  assumes "objects_inv bh lm" shows "\<exists>i. pool_elt (tunnels lm) i = None"
proof (rule ccontr)
  assume full: "\<not> ?thesis"
  define tid where "tid i = t_local_tid (the (pool_elt (tunnels lm) i))" for i
  have "inj tid"
  proof (rule injI)
    fix i j assume "tid i = tid j"
    moreover obtain t u where "pool_elt (tunnels lm) i = Some t" "pool_elt (tunnels lm) j = Some u"
      using full by (metis option.exhaust)
    ultimately show "i = j" using assms by (simp add: tid_def objects_inv_def inv_tids_def)
  qed
  then have "card (UNIV :: u32 set) \<le> card (UNIV :: u16 set)"
    by (metis card_inj_on_le finite subset_UNIV)
  then show False by (simp add: card_word)
qed

text \<open>Live slots, interfaces and session keys correspond one to one.\<close>

lemma session_slot_card:
  assumes inv: "objects_inv bh lm"
  shows "card {i. pool_elt (sessions lm) i \<noteq> None} \<le> card (dom (lns_sessions (lns_abs bh lm)))"
proof (rule card_inj_on_le)
  define key where "key i = (case the (pool_elt (sessions lm) i) of s \<Rightarrow> (s_local_tid s, s_local_sid s))" for i
  have ok: "bh_search bh (session_by_key lm) (l2tvpp_session_key (s_local_tid s) (s_local_sid s)) = Some (ucast i)"
    if "pool_elt (sessions lm) i = Some s" for i s
    using inv that by (simp add: objects_inv_def inv_sessions_def session_ok_def sess_key_def)
  show "inj_on key {i. pool_elt (sessions lm) i \<noteq> None}"
  proof (rule inj_onI)
    fix i j assume "i \<in> {i. pool_elt (sessions lm) i \<noteq> None}" "j \<in> {i. pool_elt (sessions lm) i \<noteq> None}" "key i = key j"
    then obtain s u where "pool_elt (sessions lm) i = Some s" "pool_elt (sessions lm) j = Some u"
      "s_local_tid s = s_local_tid u" "s_local_sid s = s_local_sid u" by (auto simp: key_def)
    with ok [of i s] ok [of j u] have "ucast i = (ucast j :: u64)" by simp
    then show "i = j" by (metis ucast_u32_u64_u32)
  qed
  show "key ` {i. pool_elt (sessions lm) i \<noteq> None} \<subseteq> dom (lns_sessions (lns_abs bh lm))"
    using ok by (auto simp: key_def)
qed simp

lemma free_session_slot:
  assumes inv: "objects_inv bh lm" and room: "card (dom (lns_sessions (lns_abs bh lm))) < 2 ^ 32 - 1"
  shows "\<exists>i. i \<noteq> - 1 \<and> pool_elt (sessions lm) i = None"
proof (rule ccontr)
  assume "\<not> ?thesis"
  then have "UNIV - {- 1} \<subseteq> {i. pool_elt (sessions lm) i \<noteq> None}" by auto
  then have "card (UNIV - {- 1 :: u32}) \<le> card {i. pool_elt (sessions lm) i \<noteq> None}" by (intro card_mono) simp_all
  with session_slot_card [OF inv] room show False by (simp add: card_word)
qed

lemma free_interface:
  assumes inv: "objects_inv bh lm" and room: "card (dom (lns_sessions (lns_abs bh lm))) < 2 ^ 32 - 1"
  shows "\<exists>sw. session_of_sw_if_index lm sw = None"
proof (rule ccontr)
  assume full: "\<not> ?thesis"
  define si where "si sw = the (session_of_sw_if_index lm sw)" for sw
  have si: "\<exists>s. pool_elt (sessions lm) (si sw) = Some s \<and> s_sw_if_index s = sw" for sw
    using inv full by (simp add: si_def objects_inv_def inv_swif_def)
  have "inj si" by (rule injI) (metis si option.inject)
  moreover have "range si \<subseteq> {i. pool_elt (sessions lm) i \<noteq> None}" using si by fastforce
  ultimately have "card (UNIV :: u32 set) \<le> card {i. pool_elt (sessions lm) i \<noteq> None}" by (intro card_inj_on_le) simp_all
  with session_slot_card [OF inv] room show False by (simp add: card_word)
qed

section \<open>The contract holds\<close>

definition world_ok :: "'h bihash_8_8 \<Rightarrow> ('h, 'a, 'p) api_env \<Rightarrow> 'h vpp_world \<Rightarrow> bool" where
  "world_ok bh e v \<longleftrightarrow> env_ok e \<and> objects_inv bh (vw_main v)
     \<and> (\<forall>i t. lns_tunnels (lns_abs bh (vw_main v)) i = Some t \<longrightarrow> ip46_address_is_ip4 (tn_peer_ip t))"

definition world_view :: "'h bihash_8_8 \<Rightarrow> 'h vpp_world \<Rightarrow> lns" where
  "world_view bh v = lns_abs bh (vw_main v)"

lemma world_okI:
  assumes "env_ok e" and "objects_inv bh (vw_main v)"
    and "\<And>i t. lns_tunnels (world_view bh v) i = Some t \<Longrightarrow> ip46_address_is_ip4 (tn_peer_ip t)"
  shows "world_ok bh e v"
  using assms by (simp add: world_ok_def world_view_def del: abs_sel)

lemma world_okD:
  assumes "world_ok bh e v"
  shows "env_ok e" "objects_inv bh (vw_main v)"
    "lns_tunnels (world_view bh v) i = Some t \<Longrightarrow> ip46_address_is_ip4 (tn_peer_ip t)"
  using assms by (simp_all add: world_ok_def world_view_def del: abs_sel)

lemma call_tunnel_run:
  assumes "env_ok e"
    and "l2tvpp_tunnel_add_del (ae_tunnel_slot e (vw_main v)) (vw_main v) lip pip lp pp tid ptid a = (rv, lm, out)"
  shows "call_tunnel e a v lip pip lp pp tid ptid = (case out of None \<Rightarrow> - 1 | Some i \<Rightarrow> i, v\<lparr>vw_main := lm\<rparr>)"
  using assms
  by (simp add: call_tunnel_def vl_api_l2tvpp_tunnel_add_del_t_handler_def env_ok_def api_reply_to_def api_registered_def
      reply_index_def)

lemma call_tunnel_add:
  assumes v: "world_ok bh e v" and ip: "ip46_address_is_ip4 lip" "ip46_address_is_ip4 pip"
    and tid: "\<forall>j u. lns_tunnels (world_view bh v) j = Some u \<longrightarrow> tn_local_tid u \<noteq> tid"
    and res: "call_tunnel e True v lip pip lp pp tid ptid = (i, v')"
  shows "world_ok bh e v' \<and> lns_tunnels (world_view bh v) i = None \<and> vw_fib v' = vw_fib v
    \<and> world_view bh v' = (world_view bh v)\<lparr>lns_tunnels := (lns_tunnels (world_view bh v))(i \<mapsto>
        \<lparr>tn_local_ip = lip, tn_peer_ip = pip, tn_local_port = lp, tn_peer_port = pp, tn_local_tid = tid,
         tn_peer_tid = ptid\<rparr>)\<rparr>"
proof -
  let ?lm = "vw_main v" and ?slot = "ae_tunnel_slot e (vw_main v)"
  note inv = world_okD [OF v]
  obtain rv lm' out where r: "l2tvpp_tunnel_add_del ?slot ?lm lip pip lp pp tid ptid True = (rv, lm', out)"
    by (metis surj_pair)
  have free: "pool_elt (tunnels ?lm) ?slot = None"
    using inv(1) free_tunnel_slot [OF inv(2)] by (simp add: env_ok_def)
  have other: "\<forall>j u. pool_elt (tunnels ?lm) j = Some u \<longrightarrow> t_local_tid u \<noteq> tid"
    using tid unfolding world_view_def by fastforce
  then have unused: "tid_not_shared ?lm pip pp tid" by (auto simp: tid_not_shared_def)
  from other have "\<not> lns_has_tunnel (lns_abs bh ?lm) pip pp tid"
    by (auto simp: lns_has_tunnel_def tunnel_matches_def)
  with tunnel_add_square [OF r, of bh] ip have "rv = RV_OK"
    and view: "lns_abs bh lm' = (lns_abs bh ?lm)\<lparr>lns_tunnels := (lns_tunnels (lns_abs bh ?lm))(?slot \<mapsto>
        \<lparr>tn_local_ip = lip, tn_peer_ip = pip, tn_local_port = lp, tn_peer_port = pp, tn_local_tid = tid,
         tn_peer_tid = ptid\<rparr>)\<rparr>"
    by (simp_all del: abs_sel)
  then have out: "out = Some ?slot" using r by (auto simp: l2tvpp_tunnel_add_del_def Let_def split: if_splits option.splits)
  have i: "i = ?slot" "v' = v\<lparr>vw_main := lm'\<rparr>" using res call_tunnel_run [OF inv(1) r] out by simp_all
  have "objects_inv bh lm'"
    by (rule tunnel_add_del_inv [OF inv(2) _ _ r]) (simp_all add: pool_is_free_index_def free unused)
  then have "world_ok bh e v'"
    using inv(1,3) ip(2) by (intro world_okI) (auto simp: i(2) world_view_def view simp del: abs_sel split: if_splits)
  then show ?thesis using view free by (simp add: i world_view_def)
qed

lemma view_one_tunnel:
  assumes "world_ok bh e v" and "lns_tunnels (world_view bh v) i = Some t" and "lns_tunnels (world_view bh v) j = Some u"
    and "tn_local_tid t = tn_local_tid u"
  shows "i = j"
  using assms by (auto simp: world_ok_def world_view_def objects_inv_def inv_tids_def)

lemma call_tunnel_del:
  fixes lp ptid
  assumes v: "world_ok bh e v" and ip: "ip46_address_is_ip4 lip" and t: "lns_tunnels (world_view bh v) i = Some t"
    and unused: "\<forall>k x. lns_sessions (world_view bh v) k = Some x \<longrightarrow> sn_tunnel x \<noteq> i"
  defines "v' \<equiv> snd (call_tunnel e False v lip (tn_peer_ip t) lp (tn_peer_port t) (tn_local_tid t) ptid)"
  shows "world_ok bh e v' \<and> vw_fib v' = vw_fib v
    \<and> world_view bh v' = (world_view bh v)\<lparr>lns_tunnels := (lns_tunnels (world_view bh v))(i := None)\<rparr>"
proof -
  note inv = world_okD [OF v]
  let ?m = "tn_matches (tn_peer_ip t) (tn_peer_port t) (tn_local_tid t)"
  obtain rv lm' out where r: "l2tvpp_tunnel_add_del (ae_tunnel_slot e (vw_main v)) (vw_main v) lip (tn_peer_ip t) lp
      (tn_peer_port t) (tn_local_tid t) ptid False = (rv, lm', out)" by (metis surj_pair)
  have v': "v' = v\<lparr>vw_main := lm'\<rparr>" using call_tunnel_run [OF inv(1) r] by (simp add: v'_def)
  have self: "?m t" by (simp add: tn_matches_def)
  have uniq: "j = i" if "lns_tunnels (world_view bh v) j = Some u" "?m u" for j u
    using view_one_tunnel [OF v that(1) t] that(2) by (simp add: tn_matches_def)
  have has: "lns_has_tunnel (world_view bh v) (tn_peer_ip t) (tn_peer_port t) (tn_local_tid t)"
    "\<not> lns_tunnel_in_use (world_view bh v) (tn_peer_ip t) (tn_peer_port t) (tn_local_tid t)"
    using t self uniq unused unfolding lns_has_tunnel_def lns_tunnel_in_use_def by metis+
  have "(\<lambda>j. case lns_tunnels (world_view bh v) j of None \<Rightarrow> None | Some u \<Rightarrow> if ?m u then None else Some u)
      = (lns_tunnels (world_view bh v))(i := None)"
    (is "?f = _")
  proof (rule ext)
    fix j
    have "\<not> ?m u" if "lns_tunnels (world_view bh v) j = Some u" "j \<noteq> i" for u using uniq that by blast
    then show "?f j = ((lns_tunnels (world_view bh v))(i := None)) j"
      using t self by (cases "lns_tunnels (world_view bh v) j"; cases "j = i") simp_all
  qed
  with tunnel_del_square [OF inv(2) r, folded world_view_def] has ip inv(3) [OF t]
  have view: "lns_abs bh lm' = (world_view bh v)\<lparr>lns_tunnels := (lns_tunnels (world_view bh v))(i := None)\<rparr>"
    by simp
  have "world_ok bh e v'"
    using inv tunnel_del_inv_any [OF inv(2) r]
    by (intro world_okI) (auto simp: v' world_view_def [of bh "v\<lparr>vw_main := lm'\<rparr>"] view split: if_splits)
  then show ?thesis by (simp add: v' world_view_def [of bh "v\<lparr>vw_main := lm'\<rparr>"] view)
qed

text \<open>The calls of a session operation leave the FIB alone.\<close>

lemma session_calls_fib:
  assumes "l2tvpp_session_add_del bh slot hw sw lm ti sid psid acfc pfc a = Some (rv, lm', out, calls)"
  shows "fold fib_call calls ps = ps"
  using assms
  by (auto simp: l2tvpp_session_add_del_def l2tvpp_session_add_def l2tvpp_session_del_def Let_def
      bind_eq_Some_conv split: option.splits if_splits prod.splits)

lemma call_session_run:
  assumes "l2tvpp_session_add_del bh (ae_session_slot e (vw_main v)) (ae_hw e (vw_main v)) (ae_sw e (vw_main v)) (vw_main v)
      ti sid psid acfc pfc a = Some (rv, lm, out, calls)"
  shows "call_session bh e a v ti sid psid acfc pfc = (case out of None \<Rightarrow> - 1 | Some i \<Rightarrow> i, v\<lparr>vw_main := lm\<rparr>)"
  using assms session_calls_fib [OF assms]
  by (simp add: call_session_def vl_api_l2tvpp_session_add_del_t_handler_def api_reply_to_def api_registered_def
      reply_index_def)

lemma call_session_add:
  assumes v: "world_ok bh e v" and t: "lns_tunnels (world_view bh v) ti = Some t"
    and new: "lns_sessions (world_view bh v) (tn_local_tid t, sid) = None"
    and room: "card (dom (lns_sessions (world_view bh v))) < 2 ^ 32 - 1"
    and res: "call_session bh e True v ti sid psid acfc pfc = (sw, v')"
  shows "world_ok bh e v' \<and> vw_fib v' = vw_fib v
    \<and> world_view bh v' = (world_view bh v)\<lparr>lns_sessions := (lns_sessions (world_view bh v))((tn_local_tid t, sid) \<mapsto>
        \<lparr>sn_tunnel = ti, sn_peer_sid = psid, sn_acfc = acfc, sn_pfc = pfc, sn_sw_if_index = sw\<rparr>)\<rparr>"
proof -
  let ?lm = "vw_main v" and ?slot = "ae_session_slot e (vw_main v)" and ?hw = "ae_hw e (vw_main v)" and ?sw = "ae_sw e (vw_main v)"
  note inv = world_okD [OF v] and room = room [unfolded world_view_def]
  obtain rv lm' out calls where
    r: "l2tvpp_session_add_del bh ?slot ?hw ?sw ?lm ti sid psid acfc pfc True = Some (rv, lm', out, calls)"
    using session_add_del_defined [OF inv(2)] by (metis option.exhaust surj_pair)
  have free: "pool_is_free_index (sessions ?lm) ?slot" "?slot \<noteq> - 1" "session_of_sw_if_index ?lm ?sw = None"
    using inv(1) free_session_slot [OF inv(2) room] free_interface [OF inv(2) room]
    by (simp_all add: env_ok_def pool_is_free_index_def)
  have "rv = RV_OK" and view: "lns_abs bh lm' = (world_view bh v)\<lparr>lns_sessions := (lns_sessions (world_view bh v))
      ((tn_local_tid t, sid) \<mapsto>
        \<lparr>sn_tunnel = ti, sn_peer_sid = psid, sn_acfc = acfc, sn_pfc = pfc, sn_sw_if_index = ?sw\<rparr>)\<rparr>"
    using session_add_square [OF inv(2) _ r, folded world_view_def] free(1) t new
    by (auto simp: pool_is_free_index_def domIff)
  then have "out = Some ?sw"
    using r by (auto simp: l2tvpp_session_add_del_def Let_def split: option.splits prod.splits)
  then have sw: "sw = ?sw" "v' = v\<lparr>vw_main := lm'\<rparr>" using res call_session_run [OF r] by simp_all
  have "world_ok bh e v'"
    using inv session_add_del_inv [OF inv(2) free r]
    by (intro world_okI) (auto simp: sw world_view_def [of bh "v\<lparr>vw_main := lm'\<rparr>"] view)
  then show ?thesis by (simp add: sw world_view_def [of bh "v\<lparr>vw_main := lm'\<rparr>"] view)
qed

lemma call_session_del:
  fixes psid
  assumes v: "world_ok bh e v" and t: "lns_tunnels (world_view bh v) ti = Some t"
    and x: "lns_sessions (world_view bh v) (tn_local_tid t, sid) = Some x"
  defines "v' \<equiv> snd (call_session bh e False v ti sid psid 0 0)"
  shows "world_ok bh e v' \<and> vw_fib v' = vw_fib v
    \<and> world_view bh v' = (world_view bh v)\<lparr>lns_sessions := (lns_sessions (world_view bh v))((tn_local_tid t, sid) := None)\<rparr>"
proof -
  note inv = world_okD [OF v]
  obtain rv lm' out calls where r: "l2tvpp_session_add_del bh (ae_session_slot e (vw_main v)) (ae_hw e (vw_main v))
      (ae_sw e (vw_main v)) (vw_main v) ti sid psid 0 0 False = Some (rv, lm', out, calls)"
    using session_add_del_defined [OF inv(2)] by (metis option.exhaust surj_pair)
  have v': "v' = v\<lparr>vw_main := lm'\<rparr>" using call_session_run [OF r] by (simp add: v'_def)
  have view: "lns_abs bh lm' = (world_view bh v)\<lparr>lns_sessions := (lns_sessions (world_view bh v))((tn_local_tid t, sid) := None)\<rparr>"
    using session_del_square [OF inv(2) r, folded world_view_def] t domI [of "lns_sessions (world_view bh v)", OF x] by simp
  have "world_ok bh e v'"
    using inv session_del_inv_any [OF inv(2) r]
    by (intro world_okI) (auto simp: v' world_view_def [of bh "v\<lparr>vw_main := lm'\<rparr>"] view)
  then show ?thesis by (simp add: v' world_view_def [of bh "v\<lparr>vw_main := lm'\<rparr>"] view)
qed

lemma view_session:
  assumes v: "world_ok bh e v" and x: "lns_sessions (world_view bh v) (tid, sid) = Some x"
  obtains si s where "pool_elt (sessions (vw_main v)) si = Some s" "x = session_abs s" "s_local_tid s = tid" "s_local_sid s = sid"
    "session_ok bh (vw_main v) si s"
proof -
  note inv = world_okD(2) [OF v]
  obtain w s where w: "bh_search bh (session_by_key (vw_main v)) (l2tvpp_session_key tid sid) = Some w"
    "pool_elt (sessions (vw_main v)) (ucast w) = Some s" "x = session_abs s"
    using x by (auto simp: world_view_def bind_eq_Some_conv)
  have "sess_key s = l2tvpp_session_key tid sid" using session_found_live [OF inv w(1)] w(2) by auto
  moreover have "session_ok bh (vw_main v) (ucast w) s" using inv w(2) by (simp add: objects_inv_def inv_sessions_def)
  ultimately show thesis using w(2,3) by (intro that) (simp_all add: sess_key_def session_key_inj)
qed

lemma call_route_ok:
  fixes p a
  assumes v: "world_ok bh e v" and x: "lns_sessions (world_view bh v) k = Some x"
  defines "v' \<equiv> call_route bh e v p (sn_sw_if_index x) a"
  shows "world_ok bh e v' \<and> world_view bh v' = world_view bh v
    \<and> vw_fib v' = (if a then insert (p, sn_sw_if_index x) (vw_fib v) else vw_fib v - {(p, sn_sw_if_index x)})"
proof -
  note inv = world_okD [OF v]
  let ?sw = "sn_sw_if_index x" and ?fi = "fst (ae_route e (vw_main v) p)" and ?ai = "snd (ae_route e (vw_main v) p)"
  obtain tid sid where "k = (tid, sid)" by (cases k)
  then obtain si s where "x = session_abs s" "session_ok bh (vw_main v) si s" using view_session [OF v] x by metis
  then have live: "session_of_sw_if_index (vw_main v) ?sw = Some si" by (simp add: session_ok_def)
  obtain rv lm' calls where r: "l2tvpp_route_add_del bh ?fi ?ai (vw_main v) p ?sw a = (rv, lm', calls)" by (metis surj_pair)
  have fib: "fold fib_call calls ps = (if a then insert (p, ?sw) ps else ps - {(p, ?sw)})" for ps
    using r live
    by (auto simp: l2tvpp_route_add_del_def l2tvpp_encap_adj_add_del_def Let_def
        split: if_splits prod.splits option.splits)
  have v': "v' = v\<lparr>vw_main := lm', vw_fib := fold fib_call calls (vw_fib v)\<rparr>"
    using r inv(1) by (simp add: v'_def call_route_def vl_api_l2tvpp_route_add_del_t_handler_def env_ok_def)
  have view: "world_view bh v' = world_view bh v"
    unfolding world_view_def v' by (simp, rule abs_frame) (simp_all add: route_frame [OF r])
  have "world_ok bh e v'"
    using inv route_add_del_inv [OF inv(2) r] by (intro world_okI) (auto simp: view, simp_all add: v')
  then show ?thesis using view fib by (simp add: v')
qed

lemma call_tunnel_dump_ok:
  assumes "world_ok bh e v"
  shows "set (call_tunnel_dump e v) = {(i, t). lns_tunnels (world_view bh v) i = Some t}"
  using world_okD(1) [OF assms]
  by (force simp: call_tunnel_dump_def vl_api_l2tvpp_tunnel_dump_t_handler_def api_registered_def send_tunnel_details_def
      env_ok_def world_view_def tunnel_abs_def set_pool_indices image_iff)

lemma call_session_dump_ok:
  assumes "world_ok bh e v"
  shows "set (call_session_dump e v) = {i. \<exists>k x. lns_sessions (world_view bh v) k = Some x \<and> sn_tunnel x = i}"
proof -
  have "set (call_session_dump e v) = {i. \<exists>si s. pool_elt (sessions (vw_main v)) si = Some s \<and> s_tunnel_index s = i}"
    by (force simp: call_session_dump_def vl_api_l2tvpp_session_dump_t_handler_def api_registered_def
        send_session_details_def set_pool_indices image_iff)
  then show ?thesis
    using abs_session_iff [OF world_okD(2) [OF assms], folded world_view_def] by simp
qed

lemma client_sel:
  "vc_tunnel_add (api_client bh e) = call_tunnel e True"
  "vc_tunnel_del (api_client bh e) v lip pip lp pp tid ptid = snd (call_tunnel e False v lip pip lp pp tid ptid)"
  "vc_session_add (api_client bh e) = call_session bh e True"
  "vc_session_del (api_client bh e) v ti sid psid = snd (call_session bh e False v ti sid psid 0 0)"
  "vc_route (api_client bh e) = call_route bh e"
  "vc_tunnel_dump (api_client bh e) = call_tunnel_dump e"
  "vc_session_dump (api_client bh e) = call_session_dump e"
  by (simp_all add: api_client_def)

interpretation api: lns_client "api_client bh e" "world_view bh" vw_fib "world_ok bh e"
proof unfold_locales
  fix v k x assume v: "world_ok bh e v" and x: "lns_sessions (world_view bh v) k = Some x"
  obtain tid sid where k: "k = (tid, sid)" by (cases k)
  then obtain si s where "x = session_abs s" "s_local_tid s = tid" "session_ok bh (vw_main v) si s"
    using view_session [OF v] x by metis
  then show "\<exists>t. lns_tunnels (world_view bh v) (sn_tunnel x) = Some t \<and> tn_local_tid t = fst k"
    by (auto simp: session_ok_def world_view_def k)
next
  fix v k x l y assume v: "world_ok bh e v" and x: "lns_sessions (world_view bh v) k = Some x"
    "lns_sessions (world_view bh v) l = Some y" "sn_sw_if_index x = sn_sw_if_index y"
  obtain si s where s: "pool_elt (sessions (vw_main v)) si = Some s" "x = session_abs s" "session_ok bh (vw_main v) si s"
    "k = (s_local_tid s, s_local_sid s)" using view_session [OF v, of "fst k" "snd k"] x(1) by (metis prod.collapse)
  obtain sj u where u: "pool_elt (sessions (vw_main v)) sj = Some u" "y = session_abs u" "session_ok bh (vw_main v) sj u"
    "l = (s_local_tid u, s_local_sid u)" using view_session [OF v, of "fst l" "snd l"] x(2) by (metis prod.collapse)
  have "si = sj" using s(2,3) u(2,3) x(3) by (simp add: session_ok_def)
  then show "k = l" using s u by simp
qed (unfold client_sel, (fact view_one_tunnel world_okD(3) call_tunnel_add call_tunnel_del call_session_add call_session_del
    call_route_ok call_tunnel_dump_ok call_session_dump_ok)+)

section \<open>An example\<close>

text \<open>First-fit allocation and identical codecs.\<close>

definition first_gap :: "('x \<Rightarrow> bool) \<Rightarrow> 'x list \<Rightarrow> u32" where
  "first_gap used xs = of_nat (length (takeWhile used xs))"

definition ex_env :: "('h, ip46_address, fib_prefix) api_env" where
  "ex_env = \<lparr>ae_decode = id, ae_encode = id, ae_prefix_decode = id, ae_papi_ip = id, ae_papi_prefix = id, ae_str = id,
     ae_client = 1, ae_context = 7, ae_tunnel_slot = (\<lambda>lm. first_gap (\<lambda>x. x \<noteq> None) (tunnels lm)),
     ae_session_slot = (\<lambda>lm. first_gap (\<lambda>x. x \<noteq> None) (sessions lm)), ae_hw = (\<lambda>lm. 7),
     ae_sw = (\<lambda>lm. first_gap (\<lambda>i. i \<noteq> - 1) (session_index_by_sw_if_index lm)), ae_route = (\<lambda>lm p. (0, 9)),
     ae_counters = (\<lambda>i. ((0, 0), (0, 0)))\<rparr>"

lemma takeWhile_le: "i < length xs \<Longrightarrow> \<not> P (xs ! i) \<Longrightarrow> length (takeWhile P xs) \<le> i"
  using set_takeWhileD [of "xs ! i" P xs] nth_mem [of i "takeWhile P xs"]
  by (metis leI takeWhile_nth)

lemma first_gap:
  fixes i :: u32
  assumes "unat i < length xs \<Longrightarrow> \<not> used (xs ! unat i)"
  shows "unat (first_gap used xs) \<le> unat i"
    and "unat (first_gap used xs) < length xs \<Longrightarrow> \<not> used (xs ! unat (first_gap used xs))"
proof -
  have le: "length (takeWhile used xs) \<le> unat i"
    using assms takeWhile_le [of "unat i" xs used] length_takeWhile_le [of used xs] by (cases "unat i < length xs") auto
  have u: "unat (first_gap used xs) = length (takeWhile used xs)"
    using le unat_u32_less [of i] by (simp add: first_gap_def unat_of_nat)
  show "unat (first_gap used xs) \<le> unat i" using le u by simp
  show "\<not> used (xs ! unat (first_gap used xs))" if "unat (first_gap used xs) < length xs"
    using that unfolding u by (rule nth_length_takeWhile)
qed

lemma first_free_slot:
  assumes "pool_elt p i = None"
  shows "pool_elt p (first_gap (\<lambda>x. x \<noteq> None) p) = None" "unat (first_gap (\<lambda>x. x \<noteq> None) p) \<le> unat i"
  using first_gap [of i p "\<lambda>x. x \<noteq> None"] assms by (auto simp: pool_elt_def split: if_splits)

lemma ex_env_ok: "env_ok (ex_env :: ('h, ip46_address, fib_prefix) api_env)"
proof -
  let ?slot = "\<lambda>p. first_gap (\<lambda>x. x \<noteq> None) p"
  have "?slot p \<noteq> - 1 \<and> pool_elt p (?slot p) = None" if "i \<noteq> - 1" "pool_elt p i = None" for p :: "l2tvpp_session pool" and i
  proof -
    have "unat i < unat (- 1 :: u32)" 
      using that(1) word_order.not_eq_extremum [of i] by (simp add: word_less_nat_alt)
    then have "?slot p \<noteq> - 1" using first_free_slot(2) [OF that(2)] by auto
    then show ?thesis using first_free_slot(1) [OF that(2)] by simp
  qed
  moreover have "session_of_sw_if_index lm (first_gap (\<lambda>i. i \<noteq> - 1) (session_index_by_sw_if_index lm)) = None"
    if "session_of_sw_if_index lm i = None" for lm :: "'h l2tvpp_main" and i
    using that first_gap(2) [of i "session_index_by_sw_if_index lm" "\<lambda>i. i \<noteq> - 1"]
    by (fastforce simp: session_of_sw_if_index_def split: if_splits)
  ultimately show ?thesis using first_free_slot(1) by (fastforce simp: env_ok_def ex_env_def)
qed

definition ex_ksession :: ksession where
  "ex_ksession = \<lparr>ks_peer_ip = ex_peer, ks_peer_port = 1701, ks_local_tid = 100, ks_local_sid = 1000, ks_peer_tid = 200,
     ks_peer_sid = 2000, ks_ifname = Some ''ppp0'', ks_routes = None, ks_local_ip = Some ex_local, ks_local_port = None\<rparr>"

definition ex_world :: "(u64 \<times> u64) list vpp_world" where
  "ex_world = \<lparr>vw_main = ex_init, vw_fib = {}\<rparr>"

lemma ex_init_run: "l2tvpp_init alist_bihash 0 [] = (ex_init, [Udp_register_dst_port_input])"
  by (simp add: ex_init_def l2tvpp_init_def)

lemma wanted_ex: "wanted [ex_ksession] = [((100, 1000), ex_ksession)]"
  by (simp add: wanted_def ex_ksession_def session_key_def)

lemma ex_keys: "session_key ` {s \<in> set [ex_ksession]. ks_ifname s \<noteq> None} = {(100, 1000)}"
  unfolding wanted_facts(2) [symmetric] wanted_ex by simp

definition ex_ppp_routes :: "string \<Rightarrow> fib_prefix list option" where
  "ex_ppp_routes i = Some [ex_subscriber]"

lemma ex_kernel_ok:
  assumes "lns_tunnels st = Map.empty" and "sd_installed sd = []"
  shows "kernel_ok ex_ppp_routes sync sd st [ex_ksession]"
  using assms
  by (simp add: kernel_ok_def wanted_ex to_add_def endpoints_ok_def local_ip_of_def tids_agree_def lns_keys_def)
    (simp add: ex_ksession_def ex_local_def ex_peer_def ip46_address_is_ip4_def routes_of_def ex_ppp_routes_def)

definition ex_syncd :: syncd where
  "ex_syncd = syncd_init None 1701 (Some ''/run/l2tvppd.json'') None"

definition ip46_none :: ip46_address where
  "ip46_none = \<lparr>ip46_pad = 0, ip46_ip4 = 0\<rparr>"

text \<open>A fresh plugin and an empty record are in step.\<close>

lemma start_in_step:
  assumes "bihash_ok bh" and "l2tvpp_init bh fsrc unset = (lm, calls)" and "env_ok e"
  shows "world_ok bh e \<lparr>vw_main = lm, vw_fib = {}\<rparr>" "in_step (world_view bh \<lparr>vw_main = lm, vw_fib = {}\<rparr>) {} []"
    "world_view bh \<lparr>vw_main = lm, vw_fib = {}\<rparr> = lns_empty"
proof -
  show e: "world_view bh \<lparr>vw_main = lm, vw_fib = {}\<rparr> = lns_empty"
    using assms(1,2) unfolding world_view_def
    by (intro lns_eqI) (auto simp: l2tvpp_init_def lns_empty_def pool_elt_def bihash_okD(1))
  show "world_ok bh e \<lparr>vw_main = lm, vw_fib = {}\<rparr>"
    using assms(3) init_inv [OF assms(1,2)] by (intro world_okI) (simp_all add: e lns_empty_def)
  show "in_step (world_view bh \<lparr>vw_main = lm, vw_fib = {}\<rparr>) {} []"
    unfolding e by (simp add: in_step_def routes_in_def lns_empty_def)
qed

lemmas ex_start = start_in_step [OF alist_bihash_ok ex_init_run, folded ex_world_def]

lemma ex_syncd_sel:
  "sd_installed ex_syncd = []" "sd_local_ip ex_syncd = None" "sd_state_path ex_syncd = Some ''/run/l2tvppd.json''"
  by (simp_all add: ex_syncd_def syncd_init_def load_state_def)

lemma ex_pass:
  "world_ok alist_bihash ex_env ex_world" "in_step (world_view alist_bihash ex_world) (vw_fib ex_world) (sd_installed ex_syncd)"
  "kernel_ok ex_ppp_routes True ex_syncd (world_view alist_bihash ex_world) [ex_ksession]"
  "ip46_address_is_ip4 (case sd_local_ip ex_syncd of Some ip \<Rightarrow> ip | None \<Rightarrow> ip46_none)"
  using ex_start [OF ex_env_ok]
  by (simp_all add: ex_kernel_ok ex_syncd_sel lns_empty_def ip46_none_def ip46_address_is_ip4_def) (simp add: ex_world_def)

section \<open>The daemon mirrors the kernel\<close>

text \<open>Claim C14: (refinement) a reconcile pass makes the plugin match the kernel.  VPP has what the daemon has
  recorded, the new sessions have IPv4 endpoints, a tunnel id stands for one tunnel, there are fewer than \<open>2 ^ 32\<close>
  sessions, and the prefixes the pass asks the kernel for can be read.  Then the pass succeeds;
  the decap table holds exactly the kernel's sessions that have an interface; a session that was not there goes
  to the LAC's session id over a tunnel with the LAC's endpoint and the kernel's tunnel id; with route
  synchronisation its interface has exactly the subscriber's prefixes; when sessions went away no tunnel is left
  without one; and VPP again has exactly what the daemon has recorded.\<close>

theorem daemon_mirrors_kernel:
  assumes "world_ok bh e v" and "in_step (world_view bh v) (vw_fib v) (sd_installed sd)"
    and "kernel_ok ppp_routes sync sd (world_view bh v) ks" and "enumerates iter" and "enumerates srt"
    and "ip46_address_is_ip4 (case sd_local_ip sd of Some ip \<Rightarrow> ip | None \<Rightarrow> none)"
  shows "\<exists>ins v' removed. reconcile (api_client bh e) none iter srt ppp_routes sync ks sd v =
      (save_state (sd\<lparr>sd_installed := ins\<rparr>), v', Inr (length (to_add (sd_installed sd) (wanted ks)), removed))
    \<and> removed = card (fst ` set (sd_installed sd) - fst ` set (wanted ks))
    \<and> world_ok bh e v' \<and> in_step (world_view bh v') (vw_fib v') ins
    \<and> dom (lns_sessions (world_view bh v')) = session_key ` {s \<in> set ks. ks_ifname s \<noteq> None}
    \<and> (\<forall>k s. map_of (wanted ks) k = Some s \<longrightarrow>
         (\<exists>x t. lns_sessions (world_view bh v') k = Some x \<and> lns_tunnels (world_view bh v') (sn_tunnel x) = Some t
           \<and> (map_of (sd_installed sd) k = None \<longrightarrow> sn_peer_sid x = ks_peer_sid s \<and> tn_key t = tunnel_key s)
           \<and> (sync \<longrightarrow> map_option set (routes_of ppp_routes s) = Some {p. (p, sn_sw_if_index x) \<in> vw_fib v'})))
    \<and> (removed \<noteq> 0 \<longrightarrow> (\<forall>i \<in> dom (lns_tunnels (world_view bh v')).
         \<exists>k x. lns_sessions (world_view bh v') k = Some x \<and> sn_tunnel x = i))"
proof -
  obtain ins v' where r: "reconcile (api_client bh e) none iter srt ppp_routes sync ks sd v =
      (save_state (sd\<lparr>sd_installed := ins\<rparr>), v', Inr (length (to_add (sd_installed sd) (wanted ks)),
        card (fst ` set (sd_installed sd) - fst ` set (wanted ks))))"
    and v': "world_ok bh e v'" "in_step (world_view bh v') (vw_fib v') ins" "fst ` set ins = fst ` set (wanted ks)"
    and did: "\<forall>k s. map_of (wanted ks) k = Some s \<longrightarrow>
      (\<exists>r. map_of ins k = Some r \<and> session_done ppp_routes sync s (map_of (sd_installed sd) k) r)"
    and prune: "card (fst ` set (sd_installed sd) - fst ` set (wanted ks)) \<noteq> 0 \<longrightarrow>
      (\<forall>i \<in> dom (lns_tunnels (world_view bh v')). \<exists>k x. lns_sessions (world_view bh v') k = Some x \<and> sn_tunnel x = i)"
    using api.reconcile_ok [OF enumeratesD(1) [OF assms(4)] enumeratesD(1) [OF assms(5)] assms(1,2,3,6)]
    by blast
  have "dom (lns_sessions (world_view bh v')) = session_key ` {s \<in> set ks. ks_ifname s \<noteq> None}"
    using v'(2,3) wanted_facts(2) by (simp add: in_step_def)
  moreover have "\<exists>x t. lns_sessions (world_view bh v') k = Some x \<and> lns_tunnels (world_view bh v') (sn_tunnel x) = Some t
      \<and> (map_of (sd_installed sd) k = None \<longrightarrow> sn_peer_sid x = ks_peer_sid s \<and> tn_key t = tunnel_key s)
      \<and> (sync \<longrightarrow> map_option set (routes_of ppp_routes s) = Some {p. (p, sn_sw_if_index x) \<in> vw_fib v'})"
    if w: "map_of (wanted ks) k = Some s" for k s
  proof -
    obtain r where r: "map_of ins k = Some r" "session_done ppp_routes sync s (map_of (sd_installed sd) k) r"
      using did w by blast
    then obtain x t where "lns_sessions (world_view bh v') k = Some x" "lns_tunnels (world_view bh v') (sn_tunnel x) = Some t"
      "sn_sw_if_index x = in_sw_if_index r" "sn_peer_sid x = in_peer_sid r" "tn_key t = in_tunnel_key r"
      using in_stepD [OF v'(2)] unfolding installed_as_def by blast
    then show ?thesis
      using r(2) api.routes_of_session [OF v'(1,2) r(1)] by (auto simp: session_done_def split: option.splits)
  qed
  ultimately show ?thesis using r v'(1,2) prune by blast
qed

theorem daemon_mirrors_kernel_witness:
  "\<exists>iter srt sd' v' x. enumerates iter \<and> enumerates srt
    \<and> reconcile (api_client alist_bihash ex_env) ip46_none iter srt ex_ppp_routes True [ex_ksession] ex_syncd ex_world =
        (sd', v', Inr (1, 0))
    \<and> dom (lns_sessions (world_view alist_bihash v')) = {(100, 1000)}
    \<and> lns_sessions (world_view alist_bihash v') (100, 1000) = Some x \<and> sn_peer_sid x = 2000
    \<and> {p. (p, sn_sw_if_index x) \<in> vw_fib v'} = {ex_subscriber}"
proof -
  obtain f where f: "enumerates f" using enumerates_ex ..
  have ex: "ks_peer_sid ex_ksession = 2000" "routes_of ex_ppp_routes ex_ksession = Some [ex_subscriber]"
    by (simp_all add: ex_ksession_def routes_of_def ex_ppp_routes_def)
  let ?w = "wanted [ex_ksession]" and ?I = "sd_installed ex_syncd"
  from daemon_mirrors_kernel [OF ex_pass(1-3) f f ex_pass(4), unfolded ex_keys]
  obtain ins v' removed where r: "reconcile (api_client alist_bihash ex_env) ip46_none f f ex_ppp_routes True [ex_ksession] ex_syncd
      ex_world = (save_state (ex_syncd\<lparr>sd_installed := ins\<rparr>), v', Inr (length (to_add ?I ?w), removed))"
    and n: "removed = card (fst ` set ?I - fst ` set ?w)"
    and d: "dom (lns_sessions (world_view alist_bihash v')) = {(100, 1000)}"
    and all: "\<forall>k s. map_of ?w k = Some s \<longrightarrow> (\<exists>x t. lns_sessions (world_view alist_bihash v') k = Some x
      \<and> lns_tunnels (world_view alist_bihash v') (sn_tunnel x) = Some t
      \<and> (map_of ?I k = None \<longrightarrow> sn_peer_sid x = ks_peer_sid s \<and> tn_key t = tunnel_key s)
      \<and> (True \<longrightarrow> map_option set (routes_of ex_ppp_routes s) = Some {p. (p, sn_sw_if_index x) \<in> vw_fib v'}))"
    by (elim exE conjE) (rule that; assumption)
  from r n have "reconcile (api_client alist_bihash ex_env) ip46_none f f ex_ppp_routes True [ex_ksession] ex_syncd ex_world =
      (save_state (ex_syncd\<lparr>sd_installed := ins\<rparr>), v', Inr (1, 0))"
    by (simp add: wanted_ex to_add_def ex_syncd_sel)
  moreover obtain x where "lns_sessions (world_view alist_bihash v') (100, 1000) = Some x" "sn_peer_sid x = 2000"
    "{p. (p, sn_sw_if_index x) \<in> vw_fib v'} = {ex_subscriber}"
    using all [rule_format, of "(100, 1000)" ex_ksession] ex unfolding wanted_ex ex_syncd_sel by auto
  ultimately show ?thesis using f d by blast
qed

section \<open>Restarts\<close>

text \<open>Claim C26: (roundtrip) a restart of the daemon is harmless: after a pass with route synchronisation, a daemon
  started anew on the state file of the old one, whatever its command line, finds nothing to do for the same
  kernel sessions and makes no change to VPP.\<close>

theorem daemon_restart_harmless:
  assumes "world_ok bh e v" and "in_step (world_view bh v) (vw_fib v) (sd_installed sd)"
    and "kernel_ok ppp_routes True sd (world_view bh v) ks" and "enumerates iter" and "enumerates srt"
    and "ip46_address_is_ip4 (case sd_local_ip sd of Some ip \<Rightarrow> ip | None \<Rightarrow> none)" and "sd_state_path sd = Some path"
    and "reconcile (api_client bh e) none iter srt ppp_routes True ks sd v = (sd', v', res)"
  shows "(\<exists>n. res = Inr n) \<and> sd_installed (syncd_init lip lp (Some path) (sd_saved sd')) = sd_installed sd'
    \<and> reconcile (api_client bh e) none iter srt ppp_routes sync ks (syncd_init lip lp (Some path) (sd_saved sd')) v' =
        (syncd_init lip lp (Some path) (sd_saved sd'), v', Inr (0, 0))"
proof -
  obtain ins n where r: "sd' = save_state (sd\<lparr>sd_installed := ins\<rparr>)" "res = Inr n"
    and keys: "fst ` set ins = fst ` set (wanted ks)"
    and did: "\<forall>k s. map_of (wanted ks) k = Some s \<longrightarrow>
      (\<exists>r. map_of ins k = Some r \<and> session_done ppp_routes True s (map_of (sd_installed sd) k) r)"
    using api.reconcile_ok [OF enumeratesD(1) [OF assms(4)] enumeratesD(1) [OF assms(5)] assms(1,2,3,6)]
      assms(8) by auto
  let ?sd = "syncd_init lip lp (Some path) (sd_saved sd')"
  have sd: "sd_installed ?sd = ins" "save_state ?sd = ?sd" "sd_installed sd' = ins"
    using assms(7) by (simp_all add: r(1) syncd_init_def load_state_def save_state_def)
  have "\<exists>r. map_of ins k = Some r \<and> map_option set (routes_of ppp_routes s) = Some (set (in_routes r))" if "(k, s) \<in> set (wanted ks)" for k s
    using did map_of_is_SomeI [OF wanted_facts(1) that] by (fastforce simp: session_done_def split: option.splits)
  then have "record_current ppp_routes sync ks (sd_installed ?sd)" using keys by (fastforce simp: record_current_def sd(1))
  from reconcile_idle [where iter = iter, OF enumeratesD(2) [OF assms(4)] this] show ?thesis using r(2) sd by simp
qed

theorem daemon_restart_harmless_witness:
  "\<exists>iter srt sd' v' n. reconcile (api_client alist_bihash ex_env) ip46_none iter srt ex_ppp_routes True [ex_ksession] ex_syncd ex_world =
      (sd', v', Inr n)
    \<and> reconcile (api_client alist_bihash ex_env) ip46_none iter srt ex_ppp_routes True [ex_ksession]
        (syncd_init (Some ex_local) 1702 (Some ''/run/l2tvppd.json'') (sd_saved sd')) v' =
        (syncd_init (Some ex_local) 1702 (Some ''/run/l2tvppd.json'') (sd_saved sd'), v', Inr (0, 0))"
proof -
  obtain f where f: "enumerates f" using enumerates_ex ..
  obtain sd' v' res where r: "reconcile (api_client alist_bihash ex_env) ip46_none f f ex_ppp_routes True [ex_ksession] ex_syncd ex_world =
      (sd', v', res)" by (metis surj_pair)
  from daemon_restart_harmless [OF ex_pass(1-3) f f ex_pass(4) ex_syncd_sel(3) r] r show ?thesis by metis
qed

text \<open>A restart of VPP is another matter: where the daemon's record agrees with the kernel, the fresh plugin stays
  empty.\<close>

lemma vpp_restart_not_repaired:
  assumes "bihash_ok bh" and "l2tvpp_init bh fsrc unset = (lm, calls)" and "enumerates iter"
    and "record_current ppp_routes sync ks (sd_installed sd)"
  shows "reconcile (api_client bh e) none iter srt ppp_routes sync ks sd \<lparr>vw_main = lm, vw_fib = {}\<rparr> =
      (save_state sd, \<lparr>vw_main = lm, vw_fib = {}\<rparr>, Inr (0, 0))
    \<and> dom (lns_sessions (world_view bh \<lparr>vw_main = lm, vw_fib = {}\<rparr>)) = {}"
proof -
  have "world_view bh \<lparr>vw_main = lm, vw_fib = {}\<rparr> = lns_empty" by (rule start_in_step(3) [OF assms(1,2) ex_env_ok])
  then show ?thesis
    using reconcile_idle [where iter = iter, OF enumeratesD(2) [OF assms(3)] assms(4)] by (simp add: lns_empty_def)
qed

section \<open>The loop\<close>

text \<open>Along a run, what the kernel has to be like at every turn.\<close>

fun kernel_run ::
  "'h bihash_8_8 \<Rightarrow> ('h, 'a, 'p) api_env \<Rightarrow> ip46_address \<Rightarrow> (fib_prefix set \<Rightarrow> fib_prefix list) \<Rightarrow> (fib_prefix set \<Rightarrow> fib_prefix list)
     \<Rightarrow> (ksession list \<times> (string \<Rightarrow> fib_prefix list option)) list \<Rightarrow> nat \<times> syncd \<times> 'h vpp_world \<Rightarrow> bool" where
  "kernel_run bh e none iter srt [] st = True"
| "kernel_run bh e none iter srt (k # ks) st =
     (kernel_ok (snd k) (fst st mod ROUTE_RESYNC_EVERY = 0) (fst (snd st)) (world_view bh (snd (snd st))) (fst k)
      \<and> kernel_run bh e none iter srt ks (daemon_tick (api_client bh e) none iter srt k st))"

lemma daemon_tick_ok:
  assumes "world_ok bh e v" and "in_step (world_view bh v) (vw_fib v) (sd_installed sd)"
    and "kernel_ok (snd k) (tick mod ROUTE_RESYNC_EVERY = 0) sd (world_view bh v) (fst k)" and "enumerates iter" and "enumerates srt"
    and "ip46_address_is_ip4 (case sd_local_ip sd of Some ip \<Rightarrow> ip | None \<Rightarrow> none)"
  shows "\<exists>sd' v'. daemon_tick (api_client bh e) none iter srt k (tick, sd, v) = (Suc tick, sd', v')
    \<and> world_ok bh e v' \<and> in_step (world_view bh v') (vw_fib v') (sd_installed sd') \<and> sd_local_ip sd' = sd_local_ip sd
    \<and> dom (lns_sessions (world_view bh v')) = session_key ` {s \<in> set (fst k). ks_ifname s \<noteq> None}"
proof -
  obtain ins v' n where r: "reconcile (api_client bh e) none iter srt (snd k) (tick mod ROUTE_RESYNC_EVERY = 0) (fst k) sd v =
      (save_state (sd\<lparr>sd_installed := ins\<rparr>), v', Inr n)"
    and v': "world_ok bh e v'" "in_step (world_view bh v') (vw_fib v') ins" "fst ` set ins = fst ` set (wanted (fst k))"
    using api.reconcile_ok [OF enumeratesD(1) [OF assms(4)] enumeratesD(1) [OF assms(5)] assms(1,2,3,6)] by blast
  have "sd_installed (save_state (sd\<lparr>sd_installed := ins\<rparr>)) = ins" "sd_local_ip (save_state (sd\<lparr>sd_installed := ins\<rparr>)) = sd_local_ip sd"
    by (simp_all add: save_state_def split: option.split)
  moreover have "dom (lns_sessions (world_view bh v')) = session_key ` {s \<in> set (fst k). ks_ifname s \<noteq> None}"
    using v'(2,3) wanted_facts(2) by (simp add: in_step_def)
  ultimately show ?thesis using r v' by (simp add: daemon_tick_def)
qed

lemma daemon_run_ok:
  assumes "enumerates iter" and "enumerates srt" and "world_ok bh e v"
    and "in_step (world_view bh v) (vw_fib v) (sd_installed sd)" and "kernel_run bh e none iter srt ks (tick, sd, v)"
    and "ip46_address_is_ip4 (case sd_local_ip sd of Some ip \<Rightarrow> ip | None \<Rightarrow> none)"
  shows "\<exists>sd' v'. run_daemon (api_client bh e) none iter srt ks (tick, sd, v) = (tick + length ks, sd', v')
    \<and> world_ok bh e v' \<and> in_step (world_view bh v') (vw_fib v') (sd_installed sd')
    \<and> (ks \<noteq> [] \<longrightarrow> dom (lns_sessions (world_view bh v')) = session_key ` {s \<in> set (fst (last ks)). ks_ifname s \<noteq> None})"
  using assms(3-6)
proof (induction ks arbitrary: tick sd v)
  case (Cons k ks)
  obtain sd1 v1 where one: "daemon_tick (api_client bh e) none iter srt k (tick, sd, v) = (Suc tick, sd1, v1)" "world_ok bh e v1"
    "in_step (world_view bh v1) (vw_fib v1) (sd_installed sd1)" "sd_local_ip sd1 = sd_local_ip sd"
    "dom (lns_sessions (world_view bh v1)) = session_key ` {s \<in> set (fst k). ks_ifname s \<noteq> None}"
    using daemon_tick_ok [OF Cons.prems(1,2) _ assms(1,2) Cons.prems(4), of k tick] Cons.prems(3) by auto
  show ?case
  proof (cases ks)
    case Nil
    then show ?thesis using one by (simp add: run_daemon_def)
  next
    case cons: (Cons l ls)
    have "kernel_run bh e none iter srt ks (Suc tick, sd1, v1)" using Cons.prems(3) one(1) by simp
    from Cons.IH [OF one(2,3) this] Cons.prems(4) one(1,4) cons show ?thesis by (simp add: run_daemon_def)
  qed
qed (simp add: run_daemon_def)

text \<open>Claim C13: (invariant) the daemon keeps the plugin in step for as long as it runs, provided that at every turn
  (\<open>kernel_run\<close>) the sessions new to it have a known local address and IPv4 endpoints, a local tunnel id stands for
  one tunnel among VPP's and the new sessions', there are fewer than \<open>2 ^ 32\<close> sessions, and the prefixes it asks
  the kernel for can be read; without these a pass ends in an exception or meets a tunnel id in use.  Then, from a
  fresh plugin and an empty record, over any number of turns of the loop with the kernel's sessions changing in
  between, no pass fails, the plugin's tables keep their invariant, the decap table holds exactly the sessions of the kernel's
  last list that have an interface, and tunnels, interfaces and routes are exactly those the daemon has
  recorded.\<close>

theorem daemon_keeps_in_step:
  assumes "bihash_ok bh" and "l2tvpp_init bh fsrc unset = (lm, calls)" and "env_ok e"
    and "enumerates iter" and "enumerates srt"
    and "ip46_address_is_ip4 (case lip of Some ip \<Rightarrow> ip | None \<Rightarrow> none)"
    and "kernel_run bh e none iter srt (ks @ [k]) (0, syncd_init lip lp path None, \<lparr>vw_main = lm, vw_fib = {}\<rparr>)"
  shows "\<exists>sd v. run_daemon (api_client bh e) none iter srt (ks @ [k])
        (0, syncd_init lip lp path None, \<lparr>vw_main = lm, vw_fib = {}\<rparr>) = (Suc (length ks), sd, v)
    \<and> objects_inv bh (vw_main v)
    \<and> dom (lns_sessions (world_view bh v)) = session_key ` {s \<in> set (fst k). ks_ifname s \<noteq> None}
    \<and> in_step (world_view bh v) (vw_fib v) (sd_installed sd)"
proof -
  let ?sd = "syncd_init lip lp path None" and ?v = "\<lparr>vw_main = lm, vw_fib = {}\<rparr>"
  have sd: "sd_installed ?sd = []" "sd_local_ip ?sd = lip"
    by (simp_all add: syncd_init_def load_state_def split: option.split)
  note start = start_in_step [OF assms(1-3)]
  have "in_step (world_view bh ?v) (vw_fib ?v) (sd_installed ?sd)" using start(2) sd(1) by simp
  from daemon_run_ok [OF assms(4,5) start(1) this assms(7)] assms(6) sd(2) show ?thesis
    using world_okD(2) by fastforce
qed

theorem daemon_keeps_in_step_witness:
  "\<exists>iter srt sd v. run_daemon (api_client alist_bihash ex_env) ip46_none iter srt
      [([], ex_ppp_routes), ([ex_ksession], ex_ppp_routes)] (0, ex_syncd, ex_world) = (2, sd, v)
    \<and> dom (lns_sessions (world_view alist_bihash v)) = {(100, 1000)}
    \<and> in_step (world_view alist_bihash v) (vw_fib v) (sd_installed sd)"
proof -
  obtain f where f: "enumerates f" using enumerates_ex ..
  have "record_current ex_ppp_routes True [] (sd_installed ex_syncd)"
    by (simp add: record_current_def ex_syncd_sel wanted_def)
  from reconcile_idle [where iter = f and srt = f and c = "api_client alist_bihash ex_env" and none = ip46_none and v = ex_world,
      OF enumeratesD(2) [OF f] this]
  have "daemon_tick (api_client alist_bihash ex_env) ip46_none f f ([], ex_ppp_routes) (0, ex_syncd, ex_world) =
      (1, save_state ex_syncd, ex_world)" by (simp add: daemon_tick_def)
  moreover have "sd_installed (save_state ex_syncd) = []" by (simp add: save_state_def ex_syncd_sel)
  moreover have "kernel_ok ex_ppp_routes True ex_syncd (world_view alist_bihash ex_world) []"
    by (simp add: kernel_ok_def to_add_def wanted_def ex_syncd_sel ex_start(3) [OF ex_env_ok] tids_agree_def lns_keys_def
        lns_empty_def)
  ultimately have run: "kernel_run alist_bihash ex_env ip46_none f f ([([], ex_ppp_routes)] @ [([ex_ksession], ex_ppp_routes)])
      (0, ex_syncd, ex_world)"
    using ex_start(3) [OF ex_env_ok] by (simp add: ex_kernel_ok lns_empty_def)
  have "ip46_address_is_ip4 (case None of Some ip \<Rightarrow> ip | None \<Rightarrow> ip46_none)"
    by (simp add: ip46_none_def ip46_address_is_ip4_def)
  from daemon_keeps_in_step [OF alist_bihash_ok ex_init_run ex_env_ok f f this run [unfolded ex_syncd_def ex_world_def],
      folded ex_syncd_def ex_world_def, unfolded fst_conv ex_keys]
  obtain sd v where "run_daemon (api_client alist_bihash ex_env) ip46_none f f
      ([([], ex_ppp_routes)] @ [([ex_ksession], ex_ppp_routes)]) (0, ex_syncd, ex_world) =
        (Suc (length [([] :: ksession list, ex_ppp_routes)]), sd, v)"
    "dom (lns_sessions (world_view alist_bihash v)) = {(100, 1000)}"
    "in_step (world_view alist_bihash v) (vw_fib v) (sd_installed sd)"
    by (elim exE conjE) (rule that; assumption)
  then show ?thesis by (intro exI [of _ f] exI [of _ sd] exI [of _ v]) simp
qed

section \<open>From the kernel's text to the plugin\<close>

text \<open>Claim C15: (functional) one run of the daemon, from text to tables.  The kernel's session and tunnel lists are
  printed in their formats, and VPP is in step with the state file of the last run.  The printed sessions are ones
  a pass can install (\<open>kernel_ok\<close>): those not yet recorded have their tunnel's endpoints in the printed tunnel list,
  or a local address from the command line, both ends IPv4; a local tunnel id stands for one tunnel; there are
  fewer than \<open>2 ^ 32\<close> sessions; and \<^verbatim>\<open>ip route show\<close> prints no blank line for their interfaces.  Then the run succeeds; the plugin's
  decap table then holds the printed (tunnel id, session id) pairs that have an interface and no other, and VPP has
  exactly what the new state file says.\<close>

theorem kernel_text_reaches_plugin:
  assumes "list_all proc_noise hdr" and "list_all entry_ok es" and "list_all show_ok shown" and "distinct (map se_tid shown)"
    and "world_ok bh e v" and "in_step (world_view bh v) (vw_fib v) (case saved of None \<Rightarrow> [] | Some ins \<Rightarrow> ins)"
    and "kernel_ok (ppp_routes_of prefix addr_show route_show) True (syncd_init lip lp (Some path) saved) (world_view bh v)
      (map (entry_ksession inet shown) es)"
    and "enumerates iter" and "enumerates srt" and "ip46_address_is_ip4 (case lip of Some ip \<Rightarrow> ip | None \<Rightarrow> none)"
  shows "\<exists>sd v' n ins. run_once (api_client bh e) none iter srt prefix addr_show route_show inet
        (Some (unlines (hdr @ concat (map entry_lines es)))) (unlines (concat (map show_lines shown))) lip lp (Some path) saved v =
      (sd, v', Inr n)
    \<and> world_ok bh e v' \<and> sd_saved sd = Some ins \<and> in_step (world_view bh v') (vw_fib v') ins
    \<and> dom (lns_sessions (world_view bh v')) = {(pe_local_tid e, pe_local_sid e) | e. e \<in> set es \<and> pe_ifname e \<noteq> None}"
proof -
  let ?routes = "ppp_routes_of prefix addr_show route_show"
  let ?sd = "syncd_init lip lp (Some path) saved" and ?ks = "map (entry_ksession inet shown) es"
  have sd: "sd_installed ?sd = (case saved of None \<Rightarrow> [] | Some ins \<Rightarrow> ins)" "sd_local_ip ?sd = lip" "sd_state_path ?sd = Some path"
    by (simp_all add: syncd_init_def load_state_def)
  obtain ins v' n where r: "reconcile (api_client bh e) none iter srt ?routes True ?ks ?sd v =
      (save_state (?sd\<lparr>sd_installed := ins\<rparr>), v', Inr n)"
    and v': "world_ok bh e v'" "in_step (world_view bh v') (vw_fib v') ins" "fst ` set ins = fst ` set (wanted ?ks)"
    using api.reconcile_ok [OF enumeratesD(1) [OF assms(8)] enumeratesD(1) [OF assms(9)] assms(5), of ?sd ?routes True ?ks none]
      assms(6,7,10) unfolding sd by blast
  have "dom (lns_sessions (world_view bh v')) = session_key ` {s \<in> set ?ks. ks_ifname s \<noteq> None}"
    using v'(2,3) wanted_facts(2) by (simp add: in_step_def)
  also have "\<dots> = {(pe_local_tid e, pe_local_sid e) | e. e \<in> set es \<and> pe_ifname e \<noteq> None}"
    by (force simp: entry_ksession_def session_key_def Let_def)
  finally have dom: "dom (lns_sessions (world_view bh v')) = \<dots>" .
  have "sd_saved (save_state (?sd\<lparr>sd_installed := ins\<rparr>)) = Some ins" using sd(3) by (simp add: save_state_def)
  moreover have "run_once (api_client bh e) none iter srt prefix addr_show route_show inet (Some (unlines (hdr @ concat (map entry_lines es))))
      (unlines (concat (map show_lines shown))) lip lp (Some path) saved v = (save_state (?sd\<lparr>sd_installed := ins\<rparr>), v', Inr n)"
    using r by (simp only: run_once_def kernel_sessions_printed [OF assms(1-4)])
  ultimately show ?thesis using v'(1,2) dom by blast
qed

lemma ex_text_kernel_ok:
  assumes "lns_tunnels st = Map.empty" and "sd_installed sd = []"
  shows "kernel_ok (ppp_routes_of (\<lambda>p. ex_subscriber) (\<lambda>i. []) (\<lambda>i. ''10.9.0.0/16 scope link'')) True sd st (map (entry_ksession (\<lambda>a. ex_peer) [ex_show]) [ex_entry])"
proof -
  define s where "s = entry_ksession (\<lambda>a. ex_peer) [ex_show] ex_entry"
  have s: "ks_ifname s = Some ''l2tp155''" "ks_local_ip s = Some ex_peer" "ks_peer_ip s = ex_peer"
    by (simp_all add: s_def entry_ksession_def ex_entry_def ex_show_def)
  have "ks_routes s = None" by (simp add: s_def entry_ksession_def Let_def split: option.split)
  moreover have "routed_prefixes (splitlines ''10.9.0.0/16 scope link'') \<noteq> None" by code_simp
  ultimately have routes: "\<exists>rs. routes_of (ppp_routes_of (\<lambda>p. ex_subscriber) (\<lambda>i. []) (\<lambda>i. ''10.9.0.0/16 scope link'')) s = Some rs"
    by (auto simp: routes_of_def s ppp_routes_of_def ppp_prefixes_def Let_def)
  have "wanted [s] = [(session_key s, s)]" by (simp add: wanted_def s)
  then show ?thesis
    unfolding list.map s_def [symmetric]
    using assms by (simp add: kernel_ok_def to_add_def endpoints_ok_def local_ip_of_def tids_agree_def lns_keys_def s routes)
      (simp add: ex_peer_def ip46_address_is_ip4_def)
qed

theorem kernel_text_reaches_plugin_witness:
  "\<exists>iter srt sd v' n. run_once (api_client alist_bihash ex_env) ip46_none iter srt (\<lambda>p. ex_subscriber) (\<lambda>i. []) (\<lambda>i. ''10.9.0.0/16 scope link'') (\<lambda>a. ex_peer)
      (Some (unlines ([] @ concat (map entry_lines [ex_entry])))) (unlines (concat (map show_lines [ex_show])))
      None 1701 (Some ''/run/l2tvppd.json'') None ex_world = (sd, v', Inr n)
    \<and> dom (lns_sessions (world_view alist_bihash v')) = {(5430, 115)}"
proof -
  obtain f where f: "enumerates f" using enumerates_ex ..
  note start = ex_start [OF ex_env_ok]
  have step: "in_step (world_view alist_bihash ex_world) (vw_fib ex_world) (case None of None \<Rightarrow> [] | Some ins \<Rightarrow> ins)"
    using start(2) by (simp add: ex_world_def)
  have knl: "kernel_ok (ppp_routes_of (\<lambda>p. ex_subscriber) (\<lambda>i. []) (\<lambda>i. ''10.9.0.0/16 scope link'')) True (syncd_init None 1701 (Some ''/run/l2tvppd.json'') None) (world_view alist_bihash ex_world)
      (map (entry_ksession (\<lambda>a. ex_peer) [ex_show]) [ex_entry])"
    using start(3) ex_syncd_sel(1) by (intro ex_text_kernel_ok) (simp_all add: lns_empty_def ex_syncd_def)
  have ip: "ip46_address_is_ip4 (case None of Some ip \<Rightarrow> ip | None \<Rightarrow> ip46_none)"
    by (simp add: ip46_none_def ip46_address_is_ip4_def)
  have "{(pe_local_tid e, pe_local_sid e) | e. e \<in> set [ex_entry] \<and> pe_ifname e \<noteq> None} = {(5430, 115)}"
    using ex_entry_sel by auto
  moreover have nil: "list_all proc_noise []" "distinct (map se_tid [ex_show])" by simp_all
  moreover note kernel_text_reaches_plugin [OF nil(1) ex_entry_ok ex_show_ok nil(2) start(1) step knl f f ip]
  ultimately show ?thesis by (elim exE conjE) (intro exI conjI; simp)
qed

end
