(* ===== verification/Spec2Isabelle.thy ===== *)
theory Spec2Isabelle
  imports Node_Graph Adjacency_Life Upstream Encap_Fastpath Worker_Pipeline Xdp_Stats Cli_Commands Control_Spec Syncd_Parse Syncd_Plugin
begin

text \<open>
  Verification of \<^emph>\<open>l2tvpp\<close>, the data plane of an L2TPv2 network server (LNS): a VPP plugin
  (\<^verbatim>\<open>src/plugin/l2tvpp\<close>) that terminates the PPP sessions of access concentrators (LACs), and an XDP
  program with its loader (\<^verbatim>\<open>src/xdp\<close>) that spreads the same traffic over the cores of a host which
  runs the kernel's L2TP stack instead.  A daemon (\<^verbatim>\<open>src/syncd\<close>) mirrors the kernel's sessions into the
  plugin.

  \<^bold>\<open>The program.\<close>  The daemon, or an operator, creates tunnels and sessions through the binary API or the CLI.
  A session is an interface; a subscriber's route points at it.  From the LAC, UDP port 1701 arrives at
  \<open>l2tvpp-input\<close>, which parses the L2TP and PPP headers, looks the session up by (tunnel id, session
  id) and hands the inner IP packet to \<open>ip4-input\<close> or \<open>ip6-input\<close> on the session's interface, or
  punts the packet unchanged.  A LAC is a single flow to the network card, so \<open>l2tvpp-handoff\<close> (by
  session) or \<open>l2tvpp-flow-handoff\<close> (by inner flow, optionally straight into \<open>l2tvpp-input\<close>) spread
  the packets over the workers first.  Towards the LAC, the session's adjacency carries a prebuilt
  rewrite of IP, UDP, L2TP and PPP headers, which \<open>l2tvpp_fixup\<close> completes per packet;
  \<open>l2tvpp-encap-fastpath\<close> takes packets from the uplink to that adjacency by a hash lookup of the
  subscriber's address.

  \<^bold>\<open>The theories.\<close>
  \<^item> \<open>L2tvpp_Prelude\<close>: integers at their C width, byte lists with checked big-endian reads, the
    lemma collections \<open>rd_simps\<close>, \<open>wire\<close> and \<open>buf_simps\<close>.
  \<^item> \<open>Vpp_Model\<close>: what is used of VPP: pools, \<open>clib_bihash_8_8\<close>, \<open>vlib_buffer_t\<close>, and the calls
    into VPP as a list of \<open>vpp_call\<close> values.
  \<^item> \<open>L2tp_Header\<close>: \<^verbatim>\<open>l2tvpp.h\<close>, the header parser, the decap key and the worker hash.  The parser
    is memory safe and reads back every RFC 2661 data header; the hash is a bijection of sessions.
  \<^item> \<open>L2tvpp_Objects\<close>, \<open>Objects_Invariant\<close>, \<open>Objects_Properties\<close>, \<open>Control_Spec\<close>: the control
    plane of \<^verbatim>\<open>l2tvpp.c\<close>.  The record \<open>l2tvpp_main\<close> is \<open>l2tvpp_main_t\<close>; there is one definition
    per operation, with its return code and calls.  \<open>obj_step\<close> is the step relation, \<open>objects_inv\<close> its
    invariant; the operations refine a specification made of two maps.  A step takes free slots and unused
    interfaces from VPP, and a tunnel is added under a local id that no other peer's tunnel has
    (\<open>tid_not_shared\<close>): the code does not check this, and what happens otherwise is
    \<open>shared_tunnel_id_corrupts_counts\<close>.
  \<^item> \<open>Decap_Node\<close>, \<open>Decap_Properties\<close>: \<^verbatim>\<open>node.c\<close>.  The node is safe on every frame in every
    reachable state, delivers each header form to the session it names and to no other, restores what
    it punts, and counts exactly.
  \<^item> \<open>Encap\<close>: the encapsulation half of \<^verbatim>\<open>l2tvpp.c\<close>.  The outer headers are valid, and what is
    encapsulated is decapsulated again by the other end.  \<open>Adjacency_Life\<close>: an installed encapsulation
    stays valid for the life of its session, until the memory of the session pool is moved.
  \<^item> \<open>Session_Handoff\<close>: \<^verbatim>\<open>handoff.c\<close>.  \<open>Flow_Handoff\<close>, \<open>Flow_Properties\<close>, \<open>Flow_Dispatch\<close>:
    \<^verbatim>\<open>flow_handoff.c\<close>.  Sessions keep their order; the flow handoff node sorts a frame as a specification
    packet by packet says, and accounts for every packet; the flow hash is that of the packet
    \<open>l2tvpp-input\<close> will deliver; the fast path takes only packets the checks it bypasses would have let
    through, and what is punted after it leaves as it came.
  \<^item> \<open>Upstream\<close>: the fast path takes all such packets that carry IP; packets of one inner 5-tuple stay in
    order; and a LAC's data frame goes through the flow handoff node to the interface of the session it
    names, or is counted as a congestion drop.
  \<^item> \<open>Worker_Pipeline\<close>: handoff node, worker queues, \<open>l2tvpp-input\<close> and control plane as one step
    relation, in which the handoff switch decides where arrivals go.  No interleaving reorders a session whose
    packets arrived with handoff on; switching it off with packets queued does reorder.
  \<^item> \<open>Encap_Fastpath\<close>: \<^verbatim>\<open>encap_fastpath.c\<close>.  The node follows the host routes.
  \<^item> \<open>Api_Handlers\<close>: \<^verbatim>\<open>l2tvpp_api.c\<close>.  \<open>Cli_Commands\<close>: \<^verbatim>\<open>l2tvpp_cli.c\<close>, the commands of the two
    files above and the format functions.  Sessions read back as they were created, the two front ends
    agree, and failing commands have no effect (with one exception).
  \<^item> \<open>Plugin_Lifecycle\<close>: start-up and all operations, callbacks and packets as one step relation, with
    VPP's books of the calls the plugin makes, the frame queues and the nodes they lead to included.  VPP
    accepts every call, its view agrees with the plugin's state, and the packets it can deliver are handled.
    Start-up is undefined exactly for a configured queue depth above \<open>2 ^ 31\<close>.
  \<^item> \<open>Node_Graph\<close>: the registrations of the nodes and features and the printing of packet traces.  The trace
    lines are unambiguous and agree with what was done to the packet.
  \<^item> \<open>Xdp_Steer\<close>, \<open>Xdp_Loader\<close>: \<^verbatim>\<open>l2tp_steer.bpf.c\<close> and \<^verbatim>\<open>l2tp_steer.c\<close>.  The program agrees with
    the plugin on headers and hash, steers every data frame, keeps sessions in order; the loader's list
    of cores is read back, it ends except for statistics with an interval, and a failed start leaves nothing
    attached.  \<open>Xdp_Stats\<close>: the
    counters it prints are the numbers of frames of each kind.
  \<^item> \<open>Syncd\<close>, \<open>Syncd_Parse\<close>, \<open>Syncd_Properties\<close>, \<open>Syncd_Plugin\<close>: \<^verbatim>\<open>l2tvppd.py\<close>.  The record \<open>syncd\<close> is the class
    \<open>Syncd\<close>, \<open>reconcile\<close> its pass, \<open>run_daemon\<close> the loop.  A pass is proved correct against the contract of
    the API, the handlers of \<open>Api_Handlers\<close> fulfil the contract: the plugin's tables follow the kernel's
    session list from start-up on, and a restarted daemon finds nothing to do.  The lists the kernel prints
    are read back exactly, and one run of the daemon carries them into the plugin's tables.
  \<^item> This theory: the path from the uplink to the far end of a tunnel across all components, and the
    well-formedness of buffers from node to node.

  \<^bold>\<open>Interfaces.\<close>  A locale stands for each contract between parts and is interpreted on the model's
  definitions: \<open>slot_pool\<close> (\<open>vpool\<close>, a pool and its users), \<open>session_store\<close> (\<open>objs\<close>, what the data
  plane relies on of the control plane), \<open>keyed_dispatch\<close> (\<open>session_dispatch\<close> and
  \<open>xdp_dispatch\<close>: packets of one key go one way, in order), \<open>forward_sim\<close> (\<open>ctl\<close>, commuting squares
  compose to runs) and \<open>lns_client\<close> (\<open>api\<close>, what the daemon relies on of the binary API).

  \<^bold>\<open>Parameters.\<close>  Code outside the repository is an argument, with its documented behaviour as a named
  hypothesis: \<open>bihash_ok\<close> (search after add and delete), \<open>csum_ok\<close> (one's complement sums),
  \<open>pow2_ok\<close> and \<open>max_log2_ok\<close> (the clib bit tricks), \<open>redirect_map_ok\<close> (\<open>bpf_redirect_map\<close>),
  \<open>midchain_ok\<close> (the TTL and checksum of a forwarded packet), and that \<open>vlib_buffer_enqueue_to_thread\<close> takes
  no more buffers than it is given.  \<open>clib_crc32c\<close>, the address codecs, the
  formatters and the answers of libbpf are arguments with no law.  The indices VPP allocates (pool
  slots, interfaces, adjacencies) are arguments; that they are unused is a premise where it matters
  (\<open>env_ok\<close> for the daemon, with the agreement of the codecs at both ends of the API).

  \<^bold>\<open>Conventions.\<close>  A read outside a buffer or through an index that is not live is \<open>None\<close>, so safety is
  the theorem that a node or operation returns \<open>Some\<close>.  Integers have their C width and wrap.  The host
  is little endian.  Loops over frames and items are structural recursions; the range loop of the loader,
  whose counter may wrap, and its statistics loop are each a \<open>partial_function\<close>; that the first returns, and when
  the second does not, is proved.  No fuel is used.
  A frame's packets are processed one after the other; the prefetches and unrolling of the C loops have
  no effect on the result and are left out.

  \<^bold>\<open>Not modelled.\<close>  The registrations of commands, device and hardware classes (\<open>VLIB_CLI_COMMAND\<close>,
  \<open>VNET_DEVICE_CLASS\<close>) and the message-id table are declarations the framework reads; the usage text of
  the loader is output only.  \<open>unformat\<close>, \<open>getopt\<close> and the wire codecs of VPP's API are library code.  The barrier
  under which VPP runs the control plane makes every operation atomic towards the workers, so
  interleavings inside an operation do not occur.  Of the daemon, \<open>vpp_papi\<close> with its
  address codecs, running \<open>ip\<close>, signals, argument parsing and logging are left out.  The tests, the
  build scripts and the packaging are not part of the program.
\<close>

section \<open>Towards the subscriber's LAC\<close>

lemma plain_ip4_dst_length: "plain_ip4_dst bs = Some d \<Longrightarrow> 34 \<le> length bs"
  by (simp add: plain_ip4_dst_def split: if_splits)

text \<open>What \<open>ip4-midchain\<close> does to the packet itself, before it puts the rewrite in front: it decrements the TTL
  (a packet whose TTL runs out does not get there) and updates the header checksum.  \<open>midchain\<close> stands for it.\<close>

definition ip4_forwarded :: "u8 list \<Rightarrow> u8 list \<Rightarrow> bool" where
  "ip4_forwarded p q \<longleftrightarrow> length q = length p \<and> q ! 8 = p ! 8 - 1
     \<and> (\<forall>i < length p. i \<noteq> 8 \<and> i \<noteq> 10 \<and> i \<noteq> 11 \<longrightarrow> q ! i = p ! i)"

definition midchain_ok :: "(u8 list \<Rightarrow> u8 list) \<Rightarrow> bool" where
  "midchain_ok midchain \<longleftrightarrow> (\<forall>p. 20 \<le> length p \<and> 1 < p ! 8 \<longrightarrow> ip4_forwarded p (midchain p))"

text \<open>Claim C11: (functional) a subscriber's packet reaches the subscriber: once the host route is added on
  the session's interface and VPP has had its adjacency updated, a plain IPv4 packet to that address
  leaves the encap fast path towards that adjacency without its Ethernet header.  What \<open>ip4-midchain\<close> makes of it
  (TTL at least two on arrival, one less after, checksum updated), with the adjacency's rewrite in front, becomes by
  the fixup with the session the adjacency was given a packet for the tunnel's peer with a valid outer IP header;
  and the peer, if it knows the session under the ids it assigned, gets the IP packet that came from the uplink,
  every byte but the TTL, which is one less, and the header checksum.\<close>

theorem downstream_end_to_end:
  assumes "obj_reachable bh lm" and "bihash_ok bh" and "csum_ok cs"
    and "session_of_sw_if_index lm sw = Some si" and "pool_elt (sessions lm) si = Some s"
    and "pool_elt (tunnels lm) (s_tunnel_index s) = Some t"
    and "fp_proto pfx = FIB_PROTOCOL_IP4" and "fp_len pfx = 32"
    and "l2tvpp_route_add_del bh fib ai lm pfx sw True = (rv, lm1, calls1)"
    and "l2tvpp_update_adj cs lm1 sw ai VNET_LINK_IP4 = Some (lm2, calls2)"
    and "wf_buffer b" and "plain_ip4_dst (cur_bytes b) = Some (fp_addr pfx)"
    and "obj_reachable bh' far" and "bihash_ok bh'" and "pool_elt (sessions far) fsi = Some fs"
    and "s_local_tid fs = t_peer_tid t" and "s_local_sid fs = s_peer_sid s"
    and "midchain_ok midchain" and "1 < cur_bytes b ! 22"
  shows "\<exists>eff b1 rw s2. l2tvpp_encap_fastpath_node bh lm2 [b] = Some eff
    \<and> ee_out eff = [(b1, L2TVPP_ENCAP_FP_NEXT_IP4_MIDCHAIN)] \<and> b_adj_tx b1 = ai
    \<and> Adj_nbr_midchain_update_rewrite ai si rw \<in> set calls2 \<and> pool_elt (sessions lm2) si = Some s2
    \<and> (\<forall>mb. wf_buffer mb \<and> cur_bytes mb = rw @ midchain (cur_bytes b1) \<longrightarrow>
         (\<exists>wire. l2tvpp_fixup cs s2 mb = Some wire \<and> ones_sum (take 20 (cur_bytes wire)) mod 65535 = 0
           \<and> take 4 (drop 16 (cur_bytes wire)) = st32 (ip46_ip4 (t_peer_ip t))
           \<and> (\<forall>pb. wf_buffer pb \<and> cur_bytes pb = drop 28 (cur_bytes wire) \<longrightarrow>
                (\<exists>r. l2tvpp_input_packet (inner_ip4_no_checksum far) (bh_search bh' (session_by_key far))
                    (pool_elt (sessions far)) pb = Some r
                  \<and> ip4_forwarded (drop 14 (cur_bytes b)) (cur_bytes (ir_buffer r)) \<and> b_rx (ir_buffer r) = s_sw_if_index fs
                  \<and> delivered (ir_next r)))))"
proof -
  note rf = route_frame [OF assms(9)]
  have inv1: "objects_inv bh lm1"
    by (rule route_add_del_inv [OF reachable_inv [OF assms(1,2)] assms(9)])
  have sw1: "session_of_sw_if_index lm1 sw = Some si"
    using assms(4) unfolding session_of_sw_if_index_def rf .
  obtain rw s2 where bld: "l2tvpp_build_rewrite_i cs t s VNET_LINK_IP4 = Some (rw, s2)"
    by (simp add: l2tvpp_build_rewrite_i_def link_proto_def)
  have upd: "lm2 = lm1\<lparr>sessions := pool_set (sessions lm1) si s2\<rparr>"
    "calls2 = [Adj_nbr_midchain_update_rewrite ai si rw,
       Adj_midchain_delegate_stack ai (t_encap_fib_index t) (ip46_ip4 (t_peer_ip t))]"
    by (rule update_adj_session [OF inv1 sw1, of cs ai VNET_LINK_IP4]; use assms(5,6,10) bld in \<open>simp add: rf\<close>)+
  have "encap_routes bh lm2 = encap_routes bh lm1" by (simp add: upd(1) encap_routes_def fun_eq_iff)
  then have "encap_routes bh lm2 (fp_addr pfx) = Some ai"
    using route_refines [OF assms(2,9)] assms(4,7,8) by simp
  then have spec: "encap_fastpath_spec (encap_routes bh lm2) b =
      ((vlib_buffer_advance b 14)\<lparr>b_adj_tx := ai\<rparr>, L2TVPP_ENCAP_FP_NEXT_IP4_MIDCHAIN)"
    using assms(12) by (simp add: encap_fastpath_spec_def)
  let ?b1 = "(vlib_buffer_advance b 14)\<lparr>b_adj_tx := ai\<rparr>"
  have len: "34 \<le> length (cur_bytes b)" by (rule plain_ip4_dst_length [OF assms(12)])
  then have b1: "cur_bytes ?b1 = drop 14 (cur_bytes b)"
    using cur_bytes_advance(1) [OF assms(11), of 14] assms(11) by simp
  obtain eff where eff: "l2tvpp_encap_fastpath_node bh lm2 [b] = Some eff"
    "ee_out eff = [(?b1, L2TVPP_ENCAP_FP_NEXT_IP4_MIDCHAIN)]"
    using encap_fp_loop_spec [of bh lm2 "[b]"] spec by (auto simp: l2tvpp_encap_fastpath_node_def)
  have wire: "\<exists>wire. l2tvpp_fixup cs s2 mb = Some wire \<and> ones_sum (take 20 (cur_bytes wire)) mod 65535 = 0
      \<and> take 4 (drop 16 (cur_bytes wire)) = st32 (ip46_ip4 (t_peer_ip t))
      \<and> (\<forall>pb. wf_buffer pb \<and> cur_bytes pb = drop 28 (cur_bytes wire) \<longrightarrow>
           (\<exists>r. node_packet bh' far pb = Some r \<and> ip4_forwarded (drop 14 (cur_bytes b)) (cur_bytes (ir_buffer r))
             \<and> b_rx (ir_buffer r) = s_sw_if_index fs \<and> delivered (ir_next r)))"
    if mb: "wf_buffer mb" "cur_bytes mb = rw @ midchain (cur_bytes ?b1)" for mb
  proof -
    note mb2 = mb(2) [unfolded b1]
    obtain w where w: "l2tvpp_fixup cs s2 mb = Some w" "ones_sum (take 20 (cur_bytes w)) mod 65535 = 0"
      "take 4 (drop 16 (cur_bytes w)) = st32 (ip46_ip4 (t_peer_ip t))"
      by (rule encap_wire_header [OF assms(3) bld mb(1) mb2])
    have fwd: "ip4_forwarded (drop 14 (cur_bytes b)) (midchain (drop 14 (cur_bytes b)))"
      using assms(18,19) len by (simp add: midchain_ok_def)
    then have inner: "3 \<le> length (midchain (drop 14 (cur_bytes b)))" using len by (simp add: ip4_forwarded_def)
    note far = far_end_decap [OF bld mb(1) mb2 w(1) inner reachable_inv [OF assms(13,14)] assms(15,16,17)]
    show ?thesis
      by (intro exI [of _ w] conjI allI impI w) (elim conjE, drule (1) far, use fwd in metis)
  qed
  show ?thesis
    using eff wire upd by (intro exI [of _ eff] exI [of _ ?b1] exI [of _ rw] exI [of _ s2])
      (simp add: pool_elt_set)
qed

text \<open>The other end of the example tunnel: tunnel 200 towards tunnel 100, session 2000 on interface 3.\<close>

definition ex_far_tunnel :: "(u64 \<times> u64) list l2tvpp_main" where
  "ex_far_tunnel = fst (snd (l2tvpp_tunnel_add_del 0 ex_init ex_peer ex_local 1701 1701 200 100 True))"

definition ex_far :: "(u64 \<times> u64) list l2tvpp_main" where
  "ex_far = fst (snd (the (l2tvpp_session_add_del alist_bihash 0 4 3 ex_far_tunnel 0 2000 1000 0 0 True)))"

lemma ex_far_tunnel_eq:
  "l2tvpp_tunnel_add_del 0 ex_init ex_peer ex_local 1701 1701 200 100 True = (RV_OK, ex_far_tunnel, Some 0)"
  "tunnels ex_far_tunnel = [Some (new_tunnel ex_peer ex_local 1701 1701 200 100)]"
  "sessions ex_far_tunnel = []" "session_by_key ex_far_tunnel = []" "session_index_by_sw_if_index ex_far_tunnel = []"
  by (simp_all add: ex_far_tunnel_def ex_init_def l2tvpp_init_def l2tvpp_tunnel_add_del_def ex_local_def
      ex_peer_def ip46_address_is_ip4_def l2tvpp_tunnel_find_def pool_indices_def pool_set_def
      new_tunnel_def alist_bihash_def)

lemma ex_far_eq:
  "\<exists>calls. l2tvpp_session_add_del alist_bihash 0 4 3 ex_far_tunnel 0 2000 1000 0 0 True =
     Some (RV_OK, ex_far, Some 3, calls)"
  "pool_elt (sessions ex_far) 0 = Some \<lparr>s_tunnel_index = 0, s_local_tid = 200, s_local_sid = 2000,
     s_peer_sid = 1000, s_acfc = 0, s_pfc = 0, s_sw_if_index = 3, s_hw_if_index = 4, s_encap_ip_csum0 = 0\<rparr>"
  by (simp_all add: ex_far_def l2tvpp_session_add_del_def pool_elt_def ex_far_tunnel_eq alist_bihash_def
      new_tunnel_def l2tvpp_session_add_def pool_set_def)

lemma ex_far_reachable: "obj_reachable alist_bihash ex_far"
proof -
  have "obj_step alist_bihash ex_init ex_far_tunnel"
    by (rule obj_step.tunnel [OF _ _ ex_far_tunnel_eq(1)])
      (simp_all add: pool_is_free_index_def pool_elt_def tid_not_shared_def ex_init_def l2tvpp_init_def)
  moreover obtain calls where "l2tvpp_session_add_del alist_bihash 0 4 3 ex_far_tunnel 0 2000 1000 0 0 True =
      Some (RV_OK, ex_far, Some 3, calls)"
    using ex_far_eq(1) by blast
  then have "obj_step alist_bihash ex_far_tunnel ex_far"
    by (rule obj_step.session [rotated 3])
      (simp_all add: pool_is_free_index_def pool_elt_def ex_far_tunnel_eq session_of_sw_if_index_def)
  moreover have "obj_reachable alist_bihash ex_init"
    by (rule obj_reachable.init [of _ 0 "[]" _ "[Udp_register_dst_port_input]"])
      (simp add: ex_init_def l2tvpp_init_def)
  ultimately show ?thesis by (blast intro: obj_reachable.step)
qed

lemma ex_uplink_plain: "wf_buffer ex_uplink_packet"
  "plain_ip4_dst (cur_bytes ex_uplink_packet) = Some (fp_addr ex_subscriber)"
  by (simp_all add: plain_ip4_dst_def ex_uplink_packet_def cur_bytes_def ex_subscriber_def wf_buffer_def)

text \<open>The usual way: one less in the TTL is \<open>0x0100\<close> more in the checksum, with the carry brought around.\<close>

definition ref_midchain :: "u8 list \<Rightarrow> u8 list" where
  "ref_midchain p =
     (let c = 256 * unat (p ! 10) + unat (p ! 11) + 256; c' = c mod 65536 + c div 65536
      in p[8 := p ! 8 - 1, 10 := of_nat (c' div 256), 11 := of_nat (c' mod 256)])"

lemma ref_midchain_ok: "midchain_ok ref_midchain"
  by (auto simp: midchain_ok_def ip4_forwarded_def ref_midchain_def Let_def)

theorem downstream_end_to_end_witness:
  "\<exists>lm1 calls1 lm2 calls2 eff b1. l2tvpp_route_add_del alist_bihash 0 9 ex_main ex_subscriber 5 True = (RV_OK, lm1, calls1)
    \<and> l2tvpp_update_adj ref_csum lm1 5 9 VNET_LINK_IP4 = Some (lm2, calls2)
    \<and> l2tvpp_encap_fastpath_node alist_bihash lm2 [ex_uplink_packet] = Some eff
    \<and> ee_out eff = [(b1, L2TVPP_ENCAP_FP_NEXT_IP4_MIDCHAIN)] \<and> b_adj_tx b1 = 9"
proof -
  obtain lm1 calls1 where r: "l2tvpp_route_add_del alist_bihash 0 9 ex_main ex_subscriber 5 True = (RV_OK, lm1, calls1)"
    by (cases "l2tvpp_encap_adj_add_del alist_bihash 9 ex_main ex_subscriber 5 True")
      (simp add: l2tvpp_route_add_del_def ex_main_session_of)
  have "session_of_sw_if_index lm1 5 = Some 0"
    using ex_main_session_of unfolding session_of_sw_if_index_def route_frame [OF r] .
  then obtain lm2 calls2 where u: "l2tvpp_update_adj ref_csum lm1 5 9 VNET_LINK_IP4 = Some (lm2, calls2)"
    using update_adj_session [OF route_add_del_inv [OF ex_main_inv r]] by (metis surj_pair)
  have t: "pool_elt (tunnels ex_main) (s_tunnel_index ex_session) =
      Some ((new_tunnel ex_local ex_peer 1701 1701 100 200)\<lparr>t_n_sessions := 1\<rparr>)"
    by (simp add: ex_main_eq pool_elt_def ex_session_def)
  have p: "fp_proto ex_subscriber = FIB_PROTOCOL_IP4" "fp_len ex_subscriber = 32" by (simp_all add: ex_subscriber_def)
  note e2e = downstream_end_to_end [OF ex_reachable alist_bihash_ok ref_csum_ok ex_main_session_of ex_session_live t
      p r u ex_uplink_plain ex_far_reachable alist_bihash_ok ex_far_eq(2) _ _ ref_midchain_ok]
  have "\<exists>eff b1. l2tvpp_encap_fastpath_node alist_bihash lm2 [ex_uplink_packet] = Some eff
      \<and> ee_out eff = [(b1, L2TVPP_ENCAP_FP_NEXT_IP4_MIDCHAIN)] \<and> b_adj_tx b1 = 9"
    using e2e by (simp add: ex_session_def new_tunnel_def ex_uplink_packet_def cur_bytes_def) blast
  with r u show ?thesis by blast
qed

section \<open>Buffers through the graph\<close>

lemma wf_buffer_updates [simp]:
  "wf_buffer (b_rx_update f b) = wf_buffer b" "wf_buffer (b_tx_update f b) = wf_buffer b"
  "wf_buffer (b_adj_tx_update f b) = wf_buffer b" "wf_buffer (b_error_update e b) = wf_buffer b"
  by (simp_all add: wf_buffer_def)

lemma packet_wellformed:
  assumes "objects_inv bh lm" and "wf_buffer b" and "node_packet bh lm b = Some r"
    and "b_l3_hdr_offset b \<le> b_current_data b"
  shows "wf_buffer (ir_buffer r)"
proof (rule node_packet_cases [OF assms(1-3)], goal_cases dr punt de)
  case (punt err si tid sid ppp)
  then show ?case
    using assms(2,4) by (simp add: input_punt_def l2tvpp_rewind_to_ip_def vlib_buffer_advance_def wf_buffer_def)
next
  case (de nxt err si tid sid ppp cur sess)
  then show ?case using cur_bytes_advance(2) [OF assms(2) de(3)] by (simp add: input_decap_def Let_def)
qed (simp add: input_drop_def assms(2))

lemma frame_wellformed:
  assumes "objects_inv bh lm" and "\<forall>b \<in> set frame. wf_buffer b \<and> b_l3_hdr_offset b \<le> b_current_data b"
  shows "\<exists>eff. l2tvpp_input_node bh lm frame = Some eff \<and> (\<forall>(b', n) \<in> set (ie_out eff). wf_buffer b')"
proof -
  have "\<forall>b \<in> set frame. wf_buffer b" using assms(2) by blast
  then obtain rs where rs: "list_all2 (\<lambda>b r. node_packet bh lm b = Some r) frame rs"
    and node: "l2tvpp_input_node bh lm frame = Some (input_finish (fold input_account rs input_loop_start))"
    by (rule node_results [OF assms(1)])
  from rs assms(2) have "\<forall>r \<in> set rs. wf_buffer (ir_buffer r)"
    by (induction rule: list_all2_induct) (auto intro: packet_wellformed [OF assms(1)])
  with node show ?thesis by auto
qed

text \<open>Claim C37: (type) buffers stay well formed from node to node: given a buffer whose data lies inside
  its storage, \<open>l2tvpp-input\<close> (for a recorded IP header at or before the current position),
  the flow handoff's fast path, the encap fast path and the fixup hand on a buffer with the same
  property, so that what the next node may read is really there; the buffer the fast path hands to
  \<open>l2tvpp-input\<close> meets its condition on the recorded header.\<close>

theorem buffers_stay_wellformed:
  assumes "obj_reachable bh lm" and "bihash_ok bh" and "wf_buffer b"
  shows "(b_l3_hdr_offset b \<le> b_current_data b \<longrightarrow> (\<exists>eff. l2tvpp_input_node bh lm [b] = Some eff
        \<and> (\<forall>(b', n) \<in> set (ie_out eff). wf_buffer b')))
    \<and> (l2tvpp_flow_classify crc csum_valid lm b fastpath want_hash = Some c \<and> fc_kind c = L2TVPP_FLOW_KIND_FAST \<longrightarrow>
        wf_buffer (fast_buffer c) \<and> b_l3_hdr_offset (fast_buffer c) \<le> b_current_data (fast_buffer c))
    \<and> (\<exists>eff. l2tvpp_encap_fastpath_node bh lm [b] = Some eff \<and> (\<forall>(b', n) \<in> set (ee_out eff). wf_buffer b'))
    \<and> (l2tvpp_fixup cs sess b = Some b2 \<longrightarrow> wf_buffer b2)"
proof (intro conjI impI)
  assume "b_l3_hdr_offset b \<le> b_current_data b"
  then show "\<exists>eff. l2tvpp_input_node bh lm [b] = Some eff \<and> (\<forall>(b', n) \<in> set (ie_out eff). wf_buffer b')"
    using frame_wellformed [OF reachable_inv [OF assms(1,2)], of "[b]"] assms(3) by simp
next
  assume "l2tvpp_flow_classify crc csum_valid lm b fastpath want_hash = Some c \<and> fc_kind c = L2TVPP_FLOW_KIND_FAST"
  then have c: "l2tvpp_flow_classify crc csum_valid lm b fastpath want_hash = Some c"
    "fc_kind c = L2TVPP_FLOW_KIND_FAST" by simp_all
  show "wf_buffer (fast_buffer c)" "b_l3_hdr_offset (fast_buffer c) \<le> b_current_data (fast_buffer c)"
    using fast_buffer_facts(1,3,4) [OF assms(3) c] by simp_all
next
  have "wf_buffer (fst (encap_fastpath_spec m b))" for m
  proof (cases "plain_ip4_dst (cur_bytes b)")
    case (Some d)
    then have "14 \<le> b_current_length b" using plain_ip4_dst_length [OF Some] assms(3) by simp
    then show ?thesis using assms(3)
      by (auto simp: encap_fastpath_spec_def wf_buffer_def vlib_buffer_advance_def split: option.split)
  qed (simp add: encap_fastpath_spec_def assms(3))
  then show "\<exists>eff. l2tvpp_encap_fastpath_node bh lm [b] = Some eff \<and> (\<forall>(b', n) \<in> set (ee_out eff). wf_buffer b')"
    using encap_fp_loop_spec [of bh lm "[b]"] by (auto simp: l2tvpp_encap_fastpath_node_def split_def)
next
  assume "l2tvpp_fixup cs sess b = Some b2"
  then show "wf_buffer b2"
    using assms(3) by (auto simp: l2tvpp_fixup_def Let_def bind_eq_Some_conv buf_write_def wf_buffer_def split: if_splits)
qed

theorem buffers_stay_wellformed_witness:
  "\<exists>eff. l2tvpp_input_node alist_bihash ex_main [ex_control] = Some eff \<and> (\<forall>(b', n) \<in> set (ie_out eff). wf_buffer b')"
proof -
  have "b_l3_hdr_offset ex_control \<le> b_current_data ex_control" by (simp add: ex_control_def)
  with conjunct1 [OF buffers_stay_wellformed [OF ex_reachable alist_bihash_ok ex_wf(2)]] show ?thesis by blast
qed

end
